(* ===== verification/Prelude.thy ===== *)
theory Prelude
  imports Main "HOL-Library.Word"
begin

text \<open>
  Shared vocabulary of the development: the machine integer types of
  \<^verbatim>\<open>src/include/type.h\<close>, the byte-addressed physical memory with its 32-bit
  little-endian accesses, and the generic lemmas on words, masks and memory updates that
  the component theories use. Nothing here models a function of the kernel except the type
  names; the collections \<^verbatim>\<open>layout\<close> (constants of a header unfolded by proofs),
  \<^verbatim>\<open>code_defs\<close> (definitions of straight-line code) and \<^verbatim>\<open>mask_simps\<close> (shift
  and mask arithmetic) carry the automation.
\<close>

unbundle bit_operations_syntax

named_theorems layout
named_theorems code_defs
named_theorems mask_simps

section \<open>Machine integers\<close>

type_synonym u8 = "8 word"
type_synonym u16 = "16 word"
type_synonym u32 = "32 word"

text \<open>A C \<^verbatim>\<open>int\<close> is a 32-bit word read as two's complement.\<close>

abbreviation c_int :: "u32 \<Rightarrow> int" where
  "c_int \<equiv> sint"

lemma unat_add_no_wrap:
  "unat a + n < 2 ^ LENGTH('a::len) \<Longrightarrow> unat ((a :: 'a word) + of_nat n) = unat a + n"
  by (simp add: unat_word_ariths unsigned_of_nat take_bit_eq_mod)

lemma word_eq_of_nat: "unat (x :: 'a::len word) = n \<Longrightarrow> x = of_nat n"
  by auto

lemma unat_succ_below:
  assumes "i < (n :: 'a::len word)"
  shows "unat (i + 1) = unat i + 1"
proof -
  have "unat i < unat n" and "unat n < 2 ^ LENGTH('a)"
    using assms by (simp_all add: word_less_nat_alt)
  then have "unat i + 1 < 2 ^ LENGTH('a)"
    by linarith
  then show ?thesis
    using unat_add_no_wrap [of i 1] by simp
qed

lemma of_nat_inj_below:
  "i < 2 ^ LENGTH('a::len) \<Longrightarrow> j < 2 ^ LENGTH('a) \<Longrightarrow>
     (of_nat i :: 'a word) = of_nat j \<longleftrightarrow> i = j"
  by (simp add: word_of_nat_eq_iff take_bit_nat_eq_self)

lemma unat_of_nat_u32 [simp]: "n < 4294967296 \<Longrightarrow> unat (of_nat n :: u32) = n"
  by (simp add: unsigned_of_nat take_bit_nat_eq_self)

lemma unat_u32_bound [simp]: "unat (x :: u32) < 4294967296"
  using unsigned_less [of x, where ?'a = nat] by simp

lemma unat_u8_bound [simp]: "unat (x :: u8) < 256"
  using unsigned_less [of x, where ?'a = nat] by simp

lemma sint_of_nat_u32 [simp]: "n < 2147483648 \<Longrightarrow> sint (of_nat n :: u32) = int n"
  by (simp add: signed_of_nat signed_take_bit_int_eq_self)

lemma unat_and_mask: "unat ((x :: 'a::len word) AND mask n) = unat x mod 2 ^ n"
  unfolding take_bit_eq_mask [symmetric] unsigned_take_bit_eq by (rule take_bit_eq_mod)

lemma of_nat_u32_less_iff:
  "n < 4294967296 \<Longrightarrow> (of_nat n :: u32) < x \<longleftrightarrow> n < unat x"
  by (simp add: word_less_nat_alt)

lemma unat_drop_bit: "unat (drop_bit n v :: u32) = unat v div 2 ^ n"
  unfolding unat_drop_bit_eq by (rule drop_bit_eq_div)

lemma drop_bit_of_nat: "drop_bit n (v :: u32) = of_nat (unat v div 2 ^ n)"
  by (rule word_eq_of_nat) (rule unat_drop_bit)

section \<open>Byte-addressed memory\<close>

type_synonym bmem = "u32 \<Rightarrow> u8"

text \<open>
  Two spans of \<^verbatim>\<open>n\<close> bytes are apart when each start is at least \<^verbatim>\<open>n\<close> above the
  other, the differences taken modulo the address space.
\<close>

definition apart :: "u32 \<Rightarrow> u32 \<Rightarrow> u32 \<Rightarrow> bool" where
  "apart n p q \<longleftrightarrow> n \<le> q - p \<and> n \<le> p - q"

lemma apart_offset [simp]:
  "apart n (a + x) (a + y) \<longleftrightarrow> n \<le> y - x \<and> n \<le> x - y"
  "apart n a (a + y) \<longleftrightarrow> n \<le> y \<and> n \<le> - y"
  "apart n (a + x) a \<longleftrightarrow> n \<le> - x \<and> n \<le> x"
  by (simp_all add: apart_def)

definition load32 :: "bmem \<Rightarrow> u32 \<Rightarrow> u32" where
  "load32 m a = ucast (m a) OR push_bit 8 (ucast (m (a + 1)))
     OR push_bit 16 (ucast (m (a + 2))) OR push_bit 24 (ucast (m (a + 3)))"

definition store32 :: "bmem \<Rightarrow> u32 \<Rightarrow> u32 \<Rightarrow> bmem" where
  "store32 m a v = m(a := ucast v, a + 1 := ucast (drop_bit 8 v),
     a + 2 := ucast (drop_bit 16 v), a + 3 := ucast (drop_bit 24 v))"

lemma bytes_of_u32:
  "(ucast (ucast (v :: u32) :: u8) :: u32) OR push_bit 8 (ucast (ucast (drop_bit 8 v) :: u8))
     OR push_bit 16 (ucast (ucast (drop_bit 16 v) :: u8))
     OR push_bit 24 (ucast (ucast (drop_bit 24 v) :: u8)) = v" (is "?l = v")
proof (rule bit_word_eqI)
  fix n
  assume "n < LENGTH(32)"
  then show "bit ?l n = bit v n"
    by (cases "n < 8"; cases "n < 16"; cases "n < 24")
      (simp_all add: bit_or_iff bit_push_bit_iff bit_unsigned_iff bit_drop_bit_eq not_less less_diff_conv2)
qed

lemma load32_store32_same [simp]: "load32 (store32 m a v) a = v"
proof -
  have "a + 1 \<noteq> a" "a + 2 \<noteq> a" "a + 3 \<noteq> a" "a + 2 \<noteq> a + 1" "a + 3 \<noteq> a + 1" "a + 3 \<noteq> a + 2"
    by simp_all
  then show ?thesis
    by (simp add: load32_def store32_def bytes_of_u32)
qed

lemma store32_frame:
  "4 \<le> b - a \<Longrightarrow> store32 m a v b = m b"
proof -
  assume "4 \<le> b - a"
  then have "b \<noteq> a" "b \<noteq> a + 1" "b \<noteq> a + 2" "b \<noteq> a + 3"
    by (auto simp: word_le_nat_alt)
  then show ?thesis
    by (simp add: store32_def)
qed

lemma load32_store32_apart [simp]:
  assumes "apart 4 p q"
  shows "load32 (store32 m p v) q = load32 m q"
proof -
  have *: "q - p \<noteq> 0" "q - p \<noteq> 1" "q - p \<noteq> 2" "q - p \<noteq> 3" "p - q \<noteq> 1" "p - q \<noteq> 2" "p - q \<noteq> 3"
    using assms by (auto simp: apart_def word_le_nat_alt)
  have "q + i \<noteq> p + j" if "i \<in> {0, 1, 2, 3}" "j \<in> {0, 1, 2, 3}" for i j
  proof
    assume "q + i = p + j"
    then have "q - p = j - i" "p - q = i - j"
      by (simp_all add: algebra_simps)
    with * that show False
      by auto
  qed
  from this [of 0 0] this [of 0 1] this [of 0 2] this [of 0 3]
    this [of 1 0] this [of 1 1] this [of 1 2] this [of 1 3]
    this [of 2 0] this [of 2 1] this [of 2 2] this [of 2 3]
    this [of 3 0] this [of 3 1] this [of 3 2] this [of 3 3]
  show ?thesis
    by (simp add: load32_def store32_def)
qed

lemma load32_cong:
  assumes "\<And>i. i < 4 \<Longrightarrow> m' (a + of_nat i) = m (a + of_nat i)"
  shows "load32 m' a = load32 m a"
  using assms [of 0] assms [of 1] assms [of 2] assms [of 3] by (simp add: load32_def)

section \<open>Arrays of 32-bit cells\<close>

lemma apart_cells:
  assumes "x \<noteq> y" and "x < 268435456" and "y < 268435456"
  shows "apart 4 (b + 4 * of_nat x) (b + 4 * of_nat y)"
proof -
  have le: "4 \<le> (4 * of_nat j - 4 * of_nat i :: u32) \<and> 4 \<le> (4 * of_nat i - 4 * of_nat j :: u32)"
    if "i < j" "j < 268435456" for i j
  proof -
    obtain d where d: "0 < d" "i + d = j"
      using less_imp_add_positive [OF \<open>i < j\<close>] by blast
    then have k: "4 * d < 4294967296" "4294967296 - 4 * d < 4294967296" "4 \<le> 4294967296 - 4 * d"
      using that(2) by simp_all
    have "4 * of_nat j - 4 * of_nat i = (of_nat (4 * d) :: u32)"
      by (simp add: algebra_simps flip: d(2))
    moreover have "4 * of_nat i - 4 * of_nat j = (of_nat (4294967296 - 4 * d) :: u32)"
    proof -
      have "(of_nat 4294967296 :: u32) = 0"
        unfolding word_of_nat_eq_0_iff by simp
      then have "(of_nat (4294967296 - 4 * d) :: u32) = - of_nat (4 * d)"
        using k(1) by (simp only: of_nat_diff less_imp_le diff_0)
      then show ?thesis
        by (simp add: algebra_simps flip: d(2))
    qed
    ultimately show ?thesis
      unfolding word_le_nat_alt using unat_of_nat_u32 [OF k(1)] unat_of_nat_u32 [OF k(2)] k(3) d(1)
      by (simp only:) simp
  qed
  show ?thesis
    using le [of x y] le [of y x] assms unfolding apart_offset by (cases "x < y") auto
qed

definition cell :: "bmem \<Rightarrow> u32 \<Rightarrow> nat \<Rightarrow> u32" where
  "cell m b x = load32 m (b + 4 * of_nat x)"

lemma cell_store32:
  "x < 268435456 \<Longrightarrow> y < 268435456 \<Longrightarrow>
     cell (store32 m (b + 4 * of_nat y) v) b x = (if x = y then v else cell m b x)"
  unfolding cell_def by (cases "x = y") (simp_all add: load32_store32_apart [OF apart_cells])

section \<open>Run-time faults\<close>

text \<open>
  What ends or leaves the defined behaviour of a C function: an access outside an array, a
  dereference of the null pointer or of a pointer never set, an offset past the limit of its segment, the \<^verbatim>\<open>PANIC\<close>
  macro, which prints its argument and spins forever, or a loop that never ends. A function that can fault returns \<^verbatim>\<open>Inl\<close> of the fault or \<^verbatim>\<open>Inr\<close> of
  its result.
\<close>

datatype fault = Out_Of_Bounds | Null_Pointer | Uninitialised | General_Protection | Panic string | No_Return

type_synonym 'a outcome = "fault + 'a"

fun bind_outcome :: "'a outcome \<Rightarrow> ('a \<Rightarrow> 'b outcome) \<Rightarrow> 'b outcome" where
  "bind_outcome (Inl e) f = Inl e"
| "bind_outcome (Inr x) f = f x"

lemma bind_outcome_Inr:
  "bind_outcome x f = Inr y \<longleftrightarrow> (\<exists>a. x = Inr a \<and> f a = Inr y)"
  by (cases x) auto

text \<open>A loop that may not end, as a step of such a function.\<close>

fun returns :: "'a option \<Rightarrow> 'a outcome" where
  "returns None = Inl No_Return"
| "returns (Some x) = Inr x"

lemma ucast_u8_u32: "ucast (ucast (x :: u8) :: u32) = x"
  by (rule bit_word_eqI) (auto simp: bit_simps)

text \<open>Signed division of C: the quotient is rounded towards zero.\<close>

definition c_quot :: "int \<Rightarrow> int \<Rightarrow> int" where
  "c_quot a b = sgn a * sgn b * (\<bar>a\<bar> div \<bar>b\<bar>)"

definition c_rem :: "int \<Rightarrow> int \<Rightarrow> int" where
  "c_rem a b = a - b * c_quot a b"

lemma c_quot_nonneg: "0 \<le> a \<Longrightarrow> 0 < b \<Longrightarrow> c_quot a b = a div b"
  by (cases "a = 0") (simp_all add: c_quot_def)

lemma c_rem_nonneg: "0 \<le> a \<Longrightarrow> 0 < b \<Longrightarrow> c_rem a b = a mod b"
  by (simp add: c_rem_def c_quot_nonneg minus_mult_div_eq_mod)

text \<open>The x86 shift instructions take their count modulo 32.\<close>

definition shl32 :: "u32 \<Rightarrow> u32 \<Rightarrow> u32" where
  "shl32 x n = push_bit (unat (n AND 31)) x"

end
