(* ===== verification/ListHead.thy ===== *)
theory ListHead
  imports Prelude
begin

text \<open>
  The intrusive circular lists of \<^verbatim>\<open>src/include/list.h\<close> and
  \<^verbatim>\<open>src/lib/list.c\<close>. A \<^verbatim>\<open>struct list_head\<close> is named by its address; the heap of
  all list heads is split by field, one map for \<^verbatim>\<open>next\<close> and one for \<^verbatim>\<open>prev\<close>, so
  every store of the C code is one function update, in the order of the statements, and
  aliasing between the arguments (\<^verbatim>\<open>prev == next\<close> in a singleton ring) is kept. The
  predicate \<^verbatim>\<open>ring h xs\<close> says that the nodes \<^verbatim>\<open>xs\<close>, in this order, form one
  well-linked cycle. The locale \<^verbatim>\<open>ring_store\<close> is the interface the scheduler and the
  locks rely on; it is interpreted on the code's operations at the end.
\<close>

section \<open>The list heap and its operations\<close>

record list_heap =
  lh_next :: "u32 \<Rightarrow> u32"
  lh_prev :: "u32 \<Rightarrow> u32"

definition set_next :: "list_heap \<Rightarrow> u32 \<Rightarrow> u32 \<Rightarrow> list_heap" where
  [code_defs]: "set_next h p v = h\<lparr>lh_next := (lh_next h)(p := v)\<rparr>"

definition set_prev :: "list_heap \<Rightarrow> u32 \<Rightarrow> u32 \<Rightarrow> list_heap" where
  [code_defs]: "set_prev h p v = h\<lparr>lh_prev := (lh_prev h)(p := v)\<rparr>"

definition INIT_LIST_HEAD :: "list_heap \<Rightarrow> u32 \<Rightarrow> list_heap" where
  [code_defs]: "INIT_LIST_HEAD h l =
     (let h = set_prev h l l in
      set_next h l l)"

definition list_add_raw :: "list_heap \<Rightarrow> u32 \<Rightarrow> u32 \<Rightarrow> u32 \<Rightarrow> list_heap" where
  [code_defs]: "list_add_raw h new prv nxt =
     (let h = set_prev h nxt new;
          h = set_next h new nxt;
          h = set_prev h new prv in
      set_next h prv new)"

definition list_add :: "list_heap \<Rightarrow> u32 \<Rightarrow> u32 \<Rightarrow> list_heap" where
  [code_defs]: "list_add h new head = list_add_raw h new head (lh_next h head)"

definition list_add_tail :: "list_heap \<Rightarrow> u32 \<Rightarrow> u32 \<Rightarrow> list_heap" where
  [code_defs]: "list_add_tail h new tail = list_add_raw h new tail (lh_next h tail)"

definition list_del_raw :: "list_heap \<Rightarrow> u32 \<Rightarrow> u32 \<Rightarrow> list_heap" where
  [code_defs]: "list_del_raw h prv nxt =
     (let h = set_next h prv nxt in
      set_prev h nxt prv)"

definition list_del :: "list_heap \<Rightarrow> u32 \<Rightarrow> list_heap" where
  [code_defs]: "list_del h entry =
     (let h = list_del_raw h (lh_prev h entry) (lh_next h entry) in
      INIT_LIST_HEAD h entry)"

definition list_replace :: "list_heap \<Rightarrow> u32 \<Rightarrow> u32 \<Rightarrow> list_heap" where
  [code_defs]: "list_replace h new old =
     (let h = set_next h new (lh_next h old);
          h = set_prev h (lh_next h new) new;
          h = set_prev h new (lh_prev h old);
          h = set_next h (lh_prev h new) new in
      INIT_LIST_HEAD h old)"

section \<open>Well-linked cycles\<close>

fun chain :: "list_heap \<Rightarrow> u32 list \<Rightarrow> bool" where
  "chain h [] = True"
| "chain h [x] = True"
| "chain h (x # y # r) = (lh_next h x = y \<and> lh_prev h y = x \<and> chain h (y # r))"

definition ring :: "list_heap \<Rightarrow> u32 list \<Rightarrow> bool" where
  "ring h xs \<longleftrightarrow> xs \<noteq> [] \<and> distinct xs \<and> chain h (xs @ [hd xs])"

lemma chain_append:
  "chain h (xs @ a # ys) \<longleftrightarrow> chain h (xs @ [a]) \<and> chain h (a # ys)"
  by (induction h xs rule: chain.induct) auto

lemma chain_Cons:
  "chain h (x # ys) \<longleftrightarrow> (ys \<noteq> [] \<longrightarrow> lh_next h x = hd ys \<and> lh_prev h (hd ys) = x) \<and> chain h ys"
  by (cases ys) auto

lemma chain_snoc:
  "xs \<noteq> [] \<Longrightarrow> chain h (xs @ [y]) \<longleftrightarrow> chain h xs \<and> lh_next h (last xs) = y \<and> lh_prev h y = last xs"
  by (cases xs rule: rev_cases) (auto simp: chain_append [where ys = "[y]"])

lemma chain_frame:
  assumes "chain h xs"
    and "\<And>x. x \<in> set (butlast xs) \<Longrightarrow> lh_next h' x = lh_next h x"
    and "\<And>x. x \<in> set (tl xs) \<Longrightarrow> lh_prev h' x = lh_prev h x"
  shows "chain h' xs"
  using assms by (induction h xs rule: chain.induct) (auto split: if_splits)

lemma ring_frame:
  assumes "ring h xs"
    and "\<And>x. x \<in> set xs \<Longrightarrow> lh_next h' x = lh_next h x \<and> lh_prev h' x = lh_prev h x"
  shows "ring h' xs"
proof -
  have ne: "xs \<noteq> []" and c: "chain h (xs @ [hd xs])"
    using assms(1) by (simp_all add: ring_def)
  from c have "chain h' (xs @ [hd xs])"
  proof (rule chain_frame)
    show "lh_next h' x = lh_next h x" if "x \<in> set (butlast (xs @ [hd xs]))" for x
      using that assms(2) by simp
    show "lh_prev h' x = lh_prev h x" if "x \<in> set (tl (xs @ [hd xs]))" for x
      using that assms(2) ne by (cases xs) auto
  qed
  with assms(1) show ?thesis
    by (simp add: ring_def)
qed

lemma ring_rotate1: "ring h (x # xs) \<longleftrightarrow> ring h (xs @ [x])"
proof (cases xs)
  case Nil
  then show ?thesis by simp
next
  case (Cons y ys)
  have "chain h ((x # xs) @ [x]) \<longleftrightarrow> chain h ((xs @ [x]) @ [hd (xs @ [x])])"
    using chain_append [of h "y # ys" x "[y]"] by (auto simp: Cons)
  with Cons show ?thesis
    by (auto simp: ring_def)
qed

lemma ring_rotate: "ring h (xs @ ys) \<longleftrightarrow> ring h (ys @ xs)"
proof (induction xs arbitrary: ys)
  case Nil
  then show ?case by simp
next
  case (Cons x xs)
  have "ring h ((x # xs) @ ys) \<longleftrightarrow> ring h (xs @ (ys @ [x]))"
    using ring_rotate1 [of h x "xs @ ys"] by simp
  also have "\<dots> \<longleftrightarrow> ring h ((ys @ [x]) @ xs)"
    by (rule Cons.IH)
  finally show ?case by simp
qed

lemma ring_next: "ring h (x # xs) \<Longrightarrow> lh_next h x = hd (xs @ [x])"
  by (cases xs) (auto simp: ring_def)

lemma ring_prev: "ring h (x # xs) \<Longrightarrow> lh_prev h x = last (x # xs)"
  using chain_snoc [of "x # xs" h x] by (simp add: ring_def)

text \<open>A node determines its ring.\<close>

lemma chain_unique:
  assumes "chain h (p # xs @ [x])" and "chain h (p # ys @ [x])" and "x \<notin> set xs" and "x \<notin> set ys"
  shows "xs = ys"
  using assms
proof (induction xs arbitrary: p ys)
  case Nil
  then show ?case by (cases ys) auto
next
  case (Cons a xs)
  then show ?case by (cases ys) auto
qed

lemma ring_unique: "ring h (x # xs) \<Longrightarrow> ring h (x # ys) \<Longrightarrow> xs = ys"
  using chain_unique [of h x xs x ys] by (simp add: ring_def)

lemma ring_nonempty: "\<not> ring h []"
  by (simp add: ring_def)

lemma ring_distinct: "ring h xs \<Longrightarrow> distinct xs"
  by (simp add: ring_def)

lemma ring_singleton: "ring h [x] \<longleftrightarrow> lh_next h x = x \<and> lh_prev h x = x"
  by (auto simp: ring_def)

section \<open>What each operation does to a cycle\<close>

lemma ring_back:
  assumes "ring h (x # xs)"
  shows "lh_next h (lh_prev h x) = x"
proof (cases xs rule: rev_cases)
  case Nil
  with assms show ?thesis by (simp add: ring_singleton)
next
  case (snoc ys y)
  then have "ring h (y # x # ys)"
    using assms ring_rotate1 [of h y "x # ys"] by simp
  then show ?thesis
    using ring_prev [OF assms] snoc by (simp add: ring_next)
qed

lemma ring_INIT_LIST_HEAD: "ring (INIT_LIST_HEAD h x) [x]"
  by (simp add: ring_singleton code_defs)

lemma INIT_LIST_HEAD_frame:
  "x \<notin> set ys \<Longrightarrow> ring h ys \<Longrightarrow> ring (INIT_LIST_HEAD h x) ys"
  by (rule ring_frame [of h]) (auto simp: code_defs)

lemma ring_add_raw:
  assumes "ring h (p # xs)" and "new \<notin> set (p # xs)"
  shows "ring (list_add_raw h new p (hd (xs @ [p]))) (p # new # xs)"
proof -
  let ?h = "list_add_raw h new p (hd (xs @ [p]))"
  have c: "chain h (xs @ [p])" and d: "distinct (p # xs)"
    using assms(1) by (auto simp: ring_def chain_Cons)
  from c have "chain ?h (xs @ [p])"
  proof (rule chain_frame)
    show "lh_next ?h x = lh_next h x" if "x \<in> set (butlast (xs @ [p]))" for x
      using that d assms(2) by (auto simp: code_defs)
    show "lh_prev ?h x = lh_prev h x" if "x \<in> set (tl (xs @ [p]))" for x
      using that d assms(2) by (cases xs) (auto simp: code_defs)
  qed
  moreover have "lh_next ?h p = new \<and> lh_prev ?h new = p \<and> lh_next ?h new = hd (xs @ [p])
      \<and> lh_prev ?h (hd (xs @ [p])) = new"
    using d assms(2) by (cases xs) (auto simp: code_defs)
  ultimately show ?thesis
    using d assms(2) by (auto simp: ring_def chain_Cons)
qed

lemma ring_list_add_tail:
  "ring h (p # xs) \<Longrightarrow> new \<notin> set (p # xs) \<Longrightarrow> ring (list_add_tail h new p) (p # new # xs)"
  by (simp add: list_add_tail_def ring_next ring_add_raw)

lemma list_add_tail_frame:
  assumes "ring h (p # xs)" and "ring h ys" and "set ys \<inter> set (new # p # xs) = {}"
  shows "ring (list_add_tail h new p) ys"
proof (rule ring_frame [OF assms(2)])
  fix x assume "x \<in> set ys"
  with assms(3) have "x \<noteq> new" "x \<noteq> p" "x \<noteq> hd (xs @ [p])"
    by (cases xs; auto)+
  with ring_next [OF assms(1)]
  show "lh_next (list_add_tail h new p) x = lh_next h x \<and>
      lh_prev (list_add_tail h new p) x = lh_prev h x"
    by (simp add: code_defs)
qed

lemma ring_list_del_self: "ring (list_del h e) [e]"
  by (simp add: list_del_def ring_INIT_LIST_HEAD)

lemma ring_list_del:
  assumes "ring h (e # xs)" and "xs \<noteq> []"
  shows "ring (list_del h e) xs"
proof -
  let ?h = "list_del h e"
  have n: "lh_next h e = hd xs" and p: "lh_prev h e = last xs"
    using ring_next [OF assms(1)] ring_prev [OF assms(1)] assms(2) by simp_all
  have d: "distinct (e # xs)" and c: "chain h xs"
    using assms by (auto simp: ring_def chain_Cons chain_snoc)
  then have "e \<noteq> hd xs" "e \<noteq> last xs"
    using assms(2) by auto
  from c have "chain ?h xs"
  proof (rule chain_frame)
    show "lh_next ?h x = lh_next h x" if "x \<in> set (butlast xs)" for x
    proof -
      have "distinct (butlast xs @ [last xs])"
        using d assms(2) by simp
      then have "x \<noteq> last xs"
        using that by auto
      moreover have "x \<noteq> e"
        using that d by (auto dest: in_set_butlastD)
      ultimately show ?thesis
        by (simp add: code_defs n p)
    qed
    show "lh_prev ?h x = lh_prev h x" if "x \<in> set (tl xs)" for x
      using that d by (cases xs) (auto simp: code_defs n p)
  qed
  moreover have "lh_next ?h (last xs) = hd xs \<and> lh_prev ?h (hd xs) = last xs"
    using \<open>e \<noteq> hd xs\<close> \<open>e \<noteq> last xs\<close> by (simp add: code_defs n p)
  ultimately show ?thesis
    using d assms(2) by (simp add: ring_def chain_snoc)
qed

lemma list_del_frame:
  assumes "ring h (e # xs)" and "ring h ys" and "set ys \<inter> set (e # xs) = {}"
  shows "ring (list_del h e) ys"
proof (rule ring_frame [OF assms(2)])
  fix x assume "x \<in> set ys"
  with assms(3) have "x \<noteq> e" "x \<noteq> hd (xs @ [e])" "x \<noteq> last (e # xs)"
    by (cases xs; auto)+
  with ring_next [OF assms(1)] ring_prev [OF assms(1)]
  show "lh_next (list_del h e) x = lh_next h x \<and> lh_prev (list_del h e) x = lh_prev h x"
    by (simp add: code_defs)
qed

lemma ring_list_replace:
  assumes "ring h (old # xs)" and "new \<notin> set (old # xs)"
  shows "ring (list_replace h new old) (new # xs)"
proof (cases "xs = []")
  case True
  with assms show ?thesis
    by (auto simp: ring_singleton code_defs)
next
  case False
  let ?h = "list_replace h new old"
  have n: "lh_next h old = hd xs" and p: "lh_prev h old = last xs"
    using ring_next [OF assms(1)] ring_prev [OF assms(1)] False by simp_all
  have d: "distinct (old # xs)" and c: "chain h xs"
    using assms False by (auto simp: ring_def chain_Cons chain_snoc)
  have ends: "hd xs \<in> set xs" "last xs \<in> set xs"
    using False by simp_all
  then have ne: "old \<noteq> hd xs" "old \<noteq> last xs" "new \<noteq> hd xs" "new \<noteq> last xs" "new \<noteq> old"
    using d assms(2) by auto
  from c have "chain ?h xs"
  proof (rule chain_frame)
    show "lh_next ?h x = lh_next h x" if "x \<in> set (butlast xs)" for x
    proof -
      have "distinct (butlast xs @ [last xs])"
        using d False by simp
      then have "x \<noteq> last xs"
        using that by auto
      moreover have "x \<noteq> old" "x \<noteq> new"
        using that d assms(2) by (auto dest: in_set_butlastD)
      ultimately show ?thesis
        using ne by (simp add: code_defs n p)
    qed
    show "lh_prev ?h x = lh_prev h x" if "x \<in> set (tl xs)" for x
      using that d assms(2) ne by (cases xs) (auto simp: code_defs n p)
  qed
  moreover have "lh_next ?h new = hd xs \<and> lh_prev ?h (hd xs) = new
      \<and> lh_next ?h (last xs) = new \<and> lh_prev ?h new = last xs"
    using ne by (simp add: code_defs n p)
  ultimately show ?thesis
    using d assms(2) False by (simp add: ring_def chain_snoc chain_Cons)
qed

lemma ring_list_replace_old: "ring (list_replace h new old) [old]"
  by (simp add: list_replace_def Let_def ring_INIT_LIST_HEAD)

section \<open>The interface of the ring lists\<close>

text \<open>
  What the scheduler and the locks use of the lists: an operation that makes a singleton
  ring, one that links a fresh node behind a given one, one that unlinks a node, and the two
  link fields; the laws say what each does to the rings of the store, untouched rings
  included.
\<close>

locale ring_store =
  fixes init :: "'h \<Rightarrow> 'n \<Rightarrow> 'h"
    and insert_after :: "'h \<Rightarrow> 'n \<Rightarrow> 'n \<Rightarrow> 'h"
    and unlink :: "'h \<Rightarrow> 'n \<Rightarrow> 'h"
    and succ_of :: "'h \<Rightarrow> 'n \<Rightarrow> 'n"
    and pred_of :: "'h \<Rightarrow> 'n \<Rightarrow> 'n"
    and is_ring :: "'h \<Rightarrow> 'n list \<Rightarrow> bool"
  assumes rs_init: "is_ring (init h x) [x]"
    and rs_distinct: "is_ring h xs \<Longrightarrow> distinct xs"
    and rs_rotate: "is_ring h (xs @ ys) \<longleftrightarrow> is_ring h (ys @ xs)"
    and rs_succ: "is_ring h (x # xs) \<Longrightarrow> succ_of h x = hd (xs @ [x])"
    and rs_pred: "is_ring h (x # xs) \<Longrightarrow> pred_of h x = last (x # xs)"
    and rs_insert: "is_ring h (p # xs) \<Longrightarrow> n \<notin> set (p # xs) \<Longrightarrow>
      is_ring (insert_after h n p) (p # n # xs)"
    and rs_insert_frame: "is_ring h (p # xs) \<Longrightarrow> is_ring h ys \<Longrightarrow>
      set ys \<inter> set (n # p # xs) = {} \<Longrightarrow> is_ring (insert_after h n p) ys"
    and rs_unlink: "is_ring h (e # xs) \<Longrightarrow> xs \<noteq> [] \<Longrightarrow> is_ring (unlink h e) xs"
    and rs_unlink_self: "is_ring (unlink h e) [e]"
    and rs_unlink_frame: "is_ring h (e # xs) \<Longrightarrow> is_ring h ys \<Longrightarrow>
      set ys \<inter> set (e # xs) = {} \<Longrightarrow> is_ring (unlink h e) ys"
begin

lemma last_first_ring:
  assumes "is_ring h (r # xs)"
  shows "is_ring h (last (r # xs) # butlast (r # xs))"
proof -
  have "butlast (r # xs) @ [last (r # xs)] = r # xs"
    by (rule append_butlast_last_id) simp
  with assms have "is_ring h (butlast (r # xs) @ [last (r # xs)])"
    by (simp only:)
  then show ?thesis
    using rs_rotate [of h "butlast (r # xs)" "[last (r # xs)]"] by simp
qed

lemma enqueue_ring:
  assumes "is_ring h (r # xs)" and "n \<notin> set (r # xs)"
  shows "is_ring (insert_after h n (pred_of h r)) (r # xs @ [n])"
proof -
  let ?t = "last (r # xs)" and ?bl = "butlast (r # xs)"
  have split: "?bl @ [?t] = r # xs"
    by (rule append_butlast_last_id) simp
  then have "set (?t # ?bl) = set (r # xs)"
    using set_append [of ?bl "[?t]"] by (metis Un_commute append_Cons append_Nil set_append)
  with last_first_ring [OF assms(1)] assms(2)
  have "is_ring (insert_after h n ?t) (?t # n # ?bl)"
    by (intro rs_insert) blast+
  then have "is_ring (insert_after h n ?t) ([n] @ (?bl @ [?t]))"
    using rs_rotate [of _ "[?t]" "n # ?bl"] by simp
  then have "is_ring (insert_after h n ?t) ((r # xs) @ [n])"
    by (simp only: split rs_rotate)
  then show ?thesis
    using rs_pred [OF assms(1)] by simp
qed

lemma enqueue_frame:
  assumes "is_ring h (r # xs)" and "is_ring h ys" and "set ys \<inter> set (n # r # xs) = {}"
  shows "is_ring (insert_after h n (pred_of h r)) ys"
proof -
  let ?t = "last (r # xs)" and ?bl = "butlast (r # xs)"
  have "set (?t # ?bl) \<subseteq> set (r # xs)"
    using last_in_set [of "r # xs"] by (auto dest: in_set_butlastD)
  then have "set ys \<inter> set (n # ?t # ?bl) = {}"
    using assms(3) by auto
  from rs_insert_frame [OF last_first_ring [OF assms(1)] assms(2) this]
  show ?thesis
    using rs_pred [OF assms(1)] by simp
qed

lemma rotate_ring:
  assumes "is_ring h (r # xs)" and "n \<notin> set (r # xs)"
  shows "is_ring (unlink (insert_after h n (pred_of h r)) r) (xs @ [n])"
  using rs_unlink [OF enqueue_ring [OF assms]] by simp

lemma transfer_rings:
  assumes "is_ring h (w # t # ts)" and "is_ring h (r # rs)"
    and "set (w # t # ts) \<inter> set (r # rs) = {}"
  defines "h' \<equiv> unlink h t"
  shows "is_ring (insert_after h' t (pred_of h' r)) (w # ts)"
    and "is_ring (insert_after h' t (pred_of h' r)) (r # rs @ [t])"
proof -
  have "is_ring h (t # (ts @ [w]))"
    using rs_rotate [of h "[w]" "t # ts"] assms(1) by simp
  then have "is_ring h' (ts @ [w])" and ready: "is_ring h' (r # rs)"
    using assms(3) unfolding h'_def
    by (auto intro!: rs_unlink rs_unlink_frame [OF _ assms(2)])
  then have wait: "is_ring h' (w # ts)"
    using rs_rotate [of h' ts "[w]"] by simp
  show "is_ring (insert_after h' t (pred_of h' r)) (r # rs @ [t])"
    using assms(3) by (intro enqueue_ring ready) auto
  have "t \<notin> set (w # ts)"
    using rs_distinct [OF assms(1)] by auto
  then show "is_ring (insert_after h' t (pred_of h' r)) (w # ts)"
    using assms(3) by (intro enqueue_frame [OF ready wait]) auto
qed

end

interpretation lh: ring_store INIT_LIST_HEAD list_add_tail list_del lh_next lh_prev ring
  by unfold_locales
    (fact ring_INIT_LIST_HEAD ring_distinct ring_rotate ring_next ring_prev ring_list_add_tail
      list_add_tail_frame ring_list_del ring_list_del_self list_del_frame)+

section \<open>Properties\<close>

text \<open>
  Appending at the tail of a ring through its head's \<^verbatim>\<open>prev\<close> pointer, the idiom
  \<^verbatim>\<open>list_add_tail(e, head->prev)\<close> of the scheduler and the locks, puts the new node last,
  keeps the order of the others, and leaves every ring disjoint from it well linked.
\<close>

lemma list_add_tail_enqueues:
  assumes "ring h (r # xs)" and "new \<notin> set (r # xs)"
    and "ring h ys" and "set ys \<inter> set (new # r # xs) = {}"
  shows "ring (list_add_tail h new (lh_prev h r)) (r # xs @ [new])
    \<and> ring (list_add_tail h new (lh_prev h r)) ys"
  using lh.enqueue_ring [OF assms(1,2)] lh.enqueue_frame [OF assms(1,3,4)] by simp

text \<open>A heap whose nodes are all singletons.\<close>

definition empty_heap :: list_heap where
  "empty_heap = \<lparr>lh_next = (\<lambda>x. x), lh_prev = (\<lambda>x. x)\<rparr>"

end
