(* ===== verification/Sched.thy ===== *)
theory Sched
  imports ListHead
begin

text \<open>
  The scheduler: the globals of \<^verbatim>\<open>src/kernel/thread/init.c\<close> it works on, the timer
  interrupt's \<^verbatim>\<open>timer_handler\<close> (\<^verbatim>\<open>src/kernel/interrupt/timer.c\<close>) and the system
  call's \<^verbatim>\<open>yield_thread\<close> (\<^verbatim>\<open>src/kernel/syscall/sys_call.c\<close>). A thread is the address of
  its \<^verbatim>\<open>struct thread\<close>; the list node \<^verbatim>\<open>elem\<close> is at offset 32 of it. The ready list has
  no sentinel: \<^verbatim>\<open>READY_LIST\<close> points at the node of the next thread to run, or, when no
  other thread is ready, at the node of the running thread itself.
\<close>

section \<open>Threads and scheduler state\<close>

definition ELEM_OFFSET :: u32 where [layout]: "ELEM_OFFSET = 32"

definition elem_of :: "u32 \<Rightarrow> u32" where
  "elem_of t = t + ELEM_OFFSET"

definition list_entry :: "u32 \<Rightarrow> u32" where
  "list_entry p = p - ELEM_OFFSET"

lemma list_entry_elem_of [simp]: "list_entry (elem_of t) = t"
  by (simp add: list_entry_def elem_of_def)

lemma elem_of_inj [simp]: "elem_of a = elem_of b \<longleftrightarrow> a = b"
  by (simp add: elem_of_def)

lemma inj_elem_of: "inj elem_of"
  by (rule injI) simp

record sched =
  heap :: list_heap
  READY_LIST :: u32
  READY_THREAD :: u32
  current_thread :: u32
  ticks :: u32

section \<open>timer\_handler and yield\_thread\<close>

definition timer_handler :: "sched \<Rightarrow> sched" where
  "timer_handler s =
     (let s = s\<lparr>ticks := ticks s + 1\<rparr> in
      if ticks s mod 20 = 0 \<and> READY_LIST s \<noteq> 0
      then let s = s\<lparr>heap := list_add_tail (heap s) (elem_of (current_thread s))
                       (lh_prev (heap s) (READY_LIST s))\<rparr>;
               s = s\<lparr>READY_THREAD := list_entry (READY_LIST s)\<rparr>;
               s = s\<lparr>READY_LIST := lh_next (heap s) (READY_LIST s)\<rparr>;
               s = s\<lparr>heap := list_del (heap s) (elem_of (READY_THREAD s))\<rparr>
           in s\<lparr>current_thread := READY_THREAD s\<rparr>
      else s)"

definition yield_thread :: "sched \<Rightarrow> sched" where
  "yield_thread s =
     (let s = s\<lparr>READY_THREAD := list_entry (READY_LIST s)\<rparr>;
          s = s\<lparr>READY_LIST := lh_next (heap s) (READY_LIST s)\<rparr>;
          s = s\<lparr>heap := list_del (heap s) (elem_of (READY_THREAD s))\<rparr>
      in s\<lparr>current_thread := READY_THREAD s\<rparr>)"

section \<open>The ready queue the globals stand for\<close>

text \<open>
  \<^verbatim>\<open>ready_queue s q\<close>: the ready list is the queue \<^verbatim>\<open>q\<close>. \<^verbatim>\<open>schedules s c q\<close>: thread
  \<^verbatim>\<open>c\<close> is running, off the list, and the threads \<^verbatim>\<open>q\<close> wait for the processor in this order.
\<close>

definition ready_queue :: "sched \<Rightarrow> u32 list \<Rightarrow> bool" where
  "ready_queue s q \<longleftrightarrow> q \<noteq> [] \<and> READY_LIST s = elem_of (hd q) \<and> ring (heap s) (map elem_of q)
     \<and> 0 \<notin> elem_of ` set q"

definition schedules :: "sched \<Rightarrow> u32 \<Rightarrow> u32 list \<Rightarrow> bool" where
  "schedules s c q \<longleftrightarrow> current_thread s = c \<and> c \<notin> set q \<and> elem_of c \<noteq> 0
     \<and> (if q = [] then ready_queue s [c] else ready_queue s q)"

lemma schedules_distinct: "schedules s c q \<Longrightarrow> distinct (c # q)"
  by (auto simp: schedules_def ready_queue_def ring_def distinct_map split: if_splits)

lemma schedules_ready_nonnull: "schedules s c q \<Longrightarrow> READY_LIST s \<noteq> 0"
  by (auto simp: schedules_def ready_queue_def image_iff split: if_splits)

text \<open>The state determines the queue.\<close>

lemma schedules_unique:
  assumes "schedules s c q" and "schedules s c q'"
  shows "q = q'"
proof (cases "q = [] \<or> q' = []")
  case True
  with assms show ?thesis
    by (cases q; cases q') (auto simp: schedules_def ready_queue_def)
next
  case False
  then obtain x xs y ys where q: "q = x # xs" "q' = y # ys"
    by (meson list.exhaust)
  with assms have "x = y" "ring (heap s) (elem_of x # map elem_of xs)" "ring (heap s) (elem_of y # map elem_of ys)"
    by (auto simp: schedules_def ready_queue_def)
  then have "map elem_of xs = map elem_of ys"
    using ring_unique by blast
  then show ?thesis
    using q \<open>x = y\<close> inj_map_eq_map [OF inj_elem_of] by simp
qed

text \<open>One turn of round robin on the queue, the running thread included.\<close>

definition next_thread :: "u32 \<Rightarrow> u32 list \<Rightarrow> u32" where
  "next_thread c q = hd (q @ [c])"

definition next_queue :: "u32 \<Rightarrow> u32 list \<Rightarrow> u32 list" where
  "next_queue c q = tl (q @ [c])"

lemma timer_handler_idle:
  "(ticks s + 1) mod 20 \<noteq> 0 \<Longrightarrow> timer_handler s = s\<lparr>ticks := ticks s + 1\<rparr>"
  by (simp add: timer_handler_def)

lemma schedules_ticks: "schedules (s\<lparr>ticks := t\<rparr>) c q \<longleftrightarrow> schedules s c q"
  by (simp add: schedules_def ready_queue_def)

lemma timer_handler_switch:
  assumes "(ticks s + 1) mod 20 = 0" and "READY_LIST s \<noteq> 0"
  defines "h \<equiv> list_add_tail (heap s) (elem_of (current_thread s)) (lh_prev (heap s) (READY_LIST s))"
  shows "timer_handler s = s\<lparr>ticks := ticks s + 1, READY_THREAD := list_entry (READY_LIST s),
    READY_LIST := lh_next h (READY_LIST s), heap := list_del h (READY_LIST s),
    current_thread := list_entry (READY_LIST s)\<rparr>"
  using assms by (simp add: timer_handler_def Let_def elem_of_def list_entry_def)

lemma timer_switch_schedules:
  assumes "schedules s c q" and "(ticks s + 1) mod 20 = 0"
  shows "schedules (timer_handler s) (next_thread c q) (next_queue c q)"
proof -
  have nn: "READY_LIST s \<noteq> 0" and cur: "current_thread s = c" and c: "elem_of c \<noteq> 0"
    using assms(1) schedules_ready_nonnull by (auto simp: schedules_def)
  note sw = timer_handler_switch [OF assms(2) nn, unfolded cur]
  show ?thesis
  proof (cases q)
    case Nil
    with assms(1) have r: "READY_LIST s = elem_of c" "ring (heap s) [elem_of c]"
      by (auto simp: schedules_def ready_queue_def)
    then have p: "lh_prev (heap s) (elem_of c) = elem_of c"
      by (simp add: ring_singleton)
    have "lh_next (list_add_tail (heap s) (elem_of c) (elem_of c)) (elem_of c) = elem_of c"
      by (simp add: code_defs)
    then show ?thesis
      using c Nil by (simp add: sw r p schedules_def ready_queue_def ring_list_del_self
          next_thread_def next_queue_def)
  next
    case (Cons r rs)
    let ?h = "list_add_tail (heap s) (elem_of c) (lh_prev (heap s) (elem_of r))"
    have ring: "ring (heap s) (elem_of r # map elem_of rs)" and rl: "READY_LIST s = elem_of r"
      and fresh: "elem_of c \<notin> set (elem_of r # map elem_of rs)"
      and nz: "0 \<notin> elem_of ` set (r # rs)"
      using assms(1) Cons by (auto simp: schedules_def ready_queue_def)
    have added: "ring ?h (elem_of r # map elem_of (rs @ [c]))"
      using lh.enqueue_ring [OF ring fresh] by simp
    then have "lh_next ?h (elem_of r) = elem_of (hd (rs @ [c]))"
      using ring_next by (cases rs) fastforce+
    moreover have "ring (list_del ?h (elem_of r)) (map elem_of (rs @ [c]))"
      using ring_list_del [OF added] by simp
    moreover have "r \<notin> set (rs @ [c])"
      using schedules_distinct [OF assms(1)] Cons by auto
    ultimately show ?thesis
      using nz c Cons by (auto simp: sw rl schedules_def ready_queue_def next_thread_def
          next_queue_def)
  qed
qed

lemma timer_frame:
  assumes "schedules s c q" and "ring (heap s) ys" and "set ys \<inter> elem_of ` set (c # q) = {}"
  shows "ring (heap (timer_handler s)) ys"
proof (cases "(ticks s + 1) mod 20 = 0")
  case False
  then show ?thesis using assms(2) by (simp add: timer_handler_idle)
next
  case True
  have nn: "READY_LIST s \<noteq> 0" and cur: "current_thread s = c"
    using assms(1) schedules_ready_nonnull by (auto simp: schedules_def)
  let ?h = "list_add_tail (heap s) (elem_of c) (lh_prev (heap s) (READY_LIST s))"
  have heap: "heap (timer_handler s) = list_del ?h (READY_LIST s)"
    by (simp add: timer_handler_switch [OF True nn] cur)
  show ?thesis
  proof (cases q)
    case Nil
    with assms(1) have r: "READY_LIST s = elem_of c" "ring (heap s) [elem_of c]"
      by (auto simp: schedules_def ready_queue_def)
    then have "lh_prev (heap s) (elem_of c) = elem_of c" "lh_next (heap s) (elem_of c) = elem_of c"
      by (simp_all add: ring_singleton)
    with r assms(2,3) show ?thesis
      unfolding heap by (intro ring_frame [OF assms(2)]) (auto simp: code_defs)
  next
    case (Cons r rs)
    have ring: "ring (heap s) (elem_of r # map elem_of rs)" and rl: "READY_LIST s = elem_of r"
      and fresh: "elem_of c \<notin> set (elem_of r # map elem_of rs)"
      using assms(1) Cons by (auto simp: schedules_def ready_queue_def)
    have "ring ?h ys"
      using lh.enqueue_frame [OF ring assms(2), of "elem_of c"] assms(3) Cons rl by auto
    moreover have "ring ?h (elem_of r # map elem_of rs @ [elem_of c])"
      using lh.enqueue_ring [OF ring fresh] rl by simp
    ultimately show ?thesis
      unfolding heap rl by (intro list_del_frame) (use assms(3) Cons rl in auto)
  qed
qed

lemma yield_switch:
  assumes "ready_queue s (t # ts)"
  shows "schedules (yield_thread s) t ts"
proof -
  have r: "READY_LIST s = elem_of t" "ring (heap s) (elem_of t # map elem_of ts)"
    "0 \<notin> elem_of ` set (t # ts)"
    using assms by (auto simp: ready_queue_def)
  have "t \<notin> set ts"
    using ring_distinct [OF r(2)] by auto
  moreover have "lh_next (heap s) (elem_of t) = elem_of (hd (ts @ [t]))"
    using ring_next [OF r(2)] by (cases ts) auto
  moreover have "ts \<noteq> [] \<Longrightarrow> ring (list_del (heap s) (elem_of t)) (map elem_of ts)"
    using ring_list_del [OF r(2)] by simp
  ultimately show ?thesis
    using r by (auto simp: yield_thread_def Let_def schedules_def ready_queue_def
        ring_list_del_self)
qed

lemma yield_frame:
  assumes "ready_queue s (t # ts)" and "ring (heap s) ys" and "set ys \<inter> elem_of ` set (t # ts) = {}"
  shows "ring (heap (yield_thread s)) ys"
proof -
  have r: "READY_LIST s = elem_of t" "ring (heap s) (elem_of t # map elem_of ts)"
    using assms by (auto simp: ready_queue_def)
  show ?thesis
    using list_del_frame [OF r(2) assms(2)] assms(3) r(1)
    by (auto simp: yield_thread_def Let_def)
qed

section \<open>Whole time slices\<close>

text \<open>The runnable threads as one cycle, the running thread last.\<close>

definition cycles :: "sched \<Rightarrow> u32 list \<Rightarrow> bool" where
  "cycles s w \<longleftrightarrow> w \<noteq> [] \<and> schedules s (last w) (butlast w)"

lemma cycles_snoc: "cycles s (q @ [c]) \<longleftrightarrow> schedules s c q"
  by (simp add: cycles_def)

lemma cycles_switch:
  assumes "cycles s w" and "(ticks s + 1) mod 20 = 0"
  shows "cycles (timer_handler s) (rotate1 w)"
proof -
  obtain q c where w: "w = q @ [c]"
    using assms(1) by (cases w rule: rev_cases) (auto simp: cycles_def)
  have "schedules (timer_handler s) (next_thread c q) (next_queue c q)"
    using assms w timer_switch_schedules by (simp add: cycles_snoc)
  moreover have "rotate1 w = next_queue c q @ [next_thread c q]"
    unfolding w next_queue_def next_thread_def by (cases q) simp_all
  ultimately show ?thesis
    by (simp add: cycles_snoc)
qed

lemma word_mod_20:
  "unat t + 1 < 4294967296 \<Longrightarrow> ((t :: u32) + 1) mod 20 = 0 \<longleftrightarrow> (unat t + 1) mod 20 = 0"
  using unat_add_no_wrap [of t 1] by (simp add: unat_eq_0 [symmetric] unat_mod)

lemma timer_idle_steps:
  assumes "unat (ticks s) mod 20 = 0" and "n < 20" and "unat (ticks s) + n < 4294967296"
  shows "(timer_handler ^^ n) s = s\<lparr>ticks := ticks s + of_nat n\<rparr>"
  using assms(2,3)
proof (induction n)
  case 0
  then show ?case by simp
next
  case (Suc n)
  have u: "unat (ticks s + of_nat n) = unat (ticks s) + n"
    using Suc.prems(2) by (intro unat_add_no_wrap) simp
  have "(unat (ticks s) + n + 1) mod 20 \<noteq> 0"
    using assms(1) Suc.prems(1) by presburger
  then have "(ticks s + of_nat n + 1) mod 20 \<noteq> 0"
    using word_mod_20 [of "ticks s + of_nat n"] u Suc.prems(2) by simp
  then show ?case
    using Suc by (simp add: timer_handler_idle algebra_simps)
qed

lemma cycles_slice:
  assumes "cycles s w" and "unat (ticks s) mod 20 = 0" and "unat (ticks s) + 20 < 4294967296"
  shows "cycles ((timer_handler ^^ 20) s) (rotate1 w) \<and> unat (ticks ((timer_handler ^^ 20) s)) = unat (ticks s) + 20"
proof -
  let ?s = "s\<lparr>ticks := ticks s + of_nat 19\<rparr>"
  have run: "(timer_handler ^^ 20) s = timer_handler ?s"
  proof -
    have "(timer_handler ^^ Suc 19) s = timer_handler ((timer_handler ^^ 19) s)"
      by (simp only: funpow.simps o_apply)
    moreover have "(timer_handler ^^ 19) s = ?s"
      using assms(3) by (intro timer_idle_steps [OF assms(2)]) simp_all
    ultimately show ?thesis by simp
  qed
  have u: "unat (ticks s + of_nat 19) = unat (ticks s) + 19"
    using assms(3) by (intro unat_add_no_wrap) simp
  have "(unat (ticks s) + 19 + 1) mod 20 = 0"
    using assms(2) by presburger
  then have z: "(ticks ?s + 1) mod 20 = 0"
    using word_mod_20 [of "ticks s + of_nat 19"] u assms(3) by simp
  have cyc: "cycles ?s w"
    using assms(1) by (simp add: cycles_def schedules_ticks)
  then have "READY_LIST ?s \<noteq> 0"
    using schedules_ready_nonnull unfolding cycles_def by blast
  then have "ticks (timer_handler ?s) = ticks s + of_nat 20"
    using timer_handler_switch [OF z] by simp
  with cyc show ?thesis
    unfolding run using cycles_switch [OF _ z] assms(3) unat_add_no_wrap [of "ticks s" 20] by simp
qed

lemma cycles_slices:
  assumes "cycles s w" and "unat (ticks s) mod 20 = 0" and "unat (ticks s) + 20 * m < 4294967296"
  shows "cycles ((timer_handler ^^ (20 * m)) s) (rotate m w)
    \<and> unat (ticks ((timer_handler ^^ (20 * m)) s)) = unat (ticks s) + 20 * m"
  using assms(3)
proof (induction m)
  case 0
  with assms(1) show ?case by simp
next
  case (Suc m)
  have "(timer_handler ^^ (20 * Suc m)) s = (timer_handler ^^ 20) ((timer_handler ^^ (20 * m)) s)"
    by (simp add: funpow_add)
  with Suc cycles_slice [of "(timer_handler ^^ (20 * m)) s" "rotate m w"] assms(2) show ?case
    by simp
qed

section \<open>Properties\<close>

text \<open>
  C1. \<^verbatim>\<open>timer_handler\<close> refines round robin on the abstract queue: on every twentieth tick
  the running thread goes to the back of the ready queue and its head runs, on the other ticks
  nothing but the counter changes; the ring of any threads waiting elsewhere stays as it is.
\<close>

theorem timer_handler_round_robin:
  assumes "schedules s c q" and "ring (heap s) ys" and "set ys \<inter> elem_of ` set (c # q) = {}"
  shows "(if (ticks s + 1) mod 20 = 0
      then schedules (timer_handler s) (hd (q @ [c])) (tl (q @ [c]))
      else timer_handler s = s\<lparr>ticks := ticks s + 1\<rparr> \<and> schedules (timer_handler s) c q)
    \<and> ring (heap (timer_handler s)) ys"
  using timer_switch_schedules [OF assms(1)] timer_frame [OF assms] assms(1)
    timer_handler_idle [of s] schedules_ticks
  by (auto simp: next_thread_def next_queue_def)

text \<open>
  C2. No ready thread starves: from a slice boundary, the thread at position \<^verbatim>\<open>k\<close> of the
  ready queue (the running thread counting as the last) is running after \<^verbatim>\<open>20 (k + 1)\<close> timer
  interrupts, as long as the tick counter does not wrap.
\<close>

theorem timer_no_starvation:
  assumes "schedules s c q" and "unat (ticks s) mod 20 = 0" and "k \<le> length q"
    and "unat (ticks s) + 20 * (k + 1) < 4294967296"
  shows "current_thread ((timer_handler ^^ (20 * (k + 1))) s) = (q @ [c]) ! k"
proof -
  let ?w = "q @ [c]"
  have "cycles ((timer_handler ^^ (20 * (k + 1))) s) (rotate (k + 1) ?w)"
    using cycles_slices [of s ?w "k + 1"] assms by (simp add: cycles_snoc)
  then have "current_thread ((timer_handler ^^ (20 * (k + 1))) s) = last (rotate (k + 1) ?w)"
    by (simp add: cycles_def schedules_def)
  also have "\<dots> = rotate (k + 1) ?w ! length q"
    using last_conv_nth [of "rotate (k + 1) ?w"] by simp
  also have "\<dots> = ?w ! ((k + 1 + length q) mod length ?w)"
    by (rule nth_rotate) simp
  also have "(k + 1 + length q) mod length ?w = k"
  proof -
    have "k + 1 + length q = k + length ?w" by simp
    then show ?thesis using assms(3) by (simp only: mod_add_self2) simp
  qed
  finally show ?thesis .
qed

text \<open>Two threads, one running at the end of a time slice, the other ready.\<close>

definition two_threads :: sched where
  "two_threads = \<lparr>heap = \<lparr>lh_next = (\<lambda>x. x), lh_prev = (\<lambda>x. x)\<rparr>,
     READY_LIST = elem_of 0x507000, READY_THREAD = 0x503000, current_thread = 0x503000, ticks = 40\<rparr>"

lemma two_threads_schedules: "schedules two_threads 0x503000 [0x507000]"
  by (simp add: two_threads_def schedules_def ready_queue_def ring_singleton elem_of_def layout)

theorem timer_handler_round_robin_witness:
  "schedules (timer_handler (two_threads\<lparr>ticks := 59\<rparr>)) 0x507000 [0x503000]"
proof -
  have s: "schedules (two_threads\<lparr>ticks := 59\<rparr>) 0x503000 [0x507000]"
    by (simp add: schedules_ticks two_threads_schedules)
  have r: "ring (heap (two_threads\<lparr>ticks := 59\<rparr>)) [0x9000]"
    by (simp add: two_threads_def ring_singleton)
  have d: "set [0x9000] \<inter> elem_of ` set [0x503000, 0x507000] = {}"
    by (simp add: elem_of_def layout)
  show ?thesis
    using timer_handler_round_robin [OF s r d] by simp
qed

theorem timer_no_starvation_witness:
  "current_thread ((timer_handler ^^ 20) two_threads) = 0x507000"
proof -
  have "unat (ticks two_threads) mod 20 = 0" "unat (ticks two_threads) + 20 * (0 + 1) < 4294967296"
    by (simp_all add: two_threads_def)
  then show ?thesis
    using timer_no_starvation [OF two_threads_schedules, of 0] by simp
qed

end
