(* ===== verification/Sync.thy ===== *)
theory Sync
  imports Sched
begin

text \<open>
  Locks and semaphores, \<^verbatim>\<open>src/kernel/sync/sync.c\<close> and \<^verbatim>\<open>sync.h\<close>. Both structures hold a
  signed counter at offset 0 and the head of a wait list at offset 4. The blocking loop of an
  acquire spans several dispatches of the calling thread, so the model has each piece of it as
  a function; the step relations of \<^verbatim>\<open>LockSteps\<close> and \<^verbatim>\<open>BlockSteps\<close> interleave the pieces of
  all threads with the timer interrupt.
\<close>

section \<open>State\<close>

record sync =
  sch :: sched
  counter :: "u32 \<Rightarrow> u32"
  IF :: bool

definition wait_list :: "u32 \<Rightarrow> u32" where
  "wait_list l = l + 4"

definition wake_ring :: "sync \<Rightarrow> u32 \<Rightarrow> u32 list \<Rightarrow> bool" where
  "wake_ring s l ws \<longleftrightarrow> ring (heap (sch s)) (wait_list l # map elem_of ws)"

abbreviation set_heap :: "sync \<Rightarrow> list_heap \<Rightarrow> sync" where
  "set_heap s h \<equiv> s\<lparr>sch := (sch s)\<lparr>heap := h\<rparr>\<rparr>"

section \<open>Locks\<close>

definition get_lock :: "sync \<Rightarrow> u32 \<Rightarrow> sync" where
  "get_lock s l =
     (let s = s\<lparr>counter := (counter s)(l := 0)\<rparr> in
      set_heap s (INIT_LIST_HEAD (heap (sch s)) (wait_list l)))"

definition lock_busy :: "sync \<Rightarrow> u32 \<Rightarrow> bool" where
  "lock_busy s l \<longleftrightarrow> c_int (counter s l) < 0"

text \<open>The body of the loop before \<^verbatim>\<open>thread_yield\<close>: the list is changed with interrupts off.\<close>

definition lock_enqueue :: "sync \<Rightarrow> u32 \<Rightarrow> sync" where
  "lock_enqueue s l =
     (let s = s\<lparr>IF := False\<rparr>;
          s = set_heap s (list_add_tail (heap (sch s)) (elem_of (current_thread (sch s)))
                (lh_prev (heap (sch s)) (wait_list l)))
      in s\<lparr>IF := True\<rparr>)"

text \<open>
  \<^verbatim>\<open>thread_yield\<close> enters the kernel, which picks the next thread and re-enables interrupts
  (the \<^verbatim>\<open>sti\<close> of \<^verbatim>\<open>yield\<close>); the saved registers are not part of this state.
\<close>

definition thread_yield :: "sync \<Rightarrow> sync" where
  "thread_yield s = s\<lparr>sch := yield_thread (sch s), IF := True\<rparr>"

definition lock_take :: "sync \<Rightarrow> u32 \<Rightarrow> sync" where
  "lock_take s l = s\<lparr>counter := (counter s)(l := counter s l - 1)\<rparr>"

text \<open>One pass of \<^verbatim>\<open>lock_acquire\<close> by the running thread: it blocks or takes the lock.\<close>

definition lock_acquire :: "sync \<Rightarrow> u32 \<Rightarrow> sync" where
  "lock_acquire s l =
     (if lock_busy s l then thread_yield (lock_enqueue s l) else lock_take s l)"

definition release_count :: "sync \<Rightarrow> u32 \<Rightarrow> sync" where
  "release_count s l = s\<lparr>counter := (counter s)(l := counter s l + 1)\<rparr>"

definition release_wake :: "sync \<Rightarrow> u32 \<Rightarrow> sync" where
  "release_wake s l =
     (let tmp = lh_next (heap (sch s)) (wait_list l);
          s = set_heap s (list_del (heap (sch s)) tmp)
      in set_heap s (list_add_tail (heap (sch s)) tmp
           (lh_prev (heap (sch s)) (READY_LIST (sch s)))))"

definition lock_realse :: "sync \<Rightarrow> u32 \<Rightarrow> sync" where
  "lock_realse s l =
     (let s = release_count s l in
      if 0 \<le> c_int (counter s l) then release_wake s l else s)"

section \<open>Semaphores\<close>

definition get_sema :: "sync \<Rightarrow> u32 \<Rightarrow> u32 \<Rightarrow> sync" where
  "get_sema s l v =
     (let s = s\<lparr>counter := (counter s)(l := v)\<rparr> in
      set_heap s (INIT_LIST_HEAD (heap (sch s)) (wait_list l)))"

text \<open>
  Unlike a lock, the loop body leaves interrupts off until the yield turns them on. This state ends
  there; that the return from the system call restores the flag is in \<^verbatim>\<open>BlockSteps\<close>.
\<close>

definition sema_acquire :: "sync \<Rightarrow> u32 \<Rightarrow> sync" where
  "sema_acquire s l =
     (if c_int (counter s l) < 0
      then let s = s\<lparr>IF := False\<rparr>;
               s = set_heap s (list_add_tail (heap (sch s)) (elem_of (current_thread (sch s)))
                     (lh_prev (heap (sch s)) (wait_list l)))
           in thread_yield s
      else s\<lparr>counter := (counter s)(l := counter s l - 1)\<rparr>)"

definition sema_realse :: "sync \<Rightarrow> u32 \<Rightarrow> sync" where
  "sema_realse s l =
     (let s = s\<lparr>counter := (counter s)(l := counter s l + 1)\<rparr> in
      if 0 \<le> c_int (counter s l)
      then let tmp = lh_next (heap (sch s)) (wait_list l);
               s = set_heap s (list_del (heap (sch s)) tmp)
           in set_heap s (list_add_tail (heap (sch s)) tmp
                (lh_prev (heap (sch s)) (READY_LIST (sch s))))
      else s)"

text \<open>A semaphore operation is the lock operation on the same counter and wait list.\<close>

lemma sema_acquire_eq: "sema_acquire s l = lock_acquire s l"
  by (simp add: sema_acquire_def lock_acquire_def lock_busy_def lock_take_def lock_enqueue_def
      thread_yield_def Let_def)

lemma sema_realse_eq: "sema_realse s l = lock_realse s l"
  by (simp add: sema_realse_def lock_realse_def release_count_def release_wake_def Let_def)

section \<open>Blocking and waking, on the queues\<close>

lemma elem_of_list_entry [simp]: "elem_of (list_entry p) = p"
  by (simp add: list_entry_def elem_of_def)

lemma lock_acquire_free:
  "\<not> lock_busy s l \<Longrightarrow> lock_acquire s l = lock_take s l"
  by (simp add: lock_acquire_def)

lemma lock_enqueue_rings:
  assumes "schedules (sch s) c q" and "q \<noteq> []" and "wake_ring s l ws"
    and "wait_list l \<notin> elem_of ` set (c # q)" and "set ws \<inter> set (c # q) = {}"
  shows "schedules (sch (lock_enqueue s l)) c q" and "wake_ring (lock_enqueue s l) l (ws @ [c])"
proof -
  let ?h = "list_add_tail (heap (sch s)) (elem_of c) (lh_prev (heap (sch s)) (wait_list l))"
  have cur: "current_thread (sch s) = c" "c \<notin> set q" "elem_of c \<noteq> 0"
    and ready: "ring (heap (sch s)) (map elem_of q)" "READY_LIST (sch s) = elem_of (hd q)" "0 \<notin> elem_of ` set q"
    using assms(1,2) by (auto simp: schedules_def ready_queue_def)
  have wait: "ring (heap (sch s)) (wait_list l # map elem_of ws)"
    using assms(3) by (simp add: wake_ring_def)
  have "elem_of c \<notin> set (wait_list l # map elem_of ws)"
    using assms(4,5) by auto
  from lh.enqueue_ring [OF wait this] show "wake_ring (lock_enqueue s l) l (ws @ [c])"
    by (simp add: wake_ring_def lock_enqueue_def cur Let_def)
  have "set (map elem_of q) \<inter> set (elem_of c # wait_list l # map elem_of ws) = {}"
    using assms(4,5) cur(2) by auto
  from lh.enqueue_frame [OF wait ready(1) this] show "schedules (sch (lock_enqueue s l)) c q"
    using assms(2) cur ready by (simp add: schedules_def ready_queue_def lock_enqueue_def Let_def)
qed

lemma lock_acquire_blocks:
  assumes "schedules (sch s) c (t # ts)" and "wake_ring s l ws" and "lock_busy s l"
    and "wait_list l \<notin> elem_of ` set (c # t # ts)" and "set ws \<inter> set (c # t # ts) = {}"
  shows "schedules (sch (lock_acquire s l)) t ts \<and> wake_ring (lock_acquire s l) l (ws @ [c])
    \<and> counter (lock_acquire s l) = counter s"
proof -
  let ?h = "list_add_tail (heap (sch s)) (elem_of c) (lh_prev (heap (sch s)) (wait_list l))"
  let ?s = "(sch s)\<lparr>heap := ?h\<rparr>"
  have rq: "ready_queue (sch s) (t # ts)" and cur: "current_thread (sch s) = c"
    and c: "c \<notin> set (t # ts)"
    using assms(1) by (auto simp: schedules_def)
  then have ready: "ring (heap (sch s)) (map elem_of (t # ts))"
    by (simp add: ready_queue_def)
  have wait: "ring (heap (sch s)) (wait_list l # map elem_of ws)"
    using assms(2) by (simp add: wake_ring_def)
  have fresh: "elem_of c \<notin> set (wait_list l # map elem_of ws)"
    using assms(4,5) by auto
  have wait': "ring ?h (wait_list l # map elem_of (ws @ [c]))"
    using lh.enqueue_ring [OF wait fresh] by simp
  have "set (map elem_of (t # ts)) \<inter> set (elem_of c # wait_list l # map elem_of ws) = {}"
    using assms(4,5) c by auto
  then have "ring ?h (map elem_of (t # ts))"
    by (rule lh.enqueue_frame [OF wait ready])
  then have rq': "ready_queue ?s (t # ts)"
    using rq by (simp add: ready_queue_def)
  have "set (wait_list l # map elem_of (ws @ [c])) \<inter> elem_of ` set (t # ts) = {}"
    using assms(4,5) c by auto
  then have "ring (heap (yield_thread ?s)) (wait_list l # map elem_of (ws @ [c]))"
    using wait' by (intro yield_frame [OF rq']) simp_all
  moreover have "sch (lock_acquire s l) = yield_thread ?s"
    using assms(3) cur by (simp add: lock_acquire_def lock_enqueue_def thread_yield_def Let_def)
  ultimately show ?thesis
    using yield_switch [OF rq'] assms(3)
    by (simp add: wake_ring_def lock_acquire_def lock_enqueue_def thread_yield_def Let_def)
qed

lemma lock_realse_no_wake:
  "c_int (counter s l + 1) < 0 \<Longrightarrow> lock_realse s l = release_count s l"
  by (simp add: lock_realse_def release_count_def Let_def)

text \<open>The heap after a release that wakes the node \<^verbatim>\<open>n\<close> behind the wait list's head.\<close>

lemma lock_realse_wakes_node:
  assumes "0 \<le> c_int (counter s l + 1)" and "lh_next (heap (sch s)) (wait_list l) = n"
  defines "h \<equiv> list_del (heap (sch s)) n"
  shows "lock_realse s l = set_heap (release_count s l)
    (list_add_tail h n (lh_prev h (READY_LIST (sch s))))"
  using assms by (simp add: lock_realse_def release_count_def release_wake_def Let_def)

lemma lock_realse_wakes:
  assumes "schedules (sch s) c (t # ts)" and "wake_ring s l (w # ws)"
    and "0 \<le> c_int (counter s l + 1)"
    and "wait_list l \<notin> elem_of ` set (c # t # ts)" and "set (w # ws) \<inter> set (c # t # ts) = {}"
    and "elem_of w \<noteq> 0"
  shows "schedules (sch (lock_realse s l)) c (t # ts @ [w]) \<and> wake_ring (lock_realse s l) l ws"
proof -
  let ?h = "list_del (heap (sch s)) (elem_of w)"
  have rq: "ready_queue (sch s) (t # ts)" and cur: "current_thread (sch s) = c" "c \<notin> set (t # ts)"
      "elem_of c \<noteq> 0"
    using assms(1) by (auto simp: schedules_def)
  then have ready: "ring (heap (sch s)) (elem_of t # map elem_of ts)" and rl: "READY_LIST (sch s) = elem_of t"
    by (simp_all add: ready_queue_def)
  have wait: "ring (heap (sch s)) (wait_list l # elem_of w # map elem_of ws)"
    using assms(2) by (simp add: wake_ring_def)
  have "set (wait_list l # elem_of w # map elem_of ws) \<inter> set (elem_of t # map elem_of ts) = {}"
    using assms(4,5) by auto
  note moved = lh.transfer_rings [OF wait ready this]
  have "lh_next (heap (sch s)) (wait_list l) = elem_of w"
    using ring_next [OF wait] by simp
  note node = lock_realse_wakes_node [OF assms(3) this, unfolded rl]
  have "ready_queue (sch (lock_realse s l)) (t # ts @ [w])"
    using moved(2) rq assms(6) by (auto simp: node ready_queue_def release_count_def)
  moreover have "c \<notin> set (t # ts @ [w])"
    using cur(2) assms(5) by auto
  ultimately show ?thesis
    using moved(1) cur by (simp add: node schedules_def wake_ring_def release_count_def)
qed

text \<open>A release on an empty wait list, and the two ways an empty ready queue goes wrong.\<close>

lemma lock_realse_uncontended:
  assumes "schedules (sch s) c (t # ts)" and "wake_ring s l []"
    and "0 \<le> c_int (counter s l + 1)"
    and "wait_list l \<notin> elem_of ` set (c # t # ts)" and "wait_list l \<noteq> 0"
  shows "schedules (sch (lock_realse s l)) c (t # ts @ [list_entry (wait_list l)])"
proof -
  let ?h = "list_del (heap (sch s)) (wait_list l)"
  have rq: "ready_queue (sch s) (t # ts)" and cur: "current_thread (sch s) = c" "c \<notin> set (t # ts)"
      "elem_of c \<noteq> 0"
    using assms(1) by (auto simp: schedules_def)
  then have ready: "ring (heap (sch s)) (elem_of t # map elem_of ts)" and rl: "READY_LIST (sch s) = elem_of t"
    by (simp_all add: ready_queue_def)
  have wait: "ring (heap (sch s)) [wait_list l]"
    using assms(2) by (simp add: wake_ring_def)
  then have "lh_next (heap (sch s)) (wait_list l) = wait_list l"
    by (simp add: ring_singleton)
  note node = lock_realse_wakes_node [OF assms(3) this, unfolded rl]
  have ready': "ring ?h (elem_of t # map elem_of ts)"
    using assms(4) by (intro list_del_frame [OF wait ready]) auto
  have "ring (list_add_tail ?h (wait_list l) (lh_prev ?h (elem_of t)))
      (elem_of t # map elem_of ts @ [wait_list l])"
    using assms(4) by (intro lh.enqueue_ring [OF ready']) auto
  then have "ready_queue (sch (lock_realse s l)) (t # ts @ [list_entry (wait_list l)])"
    using rq assms(5) by (auto simp: node ready_queue_def release_count_def)
  moreover have "c \<noteq> list_entry (wait_list l)"
    using assms(4) by auto
  ultimately show ?thesis
    using cur by (simp add: node schedules_def release_count_def)
qed

lemma lock_acquire_alone:
  assumes "schedules (sch s) c []" and "wake_ring s l ws" and "lock_busy s l"
    and "wait_list l \<noteq> elem_of c" and "c \<notin> set ws"
    and "0 \<notin> set (wait_list l # map elem_of ws)"
  shows "schedules (sch (lock_acquire s l)) c (list_entry (wait_list l) # ws)"
proof -
  let ?h = "list_add_tail (heap (sch s)) (elem_of c) (lh_prev (heap (sch s)) (wait_list l))"
  have cur: "current_thread (sch s) = c" "READY_LIST (sch s) = elem_of c" "elem_of c \<noteq> 0"
    using assms(1) by (auto simp: schedules_def ready_queue_def)
  have "ring (heap (sch s)) (wait_list l # map elem_of ws)"
    using assms(2) by (simp add: wake_ring_def)
  from lh.enqueue_ring [OF this, of "elem_of c"] assms(4,5)
  have "ring ?h ((wait_list l # map elem_of ws) @ [elem_of c])"
    by (auto simp: image_iff)
  then have r: "ring ?h (elem_of c # wait_list l # map elem_of ws)"
    by (simp only: ring_rotate1 [symmetric])
  have "lh_next ?h (elem_of c) = wait_list l"
    using ring_next [OF r] by simp
  moreover have "ring (list_del ?h (elem_of c)) (wait_list l # map elem_of ws)"
    by (rule ring_list_del [OF r]) simp
  moreover have "c \<notin> set (list_entry (wait_list l) # ws)"
    using assms(4,5) by auto
  moreover have "sch (lock_acquire s l) = yield_thread ((sch s)\<lparr>heap := ?h\<rparr>)"
    using assms(3) cur by (simp add: lock_acquire_def lock_enqueue_def thread_yield_def Let_def)
  ultimately show ?thesis
    using cur assms(6) by (auto simp: yield_thread_def Let_def schedules_def ready_queue_def)
qed

text \<open>With no other thread ready, a woken thread is linked behind the running one.\<close>

lemma lock_realse_alone:
  assumes "schedules (sch s) c []" and "wake_ring s l [w]" and "0 \<le> c_int (counter s l + 1)"
    and "wait_list l \<noteq> elem_of c" and "c \<noteq> w"
  shows "current_thread (sch (lock_realse s l)) = c \<and> READY_LIST (sch (lock_realse s l)) = elem_of c
    \<and> ring (heap (sch (lock_realse s l))) [elem_of c, elem_of w] \<and> wake_ring (lock_realse s l) l []"
proof -
  have cur: "current_thread (sch s) = c" "READY_LIST (sch s) = elem_of c"
    and ready: "ring (heap (sch s)) [elem_of c]"
    using assms(1) by (auto simp: schedules_def ready_queue_def)
  have wait: "ring (heap (sch s)) [wait_list l, elem_of w]"
    using assms(2) by (simp add: wake_ring_def)
  have "set [wait_list l, elem_of w] \<inter> set [elem_of c] = {}"
    using assms(4,5) by auto
  note moved = lh.transfer_rings [OF wait ready this]
  have "lh_next (heap (sch s)) (wait_list l) = elem_of w"
    using ring_next [OF wait] by simp
  note node = lock_realse_wakes_node [OF assms(3) this, unfolded cur(2)]
  show ?thesis
    using moved cur by (simp add: node wake_ring_def release_count_def)
qed

text \<open>The switch the timer then makes drops that thread.\<close>

lemma timer_drops_second:
  assumes "current_thread s = c" and "READY_LIST s = elem_of c" and "elem_of c \<noteq> 0"
    and "ring (heap s) [elem_of c, w]" and "(ticks s + 1) mod 20 = 0"
  shows "schedules (timer_handler s) c []"
proof -
  have nn: "READY_LIST s \<noteq> 0" using assms by simp
  have "lh_prev (heap s) (elem_of c) = w" "lh_next (heap s) w = elem_of c" "w \<noteq> elem_of c"
    using ring_prev [OF assms(4)] assms(4) by (auto simp: ring_def)
  then show ?thesis
    using assms by (simp add: timer_handler_switch [OF assms(5) nn] schedules_def ready_queue_def
        ring_singleton code_defs)
qed

lemma lost_waiter_forever:
  assumes "current_thread s = c" and "READY_LIST s = elem_of c" and "elem_of c \<noteq> 0"
    and "ring (heap s) [elem_of c, w]"
  shows "current_thread ((timer_handler ^^ n) s) = c"
proof -
  let ?I = "\<lambda>s. schedules s c [] \<or> (current_thread s = c \<and> READY_LIST s = elem_of c
    \<and> ring (heap s) [elem_of c, w])"
  have "?I (timer_handler s)" if "?I s" for s
  proof (cases "(ticks s + 1) mod 20 = 0")
    case True
    then show ?thesis
      using that timer_drops_second [of s c w] timer_switch_schedules [of s c "[]"] assms(3)
      by (auto simp: next_thread_def next_queue_def)
  next
    case False
    with that show ?thesis
      by (auto simp: timer_handler_idle schedules_ticks)
  qed
  then have "?I ((timer_handler ^^ n) s)"
    using assms by (induction n) auto
  then show ?thesis
    by (auto simp: schedules_def)
qed

text \<open>The counter of a semaphore after some acquisitions by a running thread.\<close>

lemma sema_acquire_counts:
  assumes "unat v < 2147483648" and "n \<le> unat v + 1"
  shows "c_int (counter (((\<lambda>s. sema_acquire s l) ^^ n) (get_sema s l v)) l) = int (unat v) - int n"
  using assms(2)
proof (induction n)
  case 0
  have "sint v = int (unat v)"
    using sint_of_nat_u32 [of "unat v"] assms(1) by simp
  then show ?case
    by (simp add: get_sema_def)
next
  case (Suc n)
  let ?s = "((\<lambda>s. sema_acquire s l) ^^ n) (get_sema s l v)"
  have now: "c_int (counter ?s l) = int (unat v) - int n"
    using Suc by simp
  have free: "\<not> lock_busy ?s l"
    unfolding lock_busy_def now using Suc.prems by linarith
  have "sint (counter ?s l - 1) = sint (counter ?s l) - 1"
  proof -
    have "int n < int (unat v) + 1" "int (unat v) < 2147483648"
      using Suc.prems assms(1) by linarith+
    then show ?thesis
      using now by (simp add: sint_word_ariths signed_take_bit_int_eq_self)
  qed
  then show ?case
    using now free by (simp add: sema_acquire_eq lock_acquire_free lock_take_def)
qed

section \<open>Properties\<close>

text \<open>
  C16. A thread that finds the lock taken waits in arrival order: it goes to the end of the
  wait list while the head of the ready queue runs, and the release that brings the counter
  back to zero moves the thread that has waited longest to the end of the ready queue.
\<close>

theorem lock_waiters_fifo:
  assumes "schedules (sch s) c (t # t' # ts)" and "wake_ring s l ws" and "counter s l = - 1"
    and "wait_list l \<notin> elem_of ` set (c # t # t' # ts @ ws)"
    and "set ws \<inter> set (c # t # t' # ts) = {}" and "0 \<notin> elem_of ` set ws"
  shows "let s1 = lock_acquire s l; s2 = lock_realse s1 l in
      schedules (sch s1) t (t' # ts) \<and> wake_ring s1 l (ws @ [c]) \<and> counter s1 = counter s
    \<and> schedules (sch s2) t (t' # ts @ [hd (ws @ [c])]) \<and> wake_ring s2 l (tl (ws @ [c]))
    \<and> \<not> lock_busy s2 l"
proof -
  let ?s1 = "lock_acquire s l"
  have "lock_busy s l"
    using assms(3) by (simp add: lock_busy_def)
  moreover have "wait_list l \<notin> elem_of ` set (c # t # t' # ts)"
    using assms(4) by auto
  ultimately have b: "schedules (sch ?s1) t (t' # ts)" "wake_ring ?s1 l (ws @ [c])"
      "counter ?s1 = counter s"
    using lock_acquire_blocks [OF assms(1,2)] assms(5) by auto
  have d: "distinct (c # t # t' # ts)" and c: "elem_of c \<noteq> 0"
    using schedules_distinct [OF assms(1)] assms(1) by (auto simp: schedules_def)
  let ?w = "hd (ws @ [c])" and ?r = "tl (ws @ [c])"
  have split: "?w # ?r = ws @ [c]" by simp
  then have mem: "set (?w # ?r) = insert c (set ws)" by simp
  have "elem_of ?w \<noteq> 0"
    using assms(6) c by (cases ws) auto
  moreover have "set (?w # ?r) \<inter> set (t # t' # ts) = {}"
    unfolding mem using assms(5) d by auto
  moreover have "wait_list l \<notin> elem_of ` set (t # t' # ts)"
    using assms(4) by auto
  moreover have "wake_ring ?s1 l (?w # ?r)" "0 \<le> c_int (counter ?s1 l + 1)"
    using b(2,3) assms(3) by (simp_all only: split) simp
  ultimately have "schedules (sch (lock_realse ?s1 l)) t (t' # ts @ [?w])
      \<and> wake_ring (lock_realse ?s1 l) l ?r"
    by (intro lock_realse_wakes [OF b(1)])
  moreover have "counter (lock_realse ?s1 l) l = 0"
    using b(3) assms(3) by (simp add: lock_realse_def release_count_def release_wake_def Let_def)
  ultimately show ?thesis
    using b by (simp add: lock_busy_def Let_def)
qed

text \<open>
  Releasing a lock nobody waits for corrupts the ready queue: a running thread that takes
  a free lock and releases it leaves the lock's own list head queued for the processor, as the
  thread structure that would have to start 28 bytes below the lock.
\<close>

lemma uncontended_release_queues_lock:
  assumes "schedules (sch s) c (t # ts)" and "wake_ring s l []" and "counter s l = 0"
    and "wait_list l \<notin> elem_of ` set (c # t # ts)" and "wait_list l \<noteq> 0"
  shows "counter (lock_realse (lock_acquire s l) l) = counter s
    \<and> schedules (sch (lock_realse (lock_acquire s l) l)) c (t # ts @ [l - 28])"
proof -
  have take: "lock_acquire s l = lock_take s l"
    using assms(3) by (intro lock_acquire_free) (simp add: lock_busy_def)
  have "schedules (sch (lock_realse (lock_take s l) l)) c (t # ts @ [list_entry (wait_list l)])"
    using assms by (intro lock_realse_uncontended) (simp_all add: lock_take_def wake_ring_def)
  moreover have "list_entry (wait_list l) = l - 28"
    by (simp add: list_entry_def wait_list_def layout)
  moreover have "counter (lock_realse (lock_take s l) l) = counter s"
    by (auto simp: lock_take_def lock_realse_def release_count_def release_wake_def Let_def)
  ultimately show ?thesis
    by (simp only: take)
qed

text \<open>
  C39. A wake-up sent while no other thread is ready is lost: the released thread leaves the
  wait list, but however many timer interrupts follow, the running thread keeps running.
\<close>

theorem release_with_idle_queue_loses_waiter:
  assumes "schedules (sch s) c []" and "wake_ring s l [w]" and "counter s l = - 1"
    and "wait_list l \<noteq> elem_of c" and "c \<noteq> w"
  shows "wake_ring (lock_realse s l) l []
    \<and> current_thread ((timer_handler ^^ n) (sch (lock_realse s l))) = c"
proof -
  have "0 \<le> c_int (counter s l + 1)"
    using assms(3) by simp
  note r = lock_realse_alone [OF assms(1,2) this assms(4,5)]
  moreover have "elem_of c \<noteq> 0"
    using assms(1) by (simp add: schedules_def)
  ultimately show ?thesis
    using lost_waiter_forever [of "sch (lock_realse s l)" c "elem_of w" n] by auto
qed

text \<open>
  Blocking when no other thread is ready makes the wait list the ready queue: the caller
  stays the running thread, the next thread to be dispatched is the lock's list head, and the
  threads that wait for the lock follow it.
\<close>

lemma acquire_with_idle_queue_schedules_wait_list:
  assumes "schedules (sch s) c []" and "wake_ring s l ws" and "lock_busy s l"
    and "wait_list l \<noteq> elem_of c" and "c \<notin> set ws"
    and "0 \<notin> set (wait_list l # map elem_of ws)"
  shows "schedules (sch (lock_acquire s l)) c ((l - 28) # ws)"
proof -
  have "list_entry (wait_list l) = l - 28"
    by (simp add: list_entry_def wait_list_def layout)
  with lock_acquire_alone [OF assms] show ?thesis
    by simp
qed

text \<open>
  A semaphore created with the count \<^verbatim>\<open>v\<close> lets \<^verbatim>\<open>v + 1\<close> acquisitions through before one
  blocks, so one created with 1 does not exclude a second thread.
\<close>

lemma get_sema_admits_one_more:
  assumes "unat v < 2147483648" and "n \<le> unat v + 1"
  shows "lock_busy (((\<lambda>s. sema_acquire s l) ^^ n) (get_sema s l v)) l \<longleftrightarrow> n = unat v + 1"
  unfolding lock_busy_def sema_acquire_counts [OF assms] using assms(2) by linarith

text \<open>Two threads ready besides the running one, and a lock at \<^verbatim>\<open>0x600000\<close>.\<close>

definition contended :: "u32 list \<Rightarrow> u32 \<Rightarrow> u32 list \<Rightarrow> u32 \<Rightarrow> sync" where
  "contended q c ws v =
     (let q' = map elem_of q; ws' = wait_list 0x600000 # map elem_of ws;
          go = \<lambda>f. \<lambda>x. if x \<in> set q' then f q' x else if x \<in> set ws' then f ws' x else x;
          nxt = \<lambda>xs x. the (map_of (zip xs (rotate1 xs)) x);
          prv = \<lambda>xs x. the (map_of (zip (rotate1 xs) xs) x)
      in \<lparr>sch = \<lparr>heap = \<lparr>lh_next = go nxt, lh_prev = go prv\<rparr>, READY_LIST = hd q',
            READY_THREAD = c, current_thread = c, ticks = 0\<rparr>,
          counter = (\<lambda>_. v), IF = True\<rparr>)"

lemmas contended_simps = contended_def schedules_def ready_queue_def wake_ring_def ring_def
  wait_list_def elem_of_def layout lock_busy_def Let_def

theorem lock_waiters_fifo_witness:
  "let s2 = lock_realse (lock_acquire (contended [0x503000, 0x507000] 0x501000 [] (- 1)) 0x600000) 0x600000
    in schedules (sch s2) 0x503000 [0x507000, 0x501000] \<and> wake_ring s2 0x600000 []"
proof -
  let ?s = "contended [0x503000, 0x507000] 0x501000 [] (- 1)"
  have "schedules (sch ?s) 0x501000 [0x503000, 0x507000]" "wake_ring ?s 0x600000 []"
      "counter ?s 0x600000 = - 1"
    by (simp_all add: contended_simps)
  from lock_waiters_fifo [OF this] show ?thesis
    by (simp add: Let_def wait_list_def elem_of_def layout)
qed

theorem release_with_idle_queue_loses_waiter_witness:
  "current_thread ((timer_handler ^^ 1000)
    (sch (lock_realse (contended [0x501000] 0x501000 [0x503000] (- 1)) 0x600000))) = 0x501000"
proof -
  let ?s = "contended [0x501000] 0x501000 [0x503000] (- 1)"
  have "schedules (sch ?s) 0x501000 []" "wake_ring ?s 0x600000 [0x503000]" "counter ?s 0x600000 = - 1"
    by (simp_all add: contended_simps)
  from release_with_idle_queue_loses_waiter [OF this, where n = 1000] show ?thesis
    by (simp add: wait_list_def elem_of_def layout)
qed

end
