(* ===== verification/LockSteps.thy ===== *)
theory LockSteps
  imports Sync
begin

text \<open>
  Threads that use one lock, interleaved. Each statement of \<^verbatim>\<open>lock_acquire\<close> and
  \<^verbatim>\<open>lock_realse\<close> (\<^verbatim>\<open>src/kernel/sync/sync.c\<close>) that touches shared state is one step of the
  running thread, and the timer interrupt of \<^verbatim>\<open>src/kernel/interrupt/timer.c\<close> may come
  between two steps. The relation takes the set of program points at which the timer can
  interrupt as a parameter: the code's own is every point (interrupts are on throughout, the
  \<^verbatim>\<open>cli\<close> of the enqueue apart), a smaller set says what masking interrupts would buy.
\<close>

section \<open>The step relation\<close>

text \<open>
  The points of the two functions, each before the statement it names; \<^verbatim>\<open>tmps\<close> is each
  thread's local variable \<^verbatim>\<open>tmp\<close> of \<^verbatim>\<open>lock_realse\<close>.
\<close>

datatype pc = Idle | Test | Enqueue | Yield | Dec | Crit | RelTest | RelNext | RelDel | RelAdd

record lsys =
  sy :: sync
  pcs :: "u32 \<Rightarrow> pc"
  tmps :: "u32 \<Rightarrow> u32"

definition running :: "lsys \<Rightarrow> u32" where
  "running s = current_thread (sch (sy s))"

definition goto :: "lsys \<Rightarrow> u32 \<Rightarrow> pc \<Rightarrow> lsys" where
  "goto s t p = s\<lparr>pcs := (pcs s)(t := p)\<rparr>"

definition timer_interrupt :: "sync \<Rightarrow> sync" where
  "timer_interrupt s = s\<lparr>sch := timer_handler (sch s)\<rparr>"

inductive lstep :: "pc set \<Rightarrow> u32 \<Rightarrow> lsys \<Rightarrow> lsys \<Rightarrow> bool" for P :: "pc set" and l :: u32 where
  l_call: "running s = t \<Longrightarrow> pcs s t = Idle \<Longrightarrow> lstep P l s (goto s t Test)"
| l_busy: "running s = t \<Longrightarrow> pcs s t = Test \<Longrightarrow> lock_busy (sy s) l \<Longrightarrow> lstep P l s (goto s t Enqueue)"
| l_free: "running s = t \<Longrightarrow> pcs s t = Test \<Longrightarrow> \<not> lock_busy (sy s) l \<Longrightarrow> lstep P l s (goto s t Dec)"
| l_enqueue: "running s = t \<Longrightarrow> pcs s t = Enqueue \<Longrightarrow>
    lstep P l s (goto (s\<lparr>sy := lock_enqueue (sy s) l\<rparr>) t Yield)"
| l_yield: "running s = t \<Longrightarrow> pcs s t = Yield \<Longrightarrow>
    lstep P l s (goto (s\<lparr>sy := thread_yield (sy s)\<rparr>) t Test)"
| l_take: "running s = t \<Longrightarrow> pcs s t = Dec \<Longrightarrow>
    lstep P l s (goto (s\<lparr>sy := lock_take (sy s) l\<rparr>) t Crit)"
| l_count: "running s = t \<Longrightarrow> pcs s t = Crit \<Longrightarrow>
    lstep P l s (goto (s\<lparr>sy := release_count (sy s) l\<rparr>) t RelTest)"
| l_no_wake: "running s = t \<Longrightarrow> pcs s t = RelTest \<Longrightarrow> lock_busy (sy s) l \<Longrightarrow>
    lstep P l s (goto s t Idle)"
| l_to_wake: "running s = t \<Longrightarrow> pcs s t = RelTest \<Longrightarrow> \<not> lock_busy (sy s) l \<Longrightarrow>
    lstep P l s (goto s t RelNext)"
| l_next: "running s = t \<Longrightarrow> pcs s t = RelNext \<Longrightarrow>
    lstep P l s (goto (s\<lparr>tmps := (tmps s)(t := lh_next (heap (sch (sy s))) (wait_list l))\<rparr>) t RelDel)"
| l_del: "running s = t \<Longrightarrow> pcs s t = RelDel \<Longrightarrow>
    lstep P l s (goto (s\<lparr>sy := set_heap (sy s) (list_del (heap (sch (sy s))) (tmps s t))\<rparr>) t RelAdd)"
| l_add: "running s = t \<Longrightarrow> pcs s t = RelAdd \<Longrightarrow>
    lstep P l s (goto (s\<lparr>sy := set_heap (sy s) (list_add_tail (heap (sch (sy s))) (tmps s t)
      (lh_prev (heap (sch (sy s))) (READY_LIST (sch (sy s)))))\<rparr>) t Idle)"
| l_timer: "running s = t \<Longrightarrow> pcs s t \<in> P \<Longrightarrow> IF (sy s) \<Longrightarrow>
    lstep P l s (s\<lparr>sy := timer_interrupt (sy s)\<rparr>)"

lemmas lock_steps = lock_enqueue_def thread_yield_def lock_take_def release_count_def
  release_wake_def timer_interrupt_def goto_def running_def Let_def

text \<open>A thread that is not interrupted executes the functions of the component below.\<close>

lemma lstep_acquire_free:
  assumes "running s = t" and "pcs s t = Test" and "\<not> lock_busy (sy s) l"
  shows "(lstep P l)\<^sup>*\<^sup>* s (goto (s\<lparr>sy := lock_acquire (sy s) l\<rparr>) t Crit)"
proof -
  have "lstep P l s (goto s t Dec)"
    using assms by (rule l_free)
  moreover have "lstep P l (goto s t Dec) (goto ((goto s t Dec)\<lparr>sy := lock_take (sy (goto s t Dec)) l\<rparr>) t Crit)"
    using assms(1) by (intro l_take) (simp_all add: goto_def running_def)
  ultimately show ?thesis
    using assms(3) by (simp add: goto_def lock_acquire_free)
qed

lemma lstep_acquire_busy:
  assumes "running s = t" and "pcs s t = Test" and "lock_busy (sy s) l"
  shows "(lstep P l)\<^sup>*\<^sup>* s (s\<lparr>sy := lock_acquire (sy s) l\<rparr>)"
proof -
  let ?e = "s\<lparr>sy := lock_enqueue (sy s) l\<rparr>"
  have "lstep P l s (goto s t Enqueue)"
    using assms by (rule l_busy)
  moreover have "lstep P l (goto s t Enqueue) (goto ?e t Yield)"
    using l_enqueue [of "goto s t Enqueue" t P l] assms(1) by (simp add: goto_def running_def)
  moreover have "lstep P l (goto ?e t Yield) (goto (s\<lparr>sy := lock_acquire (sy s) l\<rparr>) t Test)"
    using l_yield [of "goto ?e t Yield" t P l] assms(1,3)
    by (simp add: goto_def running_def lock_acquire_def lock_enqueue_def Let_def)
  moreover have "goto (s\<lparr>sy := lock_acquire (sy s) l\<rparr>) t Test = s\<lparr>sy := lock_acquire (sy s) l\<rparr>"
    using assms(2) by (simp add: goto_def fun_upd_idem)
  ultimately show ?thesis by simp
qed

lemma lstep_wake:
  assumes "running s = t" and "pcs s t = RelNext"
  shows "\<exists>x. (lstep P l)\<^sup>*\<^sup>* s (goto (s\<lparr>sy := release_wake (sy s) l, tmps := x\<rparr>) t Idle)"
proof -
  let ?n = "lh_next (heap (sch (sy s))) (wait_list l)"
  let ?x = "(tmps s)(t := ?n)"
  let ?s1 = "goto (s\<lparr>tmps := ?x\<rparr>) t RelDel"
  let ?s2 = "goto (?s1\<lparr>sy := set_heap (sy ?s1) (list_del (heap (sch (sy ?s1))) (tmps ?s1 t))\<rparr>) t RelAdd"
  let ?s3 = "goto (?s2\<lparr>sy := set_heap (sy ?s2) (list_add_tail (heap (sch (sy ?s2))) (tmps ?s2 t)
      (lh_prev (heap (sch (sy ?s2))) (READY_LIST (sch (sy ?s2)))))\<rparr>) t Idle"
  have "lstep P l s ?s1"
    using assms by (rule l_next)
  moreover have "lstep P l ?s1 ?s2"
    using assms(1) by (intro l_del) (simp_all add: goto_def running_def)
  moreover have "lstep P l ?s2 ?s3"
    using assms(1) by (intro l_add) (simp_all add: goto_def running_def)
  ultimately have "(lstep P l)\<^sup>*\<^sup>* s ?s3"
    by (meson r_into_rtranclp rtranclp_trans)
  moreover have "?s3 = goto (s\<lparr>sy := release_wake (sy s) l, tmps := ?x\<rparr>) t Idle"
    by (simp add: goto_def release_wake_def Let_def)
  ultimately show ?thesis by metis
qed

lemma lstep_realse:
  assumes "running s = t" and "pcs s t = Crit"
  shows "\<exists>x. (lstep P l)\<^sup>*\<^sup>* s (goto (s\<lparr>sy := lock_realse (sy s) l, tmps := x\<rparr>) t Idle)"
proof -
  let ?c = "goto (s\<lparr>sy := release_count (sy s) l\<rparr>) t RelTest"
  have step: "lstep P l s ?c"
    using assms by (rule l_count)
  have at: "running ?c = t" "pcs ?c t = RelTest"
    using assms(1) by (simp_all add: goto_def running_def release_count_def)
  show ?thesis
  proof (cases "lock_busy (sy ?c) l")
    case True
    have "lstep P l ?c (goto ?c t Idle)"
      using at True by (rule l_no_wake)
    with step have "(lstep P l)\<^sup>*\<^sup>* s (goto ?c t Idle)" by simp
    moreover have "goto ?c t Idle = goto (s\<lparr>sy := lock_realse (sy s) l, tmps := tmps s\<rparr>) t Idle"
      using True by (simp add: goto_def lock_realse_def lock_busy_def Let_def)
    ultimately show ?thesis by metis
  next
    case False
    have "lstep P l ?c (goto ?c t RelNext)"
      using at False by (rule l_to_wake)
    moreover obtain x where "(lstep P l)\<^sup>*\<^sup>* (goto ?c t RelNext)
        (goto ((goto ?c t RelNext)\<lparr>sy := release_wake (sy (goto ?c t RelNext)) l, tmps := x\<rparr>) t Idle)"
      using lstep_wake [of "goto ?c t RelNext" t P l] at by (auto simp: goto_def running_def)
    ultimately have "(lstep P l)\<^sup>*\<^sup>* s
        (goto ((goto ?c t RelNext)\<lparr>sy := release_wake (sy (goto ?c t RelNext)) l, tmps := x\<rparr>) t Idle)"
      using step by (meson r_into_rtranclp rtranclp_trans)
    moreover have "goto ((goto ?c t RelNext)\<lparr>sy := release_wake (sy (goto ?c t RelNext)) l, tmps := x\<rparr>) t Idle
        = goto (s\<lparr>sy := lock_realse (sy s) l, tmps := x\<rparr>) t Idle"
      using False by (simp add: goto_def lock_realse_def lock_busy_def Let_def)
    ultimately show ?thesis by metis
  qed
qed

section \<open>Mutual exclusion\<close>

text \<open>
  The counter is 0 while nobody holds the lock and -1 while one thread does, and only the
  running thread can be between the test and the decrement.
\<close>

definition excl :: "u32 \<Rightarrow> lsys \<Rightarrow> bool" where
  "excl l s \<longleftrightarrow> (\<forall>t. pcs s t = Dec \<longrightarrow> t = running s \<and> counter (sy s) l = 0)
     \<and> ((counter (sy s) l = 0 \<and> (\<forall>t. pcs s t \<noteq> Crit))
        \<or> (\<exists>h. counter (sy s) l = - 1 \<and> (\<forall>t. pcs s t = Crit \<longleftrightarrow> t = h)))"

lemma pcs_goto: "pcs (goto s t p) u = (if u = t then p else pcs s u)"
  by (simp add: goto_def)

lemma sy_goto: "sy (goto s t p) = sy s"
  by (simp add: goto_def)

lemma running_goto: "running (goto s t p) = running s"
  by (simp add: goto_def running_def)

lemma excl_same:
  assumes "excl l s" and "counter (sy s') l = counter (sy s) l"
    and "\<And>u. pcs s' u = Crit \<longleftrightarrow> pcs s u = Crit"
    and "\<And>u. pcs s' u = Dec \<Longrightarrow> pcs s u = Dec \<and> running s' = running s"
  shows "excl l s'"
  using assms unfolding excl_def by metis

lemma excl_Dec: "excl l s \<Longrightarrow> pcs s t = Dec \<Longrightarrow> t = running s \<and> counter (sy s) l = 0"
  unfolding excl_def by blast

lemma excl_zero:
  assumes "excl l s" and "counter (sy s) l = 0"
  shows "pcs s u \<noteq> Crit"
  using assms unfolding excl_def by (elim conjE disjE exE) simp_all

lemma excl_Crit: "excl l s \<Longrightarrow> pcs s t = Crit \<Longrightarrow>
    counter (sy s) l = - 1 \<and> (\<forall>u. pcs s u = Crit \<longleftrightarrow> u = t)"
  unfolding excl_def by (elim conjE disjE exE) simp_all

lemma excl_not_busy: "excl l s \<Longrightarrow> \<not> lock_busy (sy s) l \<Longrightarrow> counter (sy s) l = 0"
  unfolding excl_def lock_busy_def by (elim conjE disjE exE) simp_all

lemma excl_step:
  assumes "lstep P l s s'" and "Dec \<notin> P" and "excl l s"
  shows "excl l s'"
  using assms(1)
proof (cases rule: lstep.cases)
  case (l_free t)
  have z: "counter (sy s) l = 0" "\<forall>u. pcs s u \<noteq> Crit" "\<forall>u. pcs s u = Dec \<longrightarrow> u = t"
    using l_free(2,4) excl_not_busy [OF assms(3)] excl_zero [OF assms(3)] excl_Dec [OF assms(3)]
    by auto
  have "pcs s' u \<noteq> Crit" "pcs s' u = Dec \<longrightarrow> u = t" for u
    using z(2,3) unfolding l_free(1) by (simp_all add: pcs_goto)
  moreover have "counter (sy s') l = 0" "running s' = t"
    using l_free(2) z(1) unfolding l_free(1) by (simp_all add: running_goto sy_goto)
  ultimately show ?thesis
    by (simp add: excl_def)
next
  case (l_take t)
  have z: "counter (sy s) l = 0" "\<forall>u. pcs s u \<noteq> Crit" "\<forall>u. pcs s u = Dec \<longrightarrow> u = t"
    using l_take(2,3) excl_zero [OF assms(3)] excl_Dec [OF assms(3)] by auto
  have "pcs s' u = Crit \<longleftrightarrow> u = t" "pcs s' u \<noteq> Dec" for u
    using z(2,3) unfolding l_take(1) by (auto simp: pcs_goto)
  moreover have "counter (sy s') l = - 1"
    using z(1) unfolding l_take(1) by (simp add: lock_take_def sy_goto)
  ultimately show ?thesis
    unfolding excl_def by blast
next
  case (l_count t)
  have z: "counter (sy s) l = - 1" "\<forall>u. pcs s u = Crit \<longleftrightarrow> u = t" "\<forall>u. pcs s u \<noteq> Dec"
    using excl_Crit [OF assms(3) l_count(3)] excl_Dec [OF assms(3)] by auto
  have "pcs s' u \<noteq> Crit" "pcs s' u \<noteq> Dec" for u
    using z(2,3) unfolding l_count(1) by (simp_all add: pcs_goto)
  moreover have "counter (sy s') l = 0"
    using z(1) unfolding l_count(1) by (simp add: release_count_def sy_goto)
  ultimately show ?thesis
    by (simp add: excl_def)
next
  case (l_timer t)
  have "\<forall>u. pcs s u \<noteq> Dec"
    using l_timer(2,3) assms(2) excl_Dec [OF assms(3)] by auto
  with l_timer(1) show ?thesis
    by (intro excl_same [OF assms(3)]) (simp_all add: timer_interrupt_def)
next
  case (l_yield t)
  have "\<forall>u. pcs s u \<noteq> Dec"
    using l_yield(2,3) excl_Dec [OF assms(3)] by auto
  with l_yield(1,3) assms(3) show ?thesis
    by (intro excl_same [OF assms(3)]) (auto simp: thread_yield_def goto_def split: if_splits)
qed (auto intro!: excl_same [OF assms(3)] simp: lock_enqueue_def release_wake_def goto_def running_def
    Let_def split: if_splits)

lemma excl_reachable:
  "(lstep P l)\<^sup>*\<^sup>* s s' \<Longrightarrow> Dec \<notin> P \<Longrightarrow> excl l s \<Longrightarrow> excl l s'"
  by (induction rule: rtranclp_induct) (auto intro: excl_step)

section \<open>The race\<close>

lemma running_timer: "running (s\<lparr>sy := (sy s)\<lparr>sch := x\<rparr>\<rparr>) = current_thread x"
  by (simp add: running_def)

lemma lstep_timers:
  assumes "IF (sy s)"
  shows "(lstep UNIV l)\<^sup>*\<^sup>* s (s\<lparr>sy := (sy s)\<lparr>sch := (timer_handler ^^ n) (sch (sy s))\<rparr>\<rparr>)"
proof (induction n)
  case 0
  then show ?case by simp
next
  case (Suc n)
  let ?s = "s\<lparr>sy := (sy s)\<lparr>sch := (timer_handler ^^ n) (sch (sy s))\<rparr>\<rparr>"
  have "lstep UNIV l ?s (?s\<lparr>sy := timer_interrupt (sy ?s)\<rparr>)"
    using assms by (intro l_timer [OF refl]) simp_all
  then have "lstep UNIV l ?s (s\<lparr>sy := (sy s)\<lparr>sch := (timer_handler ^^ Suc n) (sch (sy s))\<rparr>\<rparr>)"
    by (simp add: timer_interrupt_def)
  with Suc show ?case
    by (rule rtranclp.rtrancl_into_rtrancl)
qed

text \<open>A call by the running thread while the lock is free reaches the decrement.\<close>

lemma lstep_to_dec:
  assumes "running s = t" and "pcs s t = Idle" and "\<not> lock_busy (sy s) l"
  shows "(lstep P l)\<^sup>*\<^sup>* s (goto s t Dec)"
proof -
  have "lstep P l s (goto s t Test)"
    using assms(1,2) by (rule l_call)
  moreover have "lstep P l (goto s t Test) (goto (goto s t Test) t Dec)"
    using assms by (intro l_free) (simp_all add: goto_def running_def)
  ultimately show ?thesis
    by (simp add: goto_def)
qed

lemma lstep_take:
  assumes "running s = t" and "pcs s t = Dec"
  shows "(lstep P l)\<^sup>*\<^sup>* s (goto (s\<lparr>sy := lock_take (sy s) l\<rparr>) t Crit)"
  using l_take [OF assms] by (rule r_into_rtranclp)

section \<open>Properties\<close>

text \<open>
  C8. If the timer cannot come between the test of the counter and its decrement, two threads
  never hold the lock at once, whatever the other interleavings of any number of threads.
\<close>

theorem lock_mutual_exclusion:
  assumes "(lstep P l)\<^sup>*\<^sup>* s s'" and "Dec \<notin> P"
    and "counter (sy s) l = 0" and "\<forall>t. pcs s t = Idle"
    and "pcs s' t = Crit" and "pcs s' u = Crit"
  shows "t = u"
proof -
  have "excl l s"
    using assms(3,4) by (simp add: excl_def)
  with excl_reachable [OF assms(1,2)] have "excl l s'"
    by simp
  with assms(5,6) show ?thesis
    using excl_Crit by blast
qed

text \<open>Two slices with one other thread ready: the other runs after the first, the caller after both.\<close>

lemma two_slices:
  assumes "schedules k c [t]" and "unat (ticks k) mod 20 = 0" and "unat (ticks k) + 40 < 4294967296"
  shows "current_thread ((timer_handler ^^ 20) k) = t" and "current_thread ((timer_handler ^^ 40) k) = c"
proof -
  have "cycles k [t, c]"
    using assms(1) cycles_snoc [of k "[t]" c] by simp
  note sl = cycles_slices [OF this assms(2)]
  show "current_thread ((timer_handler ^^ 20) k) = t"
    using sl [of 1] assms(3) by (simp add: cycles_def schedules_def)
  show "current_thread ((timer_handler ^^ 40) k) = c"
    using sl [of 2] assms(3) by (simp add: cycles_def schedules_def numeral_2_eq_2)
qed

text \<open>
  C10. The code leaves interrupts on there, and the lock fails: if the time slice of a thread
  ends between its test and its decrement, the next thread takes the lock as well and both
  hold it.
\<close>

theorem lock_race:
  assumes "schedules (sch (sy s)) c [t]" and "unat (ticks (sch (sy s))) mod 20 = 0"
    and "unat (ticks (sch (sy s))) + 40 < 4294967296"
    and "IF (sy s)" and "counter (sy s) l = 0" and "\<forall>t. pcs s t = Idle"
  shows "\<exists>s'. (lstep UNIV l)\<^sup>*\<^sup>* s s' \<and> c \<noteq> t \<and> pcs s' c = Crit \<and> pcs s' t = Crit"
proof -
  let ?R = "(lstep UNIV l)\<^sup>*\<^sup>*"
  let ?k = "sch (sy s)" and ?at = "\<lambda>p. (pcs s)(c := Dec, t := p)"
  have ct: "c \<noteq> t" and run: "running s = c"
    using assms(1) by (auto simp: schedules_def running_def)
  note t1 = two_slices(1) [OF assms(1-3)] and t2 = two_slices(2) [OF assms(1-3)]
  define s1 where "s1 = goto s c Dec"
  define s2 where "s2 = s1\<lparr>sy := (sy s1)\<lparr>sch := (timer_handler ^^ 20) (sch (sy s1))\<rparr>\<rparr>"
  define s3 where "s3 = goto s2 t Dec"
  define s4 where "s4 = goto (s3\<lparr>sy := lock_take (sy s3) l\<rparr>) t Crit"
  define s5 where "s5 = s4\<lparr>sy := (sy s4)\<lparr>sch := (timer_handler ^^ 20) (sch (sy s4))\<rparr>\<rparr>"
  define s6 where "s6 = goto (s5\<lparr>sy := lock_take (sy s5) l\<rparr>) c Crit"
  note ds = s1_def s2_def s3_def s4_def s5_def s6_def goto_def running_def lock_take_def
  have k5: "sch (sy s5) = (timer_handler ^^ 40) ?k"
    using funpow_add [of 20 20 timer_handler] by (simp add: ds)
  have "?R s s1"
    unfolding s1_def using run assms(5,6) by (intro lstep_to_dec) (simp_all add: lock_busy_def)
  also have "?R s1 s2"
    unfolding s2_def using assms(4) by (intro lstep_timers) (simp add: ds)
  also have "?R s2 s3"
    unfolding s3_def using ct t1 assms(5,6)
    by (intro lstep_to_dec) (simp_all add: ds lock_busy_def)
  also have "?R s3 s4"
    unfolding s4_def using t1 by (intro lstep_take) (simp_all add: ds)
  also have "?R s4 s5"
    unfolding s5_def using assms(4) by (intro lstep_timers) (simp add: ds)
  also have "?R s5 s6"
    unfolding s6_def
  proof (rule lstep_take)
    show "running s5 = c" using k5 t2 by (simp add: running_def)
    show "pcs s5 c = Dec" using ct by (simp add: ds)
  qed
  finally have "?R s s6" .
  moreover have "pcs s6 c = Crit" "pcs s6 t = Crit"
    using ct by (simp_all add: ds)
  ultimately show ?thesis
    using ct by blast
qed

text \<open>Two threads outside the lock, one running.\<close>

definition two_callers :: lsys where
  "two_callers = \<lparr>sy = \<lparr>sch = two_threads, counter = (\<lambda>_. 0), IF = True\<rparr>, pcs = (\<lambda>_. Idle),
     tmps = (\<lambda>_. 0)\<rparr>"

theorem lock_mutual_exclusion_witness:
  "let s' = goto (two_callers\<lparr>sy := lock_acquire (sy two_callers) 0x600000\<rparr>) 0x503000 Crit in
    pcs s' 0x503000 = Crit \<and> (\<forall>u. pcs s' u = Crit \<longrightarrow> u = 0x503000)"
proof -
  let ?s1 = "goto two_callers 0x503000 Test"
  let ?s2 = "goto (?s1\<lparr>sy := lock_acquire (sy ?s1) 0x600000\<rparr>) 0x503000 Crit"
  have "lstep {} 0x600000 two_callers ?s1"
    by (rule l_call) (simp_all add: two_callers_def two_threads_def running_def)
  moreover have "(lstep {} 0x600000)\<^sup>*\<^sup>* ?s1 ?s2"
    by (rule lstep_acquire_free)
      (simp_all add: two_callers_def two_threads_def running_def goto_def lock_busy_def)
  ultimately have run: "(lstep {} 0x600000)\<^sup>*\<^sup>* two_callers ?s2"
    by (rule converse_rtranclp_into_rtranclp)
  have c: "pcs ?s2 0x503000 = Crit" and i: "counter (sy two_callers) 0x600000 = 0"
      "\<forall>t. pcs two_callers t = Idle"
    by (simp_all add: goto_def two_callers_def)
  have u: "u = 0x503000" if "pcs ?s2 u = Crit" for u
    by (rule lock_mutual_exclusion [OF run _ i that c]) simp
  have "?s2 = goto (two_callers\<lparr>sy := lock_acquire (sy two_callers) 0x600000\<rparr>) 0x503000 Crit"
    by (simp add: goto_def)
  with c u show ?thesis
    by (simp only: Let_def) blast
qed

theorem lock_race_witness:
  "\<exists>s'. (lstep UNIV 0x600000)\<^sup>*\<^sup>* two_callers s' \<and> pcs s' 0x503000 = Crit \<and> pcs s' 0x507000 = Crit"
proof -
  have "sch (sy two_callers) = two_threads"
    by (simp add: two_callers_def)
  then have "schedules (sch (sy two_callers)) 0x503000 [0x507000]"
    using two_threads_schedules by simp
  from lock_race [OF this, where l = "0x600000"] show ?thesis
    by (auto simp: two_callers_def two_threads_def)
qed

end
