(* ===== verification/Desc.thy ===== *)
theory Desc
  imports Prelude
begin

text \<open>
  Segment descriptors and gates (\<^verbatim>\<open>src/include/sys/desc_struct.h\<close>,
  \<^verbatim>\<open>src/include/sys/gdt.h\<close>) and the kernel's own descriptor table
  (\<^verbatim>\<open>src/kernel/desc/gdt.c\<close>). The union of \<^verbatim>\<open>desc_struct\<close> is its pair of words; the
  bit fields are read off it, and the accessors below put base, limit and attributes back
  together the way the processor does.
\<close>

unbundle bit_operations_syntax

section \<open>Descriptors\<close>

record desc_struct =
  da :: u32
  db :: u32

definition bits :: "nat \<Rightarrow> nat \<Rightarrow> u32 \<Rightarrow> u32" where
  "bits p n w = take_bit n (drop_bit p w)"

lemma bit_bits: "bit (bits p n w) i \<longleftrightarrow> i < n \<and> bit w (p + i)"
  by (simp add: bits_def bit_simps)

definition limit0 :: "desc_struct \<Rightarrow> u32" where "limit0 d = bits 0 16 (da d)"
definition base0 :: "desc_struct \<Rightarrow> u32" where "base0 d = bits 16 16 (da d)"
definition base1 :: "desc_struct \<Rightarrow> u32" where "base1 d = bits 0 8 (db d)"
definition type_field :: "desc_struct \<Rightarrow> u32" where "type_field d = bits 8 4 (db d)"
definition s_field :: "desc_struct \<Rightarrow> u32" where "s_field d = bits 12 1 (db d)"
definition dpl_field :: "desc_struct \<Rightarrow> u32" where "dpl_field d = bits 13 2 (db d)"
definition p_field :: "desc_struct \<Rightarrow> u32" where "p_field d = bits 15 1 (db d)"
definition limit1 :: "desc_struct \<Rightarrow> u32" where "limit1 d = bits 16 4 (db d)"
definition g_field :: "desc_struct \<Rightarrow> u32" where "g_field d = bits 23 1 (db d)"
definition base2 :: "desc_struct \<Rightarrow> u32" where "base2 d = bits 24 8 (db d)"

lemmas desc_fields = limit0_def base0_def base1_def type_field_def s_field_def dpl_field_def p_field_def
  limit1_def g_field_def base2_def

definition set_gate :: "u32 \<Rightarrow> u32 \<Rightarrow> u32 \<Rightarrow> u32 \<Rightarrow> desc_struct" where
  "set_gate type base dpl seg =
     \<lparr>da = push_bit 16 seg OR (base AND 0xffff),
      db = (base AND 0xffff0000) OR push_bit 8 ((0x80 OR type OR push_bit 5 dpl) AND 0xff)\<rparr>"

definition GDT_ENTRY_INIT :: "u32 \<Rightarrow> u32 \<Rightarrow> u32 \<Rightarrow> desc_struct" where
  "GDT_ENTRY_INIT flags base limit =
     \<lparr>da = (limit AND 0xffff) OR push_bit 16 (base AND 0xffff),
      db = drop_bit 16 (base AND 0xff0000) OR push_bit 8 (flags AND 0xf0ff)
        OR (limit AND 0xf0000) OR (base AND 0xff000000)\<rparr>"

section \<open>How the processor reads them\<close>

definition seg_base :: "desc_struct \<Rightarrow> u32" where
  "seg_base d = base0 d OR push_bit 16 (base1 d) OR push_bit 24 (base2 d)"

definition seg_limit :: "desc_struct \<Rightarrow> u32" where
  "seg_limit d = limit0 d OR push_bit 16 (limit1 d)"

text \<open>Present, privilege, system bit and type: bits 8 to 15 of the second word.\<close>

definition access_byte :: "desc_struct \<Rightarrow> u32" where
  "access_byte d = bits 8 8 (db d)"

definition gate_offset :: "desc_struct \<Rightarrow> u32" where
  "gate_offset d = limit0 d OR push_bit 16 (bits 16 16 (db d))"

definition gate_selector :: "desc_struct \<Rightarrow> u32" where
  "gate_selector d = base0 d"

lemmas desc_views = seg_base_def seg_limit_def access_byte_def gate_offset_def gate_selector_def
  desc_fields

lemma masks_u32 [mask_simps]:
  "(0xff :: u32) = mask 8" "(0xffff :: u32) = mask 16" "(0xf0000 :: u32) = push_bit 16 (mask 4)"
  "(0xff0000 :: u32) = push_bit 16 (mask 8)" "(0xff000000 :: u32) = push_bit 24 (mask 8)"
  "(0xffff0000 :: u32) = push_bit 16 (mask 16)" "(0xf0ff :: u32) = mask 8 OR push_bit 12 (mask 4)"
  by (simp_all add: mask_eq_exp_minus_1 push_bit_eq_mult)

lemma nat_ranges:
  "n < 8 \<or> (\<exists>k<8. n = 8 + k) \<or> (\<exists>k<4. n = 16 + k) \<or> (\<exists>k<4. n = 20 + k) \<or> (\<exists>k<8. n = 24 + k)
    \<or> 32 \<le> (n :: nat)"
  by presburger

lemma bit_u32_beyond: "32 \<le> n \<Longrightarrow> \<not> bit (w :: u32) n"
  by (auto dest: bit_imp_le_length)

lemma bit_da_GDT_ENTRY_INIT:
  "bit (da (GDT_ENTRY_INIT f b l)) n \<longleftrightarrow>
    (if n < 16 then bit l n else n < 32 \<and> bit b (n - 16))"
  using nat_ranges [of n]
  by (elim disjE exE conjE) (simp_all add: GDT_ENTRY_INIT_def mask_simps bit_simps bit_u32_beyond)

lemma bit_db_GDT_ENTRY_INIT:
  "bit (db (GDT_ENTRY_INIT f b l)) n \<longleftrightarrow>
    (if n < 8 then bit b (n + 16) else if n < 16 then bit f (n - 8)
     else if n < 20 then bit l n else if n < 24 then bit f (n - 8) else n < 32 \<and> bit b n)"
  using nat_ranges [of n]
  by (elim disjE exE conjE)
    (simp_all add: GDT_ENTRY_INIT_def mask_simps bit_simps bit_u32_beyond add.commute)

lemma seg_base_GDT_ENTRY_INIT: "seg_base (GDT_ENTRY_INIT f b l) = b"
  by (rule bit_word_eqI) (auto simp: desc_views bit_bits bit_simps bit_da_GDT_ENTRY_INIT
      bit_db_GDT_ENTRY_INIT)

lemma seg_limit_GDT_ENTRY_INIT: "seg_limit (GDT_ENTRY_INIT f b l) = take_bit 20 l"
  by (rule bit_word_eqI) (auto simp: desc_views bit_bits bit_simps bit_da_GDT_ENTRY_INIT
      bit_db_GDT_ENTRY_INIT)

lemma access_GDT_ENTRY_INIT: "access_byte (GDT_ENTRY_INIT f b l) = take_bit 8 f"
  by (rule bit_word_eqI) (auto simp: desc_views bit_bits bit_simps bit_db_GDT_ENTRY_INIT)

lemma g_GDT_ENTRY_INIT: "g_field (GDT_ENTRY_INIT f b l) = bits 15 1 f"
  by (rule bit_word_eqI) (auto simp: desc_views bit_bits bit_simps bit_db_GDT_ENTRY_INIT)

lemma bit_gate_low:
  "bit (push_bit 16 s OR (b AND 0xffff) :: u32) n \<longleftrightarrow>
    (if n < 16 then bit b n else n < 32 \<and> bit s (n - 16))"
  using nat_ranges [of n]
  by (elim disjE exE conjE) (simp_all add: mask_simps bit_simps bit_u32_beyond)

lemma bit_gate_high:
  "bit ((b AND 0xffff0000) OR push_bit 8 (x AND 0xff) :: u32) n \<longleftrightarrow>
    (if n < 8 then False else if n < 16 then bit x (n - 8) else n < 32 \<and> bit b n)"
  using nat_ranges [of n]
  by (elim disjE exE conjE) (simp_all add: mask_simps bit_simps bit_u32_beyond)

lemma bit_set_gate:
  "bit (da (set_gate t b d s)) n \<longleftrightarrow> (if n < 16 then bit b n else n < 32 \<and> bit s (n - 16))"
  "bit (db (set_gate t b d s)) n \<longleftrightarrow>
    (if n < 8 then False else if n < 16 then bit (0x80 OR t OR push_bit 5 d) (n - 8)
     else n < 32 \<and> bit b n)"
  by (simp_all only: set_gate_def desc_struct.simps bit_gate_low bit_gate_high)

lemma gate_offset_set_gate: "gate_offset (set_gate t b d s) = b"
  by (rule bit_word_eqI) (auto simp: desc_views bit_bits bit_simps bit_set_gate)

lemma gate_selector_set_gate: "gate_selector (set_gate t b d s) = take_bit 16 s"
  by (rule bit_word_eqI) (auto simp: desc_views bit_bits bit_simps bit_set_gate)

lemma gate_access_set_gate:
  "access_byte (set_gate t b d s) = take_bit 8 (0x80 OR t OR push_bit 5 d)"
  by (rule bit_word_eqI) (simp add: desc_views bit_bits bit_set_gate bit_take_bit_iff
      del: take_bit_or)

section \<open>Selectors of gdt.h\<close>

definition GDTNUM :: nat where [layout]: "GDTNUM = 32"
definition KCS_LOCAL :: nat where [layout]: "KCS_LOCAL = 4"
definition KDS_LOCAL :: nat where [layout]: "KDS_LOCAL = 5"
definition UCS_LOCAL :: nat where [layout]: "UCS_LOCAL = 6"
definition UDS_LOCAL :: nat where [layout]: "UDS_LOCAL = 7"
definition TSS_LOCAL :: nat where [layout]: "TSS_LOCAL = 8"
definition DIS_LOCAL :: nat where [layout]: "DIS_LOCAL = 9"

definition KERNEL_CS :: u32 where [layout]: "KERNEL_CS = push_bit 3 (of_nat KCS_LOCAL)"
definition KERNEL_DS :: u32 where [layout]: "KERNEL_DS = push_bit 3 (of_nat KDS_LOCAL)"
definition USER_CS :: u32 where [layout]: "USER_CS = push_bit 3 (of_nat UCS_LOCAL) OR 3"
definition USER_DS :: u32 where [layout]: "USER_DS = push_bit 3 (of_nat UDS_LOCAL) OR 3"
definition KERNEL_TSS :: u32 where [layout]: "KERNEL_TSS = push_bit 3 (of_nat TSS_LOCAL)"
definition DIS_GS :: u32 where [layout]: "DIS_GS = push_bit 3 (of_nat DIS_LOCAL)"

section \<open>The task state segment and the tables\<close>

record x86_hw_tss =
  back_link :: u16
  sp0 :: u32
  ss0 :: u16
  sp1 :: u32
  ss1 :: u16
  sp2 :: u32
  ss2 :: u16
  cr3 :: u32
  ip :: u32
  flags :: u32
  regs :: "u32 list"
  segs :: "u16 list"
  ldt :: u16
  trace :: u16
  io_bitmap_base :: u16

record tss_struct =
  x86_tss :: x86_hw_tss
  io_map_end :: u8
  tss_len :: u32

text \<open>
  The packed layout: the width in bytes of every member of \<^verbatim>\<open>x86_hw_tss\<close> in order, the
  selectors with their padding halves, and then the two members of \<^verbatim>\<open>tss_struct\<close>.
\<close>

definition x86_hw_tss_widths :: "nat list" where
  "x86_hw_tss_widths = [2, 2, 4, 2, 2, 4, 2, 2, 4, 2, 2, 4, 4, 4, 4, 4, 4, 4, 4, 4, 4, 4,
     2, 2, 2, 2, 2, 2, 2, 2, 2, 2, 2, 2, 2, 2, 2, 2]"

definition tss_len_offset :: nat where
  "tss_len_offset = sum_list x86_hw_tss_widths + 1"

definition sizeof_tss :: nat where
  "sizeof_tss = tss_len_offset + 4"

record desc_ptr =
  size_field :: u16
  address :: u32

record cpu =
  gdtr :: desc_ptr
  cs :: u16
  ds :: u16
  es :: u16
  fs :: u16
  ss :: u16
  gs :: u16
  tr :: u16

record gdt_state =
  gdt :: "desc_struct list"
  gdt_ptr :: desc_ptr
  tss :: tss_struct
  cpu :: cpu

section \<open>gdt.c\<close>

definition load_tss :: "gdt_state \<Rightarrow> gdt_state" where
  "load_tss k =
     (let t = tss k;
          h = (x86_tss t)\<lparr>sp0 := 0x1fffff, ss0 := ucast KERNEL_DS,
                io_bitmap_base := of_nat sizeof_tss\<rparr>;
          t = t\<lparr>x86_tss := h, io_map_end := 0xff, tss_len := of_nat tss_len_offset\<rparr>
      in k\<lparr>tss := t, cpu := (cpu k)\<lparr>tr := ucast KERNEL_TSS\<rparr>\<rparr>)"

definition set_tss_esp :: "gdt_state \<Rightarrow> u32 \<Rightarrow> gdt_state" where
  "set_tss_esp k esp = k\<lparr>tss := (tss k)\<lparr>x86_tss := (x86_tss (tss k))\<lparr>sp0 := esp\<rparr>\<rparr>\<rparr>"

text \<open>The addresses of the two static objects are given by the linker: parameters here.\<close>

definition change_gdt :: "u32 \<Rightarrow> u32 \<Rightarrow> gdt_state \<Rightarrow> gdt_state" where
  "change_gdt tss_addr gdt_addr k =
     (let g = (gdt k)[KCS_LOCAL := GDT_ENTRY_INIT 0xc09b 0 0xfffff];
          g = g[KDS_LOCAL := GDT_ENTRY_INIT 0xc093 0 0xfffff];
          g = g[UCS_LOCAL := GDT_ENTRY_INIT 0xc0fa 0 0xfffff];
          g = g[UDS_LOCAL := GDT_ENTRY_INIT 0xc0f2 0 0xfffff];
          g = g[TSS_LOCAL := GDT_ENTRY_INIT 0x0089 tss_addr (tss_len (tss k) - 1)];
          g = g[DIS_LOCAL := GDT_ENTRY_INIT 0x00f3 0xb8000 0xffff];
          p = \<lparr>size_field = of_nat (8 * GDTNUM) - 1, address = gdt_addr\<rparr>;
          d = ucast KERNEL_DS
      in k\<lparr>gdt := g, gdt_ptr := p,
           cpu := (cpu k)\<lparr>gdtr := p, cs := 0x20, ds := d, es := d, fs := d, ss := d,
             gs := ucast DIS_GS\<rparr>\<rparr>)"

section \<open>Segmentation with the loaded table\<close>

definition descriptor :: "gdt_state \<Rightarrow> u16 \<Rightarrow> desc_struct" where
  "descriptor k sel = gdt k ! (unat sel div 8)"

text \<open>
  Logical to linear address, when the table register covers the selector and the segment is
  present and covers the offset (granularity 1 counts the limit in pages).
\<close>

definition effective_limit :: "desc_struct \<Rightarrow> nat" where
  "effective_limit d =
     (if g_field d = 1 then unat (seg_limit d) * 4096 + 4095 else unat (seg_limit d))"

definition linear :: "gdt_state \<Rightarrow> u16 \<Rightarrow> u32 \<Rightarrow> u32 option" where
  "linear k sel off =
     (let d = descriptor k sel in
      if unat sel div 8 * 8 + 7 \<le> unat (size_field (gdtr (cpu k))) \<and> p_field d = 1
         \<and> unat off \<le> effective_limit d
      then Some (seg_base d + off) else None)"

lemma tss_sizes [simp]: "tss_len_offset = 105" "sizeof_tss = 109"
  by (simp_all add: tss_len_offset_def sizeof_tss_def x86_hw_tss_widths_def)

lemma p_GDT_ENTRY_INIT: "p_field (GDT_ENTRY_INIT f b l) = bits 7 1 f"
  by (rule bit_word_eqI) (auto simp: desc_views bit_bits bit_simps bit_db_GDT_ENTRY_INIT)

lemma dpl_GDT_ENTRY_INIT: "dpl_field (GDT_ENTRY_INIT f b l) = bits 5 2 f"
  by (rule bit_word_eqI) (auto simp: desc_views bit_bits bit_simps bit_db_GDT_ENTRY_INIT)

lemmas entry_fields = seg_base_GDT_ENTRY_INIT seg_limit_GDT_ENTRY_INIT g_GDT_ENTRY_INIT
  p_GDT_ENTRY_INIT dpl_GDT_ENTRY_INIT

lemma change_gdt_entries:
  fixes ta ga :: u32
  assumes "length (gdt k) = GDTNUM"
  defines "g \<equiv> gdt (change_gdt ta ga k)"
  shows "g ! 4 = GDT_ENTRY_INIT 0xc09b 0 0xfffff" "g ! 5 = GDT_ENTRY_INIT 0xc093 0 0xfffff"
    "g ! 6 = GDT_ENTRY_INIT 0xc0fa 0 0xfffff" "g ! 7 = GDT_ENTRY_INIT 0xc0f2 0 0xfffff"
    "g ! 8 = GDT_ENTRY_INIT 0x0089 ta (tss_len (tss k) - 1)"
    "g ! 9 = GDT_ENTRY_INIT 0x00f3 0xb8000 0xffff"
proof -
  have l: "length (gdt k) = 32"
    using assms(1) by (simp only: GDTNUM_def)
  have g: "g = (gdt k)[4 := GDT_ENTRY_INIT 0xc09b 0 0xfffff, 5 := GDT_ENTRY_INIT 0xc093 0 0xfffff,
      6 := GDT_ENTRY_INIT 0xc0fa 0 0xfffff, 7 := GDT_ENTRY_INIT 0xc0f2 0 0xfffff,
      8 := GDT_ENTRY_INIT 0x0089 ta (tss_len (tss k) - 1), 9 := GDT_ENTRY_INIT 0x00f3 0xb8000 0xffff]"
    unfolding g_def change_gdt_def Let_def KCS_LOCAL_def KDS_LOCAL_def UCS_LOCAL_def UDS_LOCAL_def
      TSS_LOCAL_def DIS_LOCAL_def by simp
  show "g ! 4 = GDT_ENTRY_INIT 0xc09b 0 0xfffff" "g ! 5 = GDT_ENTRY_INIT 0xc093 0 0xfffff"
    "g ! 6 = GDT_ENTRY_INIT 0xc0fa 0 0xfffff" "g ! 7 = GDT_ENTRY_INIT 0xc0f2 0 0xfffff"
    "g ! 8 = GDT_ENTRY_INIT 0x0089 ta (tss_len (tss k) - 1)"
    "g ! 9 = GDT_ENTRY_INIT 0x00f3 0xb8000 0xffff"
    unfolding g by (simp_all add: l nth_list_update)
qed

lemma change_gdt_cpu:
  "cpu (change_gdt ta ga k) = (cpu k)\<lparr>gdtr := \<lparr>size_field = 255, address = ga\<rparr>, cs := 0x20, ds := 0x28,
    es := 0x28, fs := 0x28, ss := 0x28, gs := 0x48\<rparr>"
  by (simp add: change_gdt_def layout Let_def push_bit_eq_mult)

lemma effective_limit_flat: "effective_limit (GDT_ENTRY_INIT f b 0xfffff) = 4294967295"
  if "bits 15 1 f = 1"
  using that by (simp add: effective_limit_def entry_fields take_bit_eq_mod)

lemma linear_flat:
  assumes "descriptor k sel = GDT_ENTRY_INIT f 0 0xfffff" and "bits 15 1 f = 1" and "bits 7 1 f = 1"
    and "unat sel div 8 * 8 + 7 \<le> unat (size_field (gdtr (cpu k)))"
  shows "linear k sel off = Some off"
proof -
  have "unat off \<le> 4294967295"
    using unat_u32_bound [of off] by linarith
  then show ?thesis
    using assms(1,4) effective_limit_flat [OF assms(2)]
    by (simp add: linear_def entry_fields assms(3) [unfolded One_nat_def] Let_def)
qed

lemma change_gdt_descriptors:
  assumes "length (gdt k) = GDTNUM"
  shows "descriptor (change_gdt ta ga k) 0x20 = GDT_ENTRY_INIT 0xc09b 0 0xfffff"
    "descriptor (change_gdt ta ga k) 0x28 = GDT_ENTRY_INIT 0xc093 0 0xfffff"
    "descriptor (change_gdt ta ga k) 0x48 = GDT_ENTRY_INIT 0x00f3 0xb8000 0xffff"
    "descriptor (change_gdt ta ga k) 0x33 = GDT_ENTRY_INIT 0xc0fa 0 0xfffff"
    "descriptor (change_gdt ta ga k) 0x3b = GDT_ENTRY_INIT 0xc0f2 0 0xfffff"
  using change_gdt_entries [OF assms, of ta ga] by (simp_all add: descriptor_def)

lemma change_gdt_linear:
  assumes "length (gdt k) = GDTNUM"
  shows "linear (change_gdt ta ga k) 0x20 off = Some off" "linear (change_gdt ta ga k) 0x28 off = Some off"
    "linear (change_gdt ta ga k) 0x48 off = (if off \<le> 0xffff then Some (0xb8000 + off) else None)"
proof -
  note d = change_gdt_descriptors [OF assms, of ta ga]
  show "linear (change_gdt ta ga k) 0x20 off = Some off" "linear (change_gdt ta ga k) 0x28 off = Some off"
    by (rule linear_flat [OF d(1)] linear_flat [OF d(2)];
        simp add: change_gdt_cpu bits_def drop_bit_eq_div take_bit_eq_mod)+
  show "linear (change_gdt ta ga k) 0x48 off = (if off \<le> 0xffff then Some (0xb8000 + off) else None)"
    using d(3) by (simp add: linear_def effective_limit_def entry_fields change_gdt_cpu bits_def
        drop_bit_eq_div take_bit_eq_mod word_le_nat_alt)
qed

lemma linear_load_tss [simp]: "linear (load_tss k) sel off = linear k sel off"
  by (simp add: linear_def descriptor_def load_tss_def Let_def)

section \<open>Properties\<close>

text \<open>
  \<^verbatim>\<open>GDT_ENTRY_INIT\<close> encodes what the processor decodes: the base comes back whole, the
  limit up to its twenty bits, and the attribute bits where the flags put them.
\<close>

lemma GDT_ENTRY_INIT_decodes:
  "seg_base (GDT_ENTRY_INIT f b l) = b \<and> seg_limit (GDT_ENTRY_INIT f b l) = take_bit 20 l
    \<and> access_byte (GDT_ENTRY_INIT f b l) = take_bit 8 f \<and> dpl_field (GDT_ENTRY_INIT f b l) = bits 5 2 f
    \<and> p_field (GDT_ENTRY_INIT f b l) = bits 7 1 f \<and> g_field (GDT_ENTRY_INIT f b l) = bits 15 1 f"
  by (simp add: entry_fields access_GDT_ENTRY_INIT)

text \<open>
  After \<^verbatim>\<open>change_gdt\<close> the code, data and stack segments map every offset to itself,
  \<^verbatim>\<open>gs\<close> maps exactly the offsets of the text screen at \<^verbatim>\<open>0xb8000\<close> and no others, the
  kernel's segments have privilege 0 and the user's 3.
\<close>

lemma change_gdt_segments:
  assumes "length (gdt k) = GDTNUM"
  shows "let k' = change_gdt ta ga k; c = cpu k' in
      linear k' (cs c) off = Some off \<and> linear k' (ds c) off = Some off
    \<and> linear k' (es c) off = Some off \<and> linear k' (ss c) off = Some off
    \<and> linear k' (gs c) off = (if off \<le> 0xffff then Some (0xb8000 + off) else None)
    \<and> dpl_field (descriptor k' (cs c)) = 0 \<and> dpl_field (descriptor k' (ds c)) = 0
    \<and> dpl_field (descriptor k' (ucast USER_CS)) = 3 \<and> dpl_field (descriptor k' (ucast USER_DS)) = 3"
proof -
  note d = change_gdt_descriptors [OF assms, of ta ga] and maps = change_gdt_linear [OF assms, of ta ga off]
  have user: "ucast USER_CS = (0x33 :: u16)" "ucast USER_DS = (0x3b :: u16)"
    by (simp_all add: layout push_bit_eq_mult)
  show ?thesis
    using maps d user by (simp add: change_gdt_cpu entry_fields bits_def drop_bit_eq_div
        take_bit_eq_mod Let_def)
qed

text \<open>
  The task state segment gets the limit \<^verbatim>\<open>0xfffff\<close> instead of one less than the size
  the code computes: \<^verbatim>\<open>change_gdt\<close> reads \<^verbatim>\<open>tss.tss_len\<close> while it is still zero, and
  \<^verbatim>\<open>load_tss\<close> stores 105 in it only afterwards, without touching the descriptor.
\<close>

lemma tss_limit_from_unset_length:
  assumes "length (gdt k) = GDTNUM" and "tss_len (tss k) = 0"
  shows "let k' = load_tss (change_gdt ta ga k); d = descriptor k' (tr (cpu k')) in
    seg_base d = ta \<and> seg_limit d = 0xfffff \<and> tss_len (tss k') = 105
    \<and> sp0 (x86_tss (tss k')) = 0x1fffff \<and> ss0 (x86_tss (tss k')) = ds (cpu k')"
proof -
  let ?k = "change_gdt ta ga k"
  have "descriptor (load_tss ?k) 0x40 = GDT_ENTRY_INIT 0x0089 ta (tss_len (tss k) - 1)"
    using change_gdt_entries(5) [OF assms(1)] by (simp add: descriptor_def load_tss_def Let_def)
  moreover have "tr (cpu (load_tss ?k)) = 0x40"
    by (simp add: load_tss_def Let_def layout push_bit_eq_mult)
  moreover have "take_bit 20 (- 1 :: u32) = 0xfffff"
    by (simp add: take_bit_minus_one_eq_mask mask_eq_exp_minus_1)
  ultimately show ?thesis
    using assms(2) by (simp add: entry_fields Let_def)
      (simp add: load_tss_def change_gdt_cpu Let_def layout push_bit_eq_mult)
qed

text \<open>The zeroed statics the kernel starts with.\<close>

definition zero_gdt_state :: gdt_state where
  "zero_gdt_state = \<lparr>gdt = replicate GDTNUM \<lparr>da = 0, db = 0\<rparr>, gdt_ptr = \<lparr>size_field = 0, address = 0\<rparr>,
     tss = \<lparr>x86_tss = \<lparr>back_link = 0, sp0 = 0, ss0 = 0, sp1 = 0, ss1 = 0, sp2 = 0, ss2 = 0, cr3 = 0,
         ip = 0, flags = 0, regs = replicate 8 0, segs = replicate 6 0, ldt = 0, trace = 0,
         io_bitmap_base = 0\<rparr>, io_map_end = 0, tss_len = 0\<rparr>,
     cpu = \<lparr>gdtr = \<lparr>size_field = 0, address = 0\<rparr>, cs = 8, ds = 16, es = 16, fs = 16, ss = 16, gs = 24,
       tr = 0\<rparr>\<rparr>"

end
