(* ===== verification/Pic.thy ===== *)
theory Pic
  imports Prelude
begin

text \<open>
  Port input and output, the interrupt controllers (\<^verbatim>\<open>src/kernel/8259a/8259a.c\<close> and the
  loader's copy \<^verbatim>\<open>src/boot/8259a.c\<close>) and the interval timer
  (\<^verbatim>\<open>src/kernel/8259a/8253.c\<close>). Hardware is not modelled: what a device answers is a
  parameter \<^verbatim>\<open>dev\<close>, a function of everything the processor has done on its ports so far.
  The section on the controllers states what the 8259A data sheet says of that function.
\<close>

section \<open>Ports\<close>

datatype event =
    Out8 u16 u8 | Out16 u16 u16 | Out32 u16 u32
  | In8 u16 | In16 u16 | In32 u16
  | Delay

text \<open>The latest event comes first.\<close>

type_synonym history = "event list"
type_synonym device = "history \<Rightarrow> u16 \<Rightarrow> u32"

record io =
  history :: history
  int_flag :: bool

definition emit :: "event \<Rightarrow> io \<Rightarrow> io" where
  "emit e w = w\<lparr>history := e # history w\<rparr>"

definition outb :: "u8 \<Rightarrow> u16 \<Rightarrow> io \<Rightarrow> io" where
  "outb v port w = emit (Out8 port v) w"

definition inb :: "device \<Rightarrow> u16 \<Rightarrow> io \<Rightarrow> u8 \<times> io" where
  "inb dev port w = (ucast (dev (history w) port), emit (In8 port) w)"

definition outw :: "u16 \<Rightarrow> u16 \<Rightarrow> io \<Rightarrow> io" where
  "outw v port w = emit (Out16 port v) w"

definition inw :: "device \<Rightarrow> u16 \<Rightarrow> io \<Rightarrow> u16 \<times> io" where
  "inw dev port w = (ucast (dev (history w) port), emit (In16 port) w)"

definition outl :: "u32 \<Rightarrow> u16 \<Rightarrow> io \<Rightarrow> io" where
  "outl v port w = emit (Out32 port v) w"

definition inl :: "device \<Rightarrow> u32 \<Rightarrow> io \<Rightarrow> u32 \<times> io" where
  "inl dev port w = (dev (history w) (ucast port), emit (In32 (ucast port)) w)"

text \<open>The delay writes whatever \<^verbatim>\<open>al\<close> holds to the unused port \<^verbatim>\<open>0x80\<close>.\<close>

definition io_delay :: "io \<Rightarrow> io" where
  "io_delay w = emit Delay w"

definition outb_pic :: "u8 \<Rightarrow> u16 \<Rightarrow> io \<Rightarrow> io" where
  "outb_pic v port w = io_delay (outb v port w)"

definition inb_pic :: "device \<Rightarrow> u16 \<Rightarrow> io \<Rightarrow> u8 \<times> io" where
  "inb_pic dev port w = (let (v, w) = inb dev port w in (v, io_delay w))"

definition cli :: "io \<Rightarrow> io" where "cli w = w\<lparr>int_flag := False\<rparr>"
definition sti :: "io \<Rightarrow> io" where "sti w = w\<lparr>int_flag := True\<rparr>"

lemmas port_defs = emit_def outb_def inb_def outw_def inw_def outl_def inl_def io_delay_def
  outb_pic_def inb_pic_def cli_def sti_def

section \<open>The interrupt controllers\<close>

definition MASTER_8259A_IMR :: u16 where [layout]: "MASTER_8259A_IMR = 0x21"
definition SLAVE_8259A_IMR :: u16 where [layout]: "SLAVE_8259A_IMR = 0xa1"
definition MASTER_8259A_CMD :: u16 where [layout]: "MASTER_8259A_CMD = 0x20"
definition SLAVE_8259A_CMD :: u16 where [layout]: "SLAVE_8259A_CMD = 0xa0"

definition Init_8259A :: "io \<Rightarrow> io" where
  "Init_8259A w =
     (let w = outb_pic 0x11 MASTER_8259A_CMD w;
          w = outb_pic 0x11 SLAVE_8259A_CMD w;
          w = outb_pic 0x30 MASTER_8259A_IMR w;
          w = outb_pic 0x38 SLAVE_8259A_IMR w;
          w = outb_pic 0x4 MASTER_8259A_IMR w;
          w = outb_pic 0x2 SLAVE_8259A_IMR w;
          w = outb_pic 0x1 MASTER_8259A_IMR w;
          w = outb_pic 0x1 SLAVE_8259A_IMR w;
          w = outb_pic 0xff MASTER_8259A_IMR w
      in outb_pic 0xff SLAVE_8259A_IMR w)"

text \<open>\<^verbatim>\<open>~(1 << n) & now\<close>, computed at 32 bits and cut to a byte.\<close>

definition clear_mask_bit :: "int \<Rightarrow> u8 \<Rightarrow> u8" where
  "clear_mask_bit n now = ucast (NOT (shl32 1 (of_int n)) AND (ucast now :: u32))"

definition enable_irq :: "device \<Rightarrow> int \<Rightarrow> io \<Rightarrow> io" where
  "enable_irq dev irq w =
     (let (master_now, w) = inb_pic dev MASTER_8259A_IMR w;
          (slave_now, w) = inb_pic dev SLAVE_8259A_IMR w;
          w = cli w;
          w = (if irq < 8 \<and> irq \<noteq> 2
               then outb_pic (clear_mask_bit irq master_now) MASTER_8259A_IMR w
               else w);
          w = (if 8 < irq \<and> irq < 16
               then let w = outb_pic (clear_mask_bit 2 master_now) MASTER_8259A_IMR w
                    in outb_pic (clear_mask_bit (irq - 8) slave_now) SLAVE_8259A_IMR w
               else w)
      in sti w)"

definition disable_irqs :: "io \<Rightarrow> io" where
  "disable_irqs w = (let w = outb 0xff 0x21 w in outb 0xff 0xa1 w)"

definition EOI_master :: "io \<Rightarrow> io" where
  "EOI_master w = sti (outb_pic 0x20 MASTER_8259A_CMD w)"

definition EOI_slave :: "io \<Rightarrow> io" where
  "EOI_slave w = sti (outb_pic 0x20 SLAVE_8259A_CMD (outb_pic 0x20 MASTER_8259A_CMD w))"

section \<open>The interval timer\<close>

definition COUNTER0 :: u16 where [layout]: "COUNTER0 = 0x40"
definition MODE_CONTROL_REG :: u16 where [layout]: "MODE_CONTROL_REG = 0x43"
definition TIMER_FREQ :: int where [layout]: "TIMER_FREQ = 1193182"
definition HZ :: int where [layout]: "HZ = 100"

definition timer_command :: u8 where
  "timer_command = push_bit 6 0 OR push_bit 4 3 OR push_bit 1 2"

definition init_8253 :: "io \<Rightarrow> io" where
  "init_8253 w =
     (let w = outb_pic timer_command MODE_CONTROL_REG w;
          w = outb_pic (of_int (c_quot TIMER_FREQ HZ)) COUNTER0 w
      in outb_pic (of_int (drop_bit 8 (c_quot TIMER_FREQ HZ))) COUNTER0 w)"

section \<open>What the data sheet says of an 8259A\<close>

text \<open>
  A controller at base port \<^verbatim>\<open>b\<close>: a command write with bit 4 set starts initialisation and
  clears the mask, the data writes that follow are its second to fourth initialisation words (the
  third only with a second controller, the fourth only when announced); any other data write
  sets the mask.
\<close>

datatype icw = ICW2 | ICW3 | ICW4

record pic =
  expected :: "icw list"
  vector_base :: u8
  cascade :: u8
  imr :: u8

definition pic_event :: "u16 \<Rightarrow> event \<Rightarrow> pic \<Rightarrow> pic" where
  "pic_event b e p = (case e of
     Out8 port v \<Rightarrow>
       if port = b \<and> bit v 4
       then p\<lparr>expected := ICW2 # (if bit v 1 then [] else [ICW3]) @ (if bit v 0 then [ICW4] else []),
              imr := 0\<rparr>
       else if port = b + 1
       then (case expected p of
               [] \<Rightarrow> p\<lparr>imr := v\<rparr>
             | ICW2 # r \<Rightarrow> p\<lparr>expected := r, vector_base := v\<rparr>
             | ICW3 # r \<Rightarrow> p\<lparr>expected := r, cascade := v\<rparr>
             | ICW4 # r \<Rightarrow> p\<lparr>expected := r\<rparr>)
       else p
   | _ \<Rightarrow> p)"

definition pic_after :: "u16 \<Rightarrow> history \<Rightarrow> pic" where
  "pic_after b h = foldr (pic_event b) h \<lparr>expected = [], vector_base = 0, cascade = 0, imr = 0\<rparr>"

definition master :: "io \<Rightarrow> pic" where "master w = pic_after 0x20 (history w)"
definition slave :: "io \<Rightarrow> pic" where "slave w = pic_after 0xa0 (history w)"

text \<open>Reading the data port of an initialised controller gives its mask.\<close>

definition masks_readable :: "device \<Rightarrow> bool" where
  "masks_readable dev \<longleftrightarrow> (\<forall>h.
     (expected (pic_after 0x20 h) = [] \<longrightarrow> ucast (dev h 0x21) = imr (pic_after 0x20 h)) \<and>
     (expected (pic_after 0xa0 h) = [] \<longrightarrow> ucast (dev h 0xa1) = imr (pic_after 0xa0 h)))"

lemma pic_after_Cons [simp]: "pic_after b (e # h) = pic_event b e (pic_after b h)"
  by (simp add: pic_after_def)

lemma pic_event_ignores [simp]:
  "pic_event b Delay p = p" "pic_event b (In8 q) p = p"
  by (simp_all add: pic_event_def)

lemma bit_clear_mask_bit:
  assumes "0 \<le> n" "n < 8"
  shows "bit (clear_mask_bit n v) i \<longleftrightarrow> bit v i \<and> int i \<noteq> n"
proof -
  define k where "k = nat n"
  have k: "n = int k" "k < 8"
    using assms by (simp_all add: k_def)
  have "unat (of_int n AND 31 :: u32) = k"
    using k unat_and_mask [of "of_nat k :: u32" 5] by (simp add: mask_eq_exp_minus_1)
  then show ?thesis
    using k by (auto simp: clear_mask_bit_def shl32_def bit_simps dest: bit_imp_le_length)
qed

text \<open>A data write to one controller, and to the other, in the running state.\<close>

lemma pic_after_mask:
  "expected (pic_after b h) = [] \<Longrightarrow> pic_after b (Out8 (b + 1) v # h) = (pic_after b h)\<lparr>imr := v\<rparr>"
  by (simp add: pic_event_def)

lemma pic_after_other: "q \<noteq> b \<Longrightarrow> q \<noteq> b + 1 \<Longrightarrow> pic_after b (Out8 q v # h) = pic_after b h"
  by (simp add: pic_event_def)

lemma enable_irq_cases:
  assumes "masks_readable dev" and "expected (master w) = []" and "expected (slave w) = []"
  shows "master (enable_irq dev irq w) =
      (if irq < 8 \<and> irq \<noteq> 2 then (master w)\<lparr>imr := clear_mask_bit irq (imr (master w))\<rparr>
       else if 8 < irq \<and> irq < 16 then (master w)\<lparr>imr := clear_mask_bit 2 (imr (master w))\<rparr>
       else master w)"
    and "slave (enable_irq dev irq w) =
      (if 8 < irq \<and> irq < 16 then (slave w)\<lparr>imr := clear_mask_bit (irq - 8) (imr (slave w))\<rparr>
       else slave w)"
    and "int_flag (enable_irq dev irq w)"
proof -
  have m: "ucast (dev (history w) 0x21) = imr (master w)"
    using assms by (simp add: masks_readable_def master_def)
  have "expected (pic_after 0xa0 (Delay # In8 0x21 # history w)) = []"
    using assms(3) by (simp add: slave_def)
  then have "ucast (dev (Delay # In8 0x21 # history w) 0xa1) = imr (pic_after 0xa0 (Delay # In8 0x21 # history w))"
    using assms(1) unfolding masks_readable_def by blast
  then have s: "ucast (dev (Delay # In8 0x21 # history w) 0xa1) = imr (slave w)"
    by (simp add: slave_def)
  show "master (enable_irq dev irq w) =
      (if irq < 8 \<and> irq \<noteq> 2 then (master w)\<lparr>imr := clear_mask_bit irq (imr (master w))\<rparr>
       else if 8 < irq \<and> irq < 16 then (master w)\<lparr>imr := clear_mask_bit 2 (imr (master w))\<rparr>
       else master w)"
    and "slave (enable_irq dev irq w) =
      (if 8 < irq \<and> irq < 16 then (slave w)\<lparr>imr := clear_mask_bit (irq - 8) (imr (slave w))\<rparr>
       else slave w)"
    and "int_flag (enable_irq dev irq w)"
    using assms(2,3) m s
    by (simp_all add: enable_irq_def port_defs layout master_def slave_def pic_event_def Let_def)
qed

section \<open>Properties\<close>

text \<open>
  \<^verbatim>\<open>Init_8259A\<close> leaves both controllers initialised, whatever state they were in: vectors
  \<^verbatim>\<open>0x30\<close> and \<^verbatim>\<open>0x38\<close>, the second on line 2 of the first, every line masked.
\<close>

lemma Init_8259A_state:
  "master (Init_8259A w) = \<lparr>expected = [], vector_base = 0x30, cascade = 4, imr = 0xff\<rparr>
    \<and> slave (Init_8259A w) = \<lparr>expected = [], vector_base = 0x38, cascade = 2, imr = 0xff\<rparr>"
  by (simp add: Init_8259A_def port_defs layout master_def slave_def pic_event_def Let_def bit_simps)

text \<open>
  C31. \<^verbatim>\<open>enable_irq\<close> on initialised controllers unmasks the requested line, and line 2 of the
  first for a line of the second, and no other; but line 8 is covered by neither test and stays
  masked. It always leaves the processor's interrupts enabled.
\<close>

theorem enable_irq_unmasks:
  assumes "masks_readable dev" and "expected (master w) = []" and "expected (slave w) = []"
    and "0 \<le> irq"
  shows "let w' = enable_irq dev irq w in
    (\<forall>i<8. bit (imr (master w')) i \<longleftrightarrow> bit (imr (master w)) i
        \<and> \<not> (int i = irq \<and> i \<noteq> 2) \<and> \<not> (i = 2 \<and> 8 < irq \<and> irq < 16)) \<and>
    (\<forall>i<8. bit (imr (slave w')) i \<longleftrightarrow> bit (imr (slave w)) i \<and> \<not> (int i + 8 = irq \<and> irq \<noteq> 8)) \<and>
    expected (master w') = [] \<and> expected (slave w') = [] \<and> int_flag w'"
  using enable_irq_cases [OF assms(1-3), of irq] assms(2-4)
  by (auto simp: Let_def bit_clear_mask_bit)

text \<open>A controller pair that answers as the data sheet says.\<close>

definition data_sheet :: device where
  "data_sheet h port = (if port = 0x21 then ucast (imr (pic_after 0x20 h))
     else if port = 0xa1 then ucast (imr (pic_after 0xa0 h)) else 0xff)"

lemma masks_readable_data_sheet: "masks_readable data_sheet"
  by (simp add: masks_readable_def data_sheet_def ucast_u8_u32)

definition cold_io :: io where
  "cold_io = \<lparr>history = [], int_flag = False\<rparr>"

theorem enable_irq_unmasks_witness:
  "bit (imr (slave (enable_irq data_sheet 8 (Init_8259A cold_io)))) 0
    \<and> \<not> bit (imr (slave (enable_irq data_sheet 14 (Init_8259A cold_io)))) 6"
proof -
  let ?w = "Init_8259A cold_io"
  have "expected (master ?w) = []" "expected (slave ?w) = []" "imr (slave ?w) = 0xff"
    by (simp_all add: Init_8259A_def port_defs layout master_def slave_def pic_event_def Let_def bit_simps)
  then show ?thesis
    using enable_irq_unmasks [OF masks_readable_data_sheet, of ?w 8]
      enable_irq_unmasks [OF masks_readable_data_sheet, of ?w 14]
    by (simp add: Let_def)
qed

end
