(* ===== verification/Idt.thy ===== *)
theory Idt
  imports Desc Pic
begin

text \<open>
  The interrupt descriptor tables of the kernel (\<^verbatim>\<open>src/kernel/desc/idt.c\<close>) and of the
  loader (\<^verbatim>\<open>src/boot/init_idt.c\<close>), the exception handlers of
  \<^verbatim>\<open>src/kernel/interrupt/exception.c\<close> and the drivers' registrations: \<^verbatim>\<open>init_timer\<close> of both
  programs and \<^verbatim>\<open>init_hd\<close>. The address the linker gives a function is a parameter: \<^verbatim>\<open>addr_of\<close>
  maps names to addresses.
\<close>

section \<open>Vectors and state\<close>

definition IDTNUM :: nat where [layout]: "IDTNUM = 256"
definition IRQ_VECTOR :: int where [layout]: "IRQ_VECTOR = 0x30"
definition IRQ_TIMER :: int where [layout]: "IRQ_TIMER = 0"
definition IRQ_AT_HD :: int where [layout]: "IRQ_AT_HD = 0xe"
definition SYS_CALL_NUM :: nat where [layout]: "SYS_CALL_NUM = 0x80"
definition GATE_INTERRUPT :: u32 where [layout]: "GATE_INTERRUPT = 0xE"
definition GATE_EXCEPTION :: u32 where [layout]: "GATE_EXCEPTION = 0xF"
definition KCS_BOOT_SELEC :: u32 where [layout]: "KCS_BOOT_SELEC = push_bit 3 1"

text \<open>The vectors \<^verbatim>\<open>EXC_DIVIDE\<close> to \<^verbatim>\<open>EXC_ALIGNMENT_CHECK\<close> with the functions put there.\<close>

definition exception_table :: "(nat \<times> string) list" where
  "exception_table =
     [(0x0, ''divide_error''), (0x1, ''single_step_exception''), (0x2, ''nmi''),
      (0x3, ''breakpoint_exception''), (0x4, ''overflow''), (0x5, ''bounds_check''),
      (0x6, ''inval_opcode''), (0x7, ''copr_not_available''), (0x8, ''double_fault''),
      (0x9, ''copr_seg_overrun''), (0xa, ''inval_tss''), (0xb, ''segment_not_present''),
      (0xc, ''stack_exception''), (0xd, ''general_protection''), (0xe, ''page_fault''),
      (0xf, ''copr_error''), (0x10, ''float_error''), (0x11, ''alignment_check'')]"

record idt_state =
  idt :: "desc_struct list"
  idtr :: desc_ptr
  interrupt :: "u32 list"
  ports :: io

definition map_ports :: "(io \<Rightarrow> io) \<Rightarrow> idt_state \<Rightarrow> idt_state" where
  "map_ports f k = k\<lparr>ports := f (ports k)\<rparr>"

definition put_gate :: "nat \<Rightarrow> desc_struct \<Rightarrow> idt_state \<Rightarrow> idt_state" where
  "put_gate v d k = k\<lparr>idt := (idt k)[v := d]\<rparr>"

section \<open>idt.c and init\_idt.c\<close>

definition set_exception_gate :: "(string \<Rightarrow> u32) \<Rightarrow> idt_state \<Rightarrow> idt_state" where
  "set_exception_gate addr_of k =
     (let k = fold (\<lambda>(v, f). put_gate v (set_gate GATE_EXCEPTION (addr_of f) 0 (push_bit 3 (of_nat KCS_LOCAL))))
            exception_table k
      in put_gate SYS_CALL_NUM
           (set_gate GATE_INTERRUPT (addr_of ''sys_entry'') 0 (push_bit 3 (of_nat KCS_LOCAL))) k)"

text \<open>The inline assembly of \<^verbatim>\<open>load_idt\<close>, and \<^verbatim>\<open>init_idt\<close>, which is nothing else.\<close>

definition lidt :: "u32 \<Rightarrow> idt_state \<Rightarrow> idt_state" where
  "lidt idt_addr k =
     (let k = map_ports cli k;
          k = k\<lparr>idtr := \<lparr>size_field = of_nat (IDTNUM * 8) - 1, address = idt_addr\<rparr>\<rparr>
      in map_ports sti k)"

definition load_idt :: "(string \<Rightarrow> u32) \<Rightarrow> u32 \<Rightarrow> idt_state \<Rightarrow> idt_state" where
  "load_idt addr_of idt_addr k = set_exception_gate addr_of (lidt idt_addr k)"

definition init_idt :: "u32 \<Rightarrow> idt_state \<Rightarrow> idt_state" where
  "init_idt idt_addr k = lidt idt_addr k"

text \<open>\<^verbatim>\<open>set_intr_gate\<close> of the two programs: they differ in the code segment of the gate.\<close>

definition intr_gate :: "u32 \<Rightarrow> int \<Rightarrow> u32 \<Rightarrow> idt_state \<Rightarrow> idt_state outcome" where
  "intr_gate seg IRQ handler k =
     (let irq = IRQ + IRQ_VECTOR in
      if 0 \<le> irq \<and> irq < int IDTNUM
      then Inr (put_gate (nat irq) (set_gate GATE_INTERRUPT handler 0 seg) k)
      else Inl Out_Of_Bounds)"

definition set_intr_gate :: "device \<Rightarrow> int \<Rightarrow> u32 \<Rightarrow> idt_state \<Rightarrow> idt_state outcome" where
  "set_intr_gate dev IRQ handler k =
     bind_outcome (intr_gate (push_bit 3 (of_nat KCS_LOCAL)) IRQ handler k)
       (\<lambda>k. Inr (map_ports (enable_irq dev IRQ) k))"

definition set_intr_gate_boot :: "device \<Rightarrow> int \<Rightarrow> u32 \<Rightarrow> idt_state \<Rightarrow> idt_state outcome" where
  "set_intr_gate_boot dev IRQ handler k =
     bind_outcome (intr_gate KCS_BOOT_SELEC IRQ handler k)
       (\<lambda>k. Inr (map_ports (enable_irq dev IRQ) k))"

section \<open>Drivers\<close>

definition init_timer :: "(string \<Rightarrow> u32) \<Rightarrow> device \<Rightarrow> idt_state \<Rightarrow> idt_state outcome" where
  "init_timer addr_of dev k =
     (let k = k\<lparr>interrupt := (interrupt k)[0 := addr_of ''timer_handler'']\<rparr> in
      bind_outcome (set_intr_gate dev 0 (addr_of ''irq00_handler'') k)
        (\<lambda>k. Inr (map_ports (enable_irq dev IRQ_TIMER) k)))"

definition init_timer_boot :: "(string \<Rightarrow> u32) \<Rightarrow> device \<Rightarrow> idt_state \<Rightarrow> idt_state outcome" where
  "init_timer_boot addr_of dev k =
     (let k = k\<lparr>interrupt := (interrupt k)[0 := addr_of ''timer_handler'']\<rparr> in
      bind_outcome (set_intr_gate_boot dev 0 (addr_of ''irq00_handler'') k)
        (\<lambda>k. Inr (map_ports (enable_irq dev 0) k)))"

definition init_hd :: "(string \<Rightarrow> u32) \<Rightarrow> device \<Rightarrow> idt_state \<Rightarrow> idt_state outcome" where
  "init_hd addr_of dev k =
     (let k = k\<lparr>interrupt := (interrupt k)[14 := addr_of ''hd_handler'']\<rparr> in
      bind_outcome (set_intr_gate_boot dev IRQ_AT_HD (addr_of ''irq14_handler'') k)
        (\<lambda>k. Inr (map_ports (enable_irq dev IRQ_AT_HD) k)))"

section \<open>exception.c\<close>

text \<open>
  Every handler is one call of \<^verbatim>\<open>exception_handler\<close>, with these arguments; it prints the name
  and stops.
\<close>

definition exception_calls :: "(string \<times> int \<times> string) list" where
  "exception_calls =
     [(''divide_error'', 0, ''divide_error''),
      (''single_step_exception'', 1, ''single_step_exception''),
      (''nmi'', 2, ''nmi''),
      (''breakpoint_exception'', 3, ''breakpoint_exception''),
      (''overflow'', 4, ''overflow''),
      (''bounds_check'', 5, ''bounds_check''),
      (''inval_opcode'', 6, ''inval_opcode''),
      (''copr_not_available'', 7, ''copr_not_available''),
      (''double_fault'', 8, ''double_fault''),
      (''copr_seg_overrun'', 9, ''copr_seg_overrun''),
      (''inval_tss'', 10, ''inval_tss''),
      (''segment_not_present'', 11, ''segment_not_present''),
      (''stack_exception'', 12, ''stack_exception''),
      (''general_protection'', 13, ''general_protection''),
      (''page_fault'', 14, ''page_fault''),
      (''copr_error'', 15, ''copr_error''),
      (''float_error'', 16, ''float_error''),
      (''alignment_check'', 17, ''alignment_check'')]"

section \<open>Looking up a gate\<close>

definition gate :: "idt_state \<Rightarrow> nat \<Rightarrow> desc_struct" where
  "gate k v = idt k ! v"

definition gate_present :: "desc_struct \<Rightarrow> bool" where
  "gate_present d \<longleftrightarrow> bit (access_byte d) 7"

text \<open>A gate as the processor reads it: entry point, code segment, access byte.\<close>

definition reads_gate :: "desc_struct \<Rightarrow> u32 \<Rightarrow> u32 \<Rightarrow> u32 \<Rightarrow> bool" where
  "reads_gate d entry sel acc \<longleftrightarrow> gate_offset d = entry \<and> gate_selector d = sel \<and> access_byte d = acc"

lemma reads_gate_set_gate:
  "reads_gate (set_gate t b 0 s) e sel acc \<longleftrightarrow> b = e \<and> take_bit 16 s = sel \<and> take_bit 8 (0x80 OR t) = acc"
  by (simp add: reads_gate_def gate_offset_set_gate gate_selector_set_gate gate_access_set_gate
      del: take_bit_or)

lemma gate_put_gate:
  "length (idt k) = IDTNUM \<Longrightarrow> v < IDTNUM \<Longrightarrow>
    gate (put_gate u d k) v = (if u = v then d else gate k v)"
  by (simp add: gate_def put_gate_def nth_list_update)

lemma put_gate_simps [simp]:
  "length (idt (put_gate u d k)) = length (idt k)" "ports (put_gate u d k) = ports k"
  "interrupt (put_gate u d k) = interrupt k" "idtr (put_gate u d k) = idtr k"
  by (simp_all add: put_gate_def)

lemma map_ports_simps [simp]:
  "idt (map_ports f k) = idt k" "ports (map_ports f k) = f (ports k)" "gate (map_ports f k) v = gate k v"
  by (simp_all add: map_ports_def gate_def)

lemma lidt_simps [simp]: "idt (lidt a k) = idt k" "gate (lidt a k) v = gate k v"
  by (simp_all add: lidt_def gate_def Let_def)

lemma gate_fold_put_gate:
  assumes "length (idt k) = IDTNUM" and "v < IDTNUM" and "distinct (map fst tab)"
  shows "gate (fold (\<lambda>(v, f). put_gate v (g f)) tab k) v =
    (case map_of tab v of None \<Rightarrow> gate k v | Some f \<Rightarrow> g f)"
  using assms
proof (induction tab arbitrary: k)
  case Nil
  then show ?case by simp
next
  case (Cons p tab)
  obtain u f where p: "p = (u, f)" by (cases p)
  have "map_of tab u = None"
    using Cons.prems(3) p by (simp add: map_of_eq_None_iff)
  with Cons.IH [of "put_gate u (g f) k"] Cons.prems show ?case
    by (auto simp: p gate_put_gate split: option.splits)
qed

lemma length_idt_fold_put_gate:
  "length (idt (fold (\<lambda>(v, f). put_gate v (g f)) tab k)) = length (idt k)"
  by (induction tab arbitrary: k) auto

lemma set_exception_gate_ports [simp]: "ports (set_exception_gate a k) = ports k"
proof -
  have "ports (fold (\<lambda>(v, f). put_gate v (g f)) tab k) = ports k" for g and tab :: "(nat \<times> string) list"
    by (induction tab arbitrary: k) auto
  then show ?thesis
    by (simp add: set_exception_gate_def Let_def)
qed

lemma length_set_exception_gate [simp]: "length (idt (set_exception_gate a k)) = length (idt k)"
  by (simp add: set_exception_gate_def Let_def length_idt_fold_put_gate)

lemma kernel_selector: "push_bit 3 (of_nat KCS_LOCAL) = (0x20 :: u32)"
  by (simp add: layout push_bit_eq_mult)

lemma gate_set_exception_gate:
  assumes "length (idt k) = IDTNUM" and "v < IDTNUM"
  shows "gate (set_exception_gate a k) v =
    (if v = 0x80 then set_gate GATE_INTERRUPT (a ''sys_entry'') 0 0x20
     else case map_of exception_table v of None \<Rightarrow> gate k v
       | Some f \<Rightarrow> set_gate GATE_EXCEPTION (a f) 0 0x20)"
proof -
  have "distinct (map fst exception_table)"
    by (simp add: exception_table_def)
  note g = gate_fold_put_gate [OF assms this]
  show ?thesis
    unfolding set_exception_gate_def Let_def kernel_selector
    by (simp add: gate_put_gate assms length_idt_fold_put_gate g SYS_CALL_NUM_def)
qed

lemma exception_calls_match:
  "map_of exception_table v = Some f \<Longrightarrow> map_of exception_calls f = Some (int v, f)"
proof -
  have "\<forall>p\<in>set exception_table. map_of exception_calls (snd p) = Some (int (fst p), snd p)"
    by (simp add: exception_table_def exception_calls_def)
  then show "map_of exception_table v = Some f \<Longrightarrow> map_of exception_calls f = Some (int v, f)"
    using map_of_SomeD by fastforce
qed

section \<open>The interrupts of the kernel's start\<close>

text \<open>The statements of \<^verbatim>\<open>start_kernel\<close> from \<^verbatim>\<open>disable_irqs\<close> to \<^verbatim>\<open>init_timer\<close>, one by one.\<close>

definition irq_start_steps :: "(string \<Rightarrow> u32) \<Rightarrow> device \<Rightarrow> u32 \<Rightarrow> (idt_state \<Rightarrow> idt_state) list" where
  "irq_start_steps a dev idt_addr =
     [map_ports disable_irqs, lidt idt_addr, set_exception_gate a,
      (\<lambda>k. k\<lparr>interrupt := (interrupt k)[0 := a ''timer_handler'']\<rparr>),
      put_gate 0x30 (set_gate GATE_INTERRUPT (a ''irq00_handler'') 0 0x20),
      map_ports (enable_irq dev 0), map_ports (enable_irq dev 0)]"

definition run_steps :: "('s \<Rightarrow> 's) list \<Rightarrow> 's \<Rightarrow> 's" where
  "run_steps steps k = fold (\<lambda>f k. f k) steps k"

lemma irq_start_is_code:
  "init_timer a dev (load_idt a i (map_ports disable_irqs k)) = Inr (run_steps (irq_start_steps a dev i) k)"
  unfolding init_timer_def set_intr_gate_def intr_gate_def kernel_selector
  by (simp add: load_idt_def run_steps_def irq_start_steps_def layout Let_def)

text \<open>A line can interrupt when interrupts are on and no mask on its way is set.\<close>

definition deliverable :: "idt_state \<Rightarrow> nat \<Rightarrow> bool" where
  "deliverable k i \<longleftrightarrow> int_flag (ports k) \<and>
     (if i < 8 then \<not> bit (imr (master (ports k))) i
      else \<not> bit (imr (master (ports k))) 2 \<and> \<not> bit (imr (slave (ports k))) (i - 8))"

lemma run_steps_Cons [simp]: "run_steps (f # steps) k = run_steps steps (f k)"
  by (simp add: run_steps_def)

lemma run_steps_Nil [simp]: "run_steps [] k = k"
  by (simp add: run_steps_def)

lemma disable_irqs_masks:
  assumes "expected (master w) = []" and "expected (slave w) = []"
  shows "master (disable_irqs w) = (master w)\<lparr>imr := 0xff\<rparr>"
    "slave (disable_irqs w) = (slave w)\<lparr>imr := 0xff\<rparr>" "int_flag (disable_irqs w) = int_flag w"
  using assms by (simp_all add: disable_irqs_def port_defs master_def slave_def pic_event_def Let_def)

text \<open>Everything masked; everything masked but line 0.\<close>

definition all_masked :: "idt_state \<Rightarrow> bool" where
  "all_masked k \<longleftrightarrow> expected (master (ports k)) = [] \<and> expected (slave (ports k)) = []
     \<and> imr (master (ports k)) = mask 8 \<and> imr (slave (ports k)) = mask 8"

definition only_timer :: "idt_state \<Rightarrow> bool" where
  "only_timer k \<longleftrightarrow> expected (master (ports k)) = [] \<and> expected (slave (ports k)) = []
     \<and> (\<forall>i. bit (imr (master (ports k))) i \<longleftrightarrow> i < 8 \<and> i \<noteq> 0) \<and> imr (slave (ports k)) = mask 8"

lemma bit_u8_mask: "bit (mask 8 :: u8) i \<longleftrightarrow> i < 8"
  by (auto simp: bit_mask_iff)

lemma u8_ff: "(0xff :: u8) = mask 8"
  by (simp add: mask_eq_exp_minus_1)

lemma not_deliverable_masked: "all_masked k \<Longrightarrow> i < 16 \<Longrightarrow> \<not> deliverable k i"
  by (auto simp: all_masked_def deliverable_def bit_u8_mask)

lemma deliverable_only_timer: "only_timer k \<Longrightarrow> i < 16 \<Longrightarrow> deliverable k i \<Longrightarrow> i = 0"
  by (auto simp: only_timer_def deliverable_def bit_u8_mask split: if_splits)

lemma all_masked_same_ports:
  "ports k' = ports k \<Longrightarrow> all_masked k' \<longleftrightarrow> all_masked k"
  by (simp add: all_masked_def)

lemma all_masked_lidt: "all_masked (lidt a k) \<longleftrightarrow> all_masked k"
  by (simp add: all_masked_def lidt_def map_ports_def Let_def cli_def sti_def master_def slave_def)

lemma enable_timer_masks:
  assumes "masks_readable dev" and "all_masked k \<or> only_timer k"
  shows "only_timer (map_ports (enable_irq dev 0) k)"
proof -
  have e: "expected (master (ports k)) = []" "expected (slave (ports k)) = []"
      "imr (slave (ports k)) = mask 8"
    and m: "bit (imr (master (ports k))) i \<and> i \<noteq> 0 \<longleftrightarrow> i < 8 \<and> i \<noteq> 0" for i
    using assms(2) by (auto simp: all_masked_def only_timer_def bit_u8_mask)
  show ?thesis
    using e m by (auto simp: only_timer_def enable_irq_cases [OF assms(1) e(1,2)] bit_clear_mask_bit)
qed

lemma gate_load_idt:
  assumes "length (idt k) = IDTNUM" and "v < IDTNUM"
  shows "gate (load_idt a i k) v =
    (if v = 0x80 then set_gate GATE_INTERRUPT (a ''sys_entry'') 0 0x20
     else case map_of exception_table v of None \<Rightarrow> gate k v
       | Some f \<Rightarrow> set_gate GATE_EXCEPTION (a f) 0 0x20)"
  using gate_set_exception_gate [of "lidt i k" v a] assms
  by (simp add: load_idt_def cong: option.case_cong)

lemma exception_keys:
  assumes "(v, f) \<in> set exception_table"
  shows "v < 0x20" and "map_of exception_table v = Some f"
proof -
  have "\<forall>u\<in>set (map fst exception_table). u < 0x20" and "distinct (map fst exception_table)"
    by (simp_all add: exception_table_def)
  then show "v < 0x20" "map_of exception_table v = Some f"
    using assms by (auto intro: map_of_is_SomeI)
qed

text \<open>The state behind \<^verbatim>\<open>disable_irqs\<close>, \<^verbatim>\<open>load_idt\<close> and \<^verbatim>\<open>init_timer\<close>.\<close>

lemma init_timer_load_idt:
  "init_timer a dev k = Inr (map_ports (enable_irq dev 0) (map_ports (enable_irq dev 0)
     (put_gate 0x30 (set_gate GATE_INTERRUPT (a ''irq00_handler'') 0 0x20)
       (k\<lparr>interrupt := (interrupt k)[0 := a ''timer_handler'']\<rparr>))))"
  unfolding init_timer_def set_intr_gate_def intr_gate_def kernel_selector
  by (simp add: layout Let_def)

lemma irq_started:
  assumes "masks_readable dev" and "length (idt k) = IDTNUM"
    and "expected (master (ports k)) = []" and "expected (slave (ports k)) = []"
  shows "\<exists>k'. init_timer a dev (load_idt a i (map_ports disable_irqs k)) = Inr k'
    \<and> only_timer k' \<and> int_flag (ports k')
    \<and> reads_gate (gate k' 0x30) (a ''irq00_handler'') 0x20 0x8e
    \<and> reads_gate (gate k' 0x80) (a ''sys_entry'') 0x20 0x8e
    \<and> (\<forall>(v, f)\<in>set exception_table. reads_gate (gate k' v) (a f) 0x20 0x8f)"
proof -
  let ?l = "load_idt a i (map_ports disable_irqs k)"
  let ?k = "put_gate 0x30 (set_gate GATE_INTERRUPT (a ''irq00_handler'') 0 0x20)
      (?l\<lparr>interrupt := (interrupt ?l)[0 := a ''timer_handler'']\<rparr>)"
  let ?k' = "map_ports (enable_irq dev 0) (map_ports (enable_irq dev 0) ?k)"
  have "all_masked (map_ports disable_irqs k)"
    using assms(3,4) by (simp add: all_masked_def disable_irqs_masks u8_ff)
  then have "all_masked (lidt i (map_ports disable_irqs k))"
    by (simp add: all_masked_lidt)
  moreover have "ports ?k = ports (lidt i (map_ports disable_irqs k))"
    by (simp add: load_idt_def)
  ultimately have "all_masked ?k"
    using all_masked_same_ports by blast
  then have only: "only_timer (map_ports (enable_irq dev 0) ?k)" "only_timer ?k'"
    using enable_timer_masks [OF assms(1)] by blast+
  have l: "length (idt ?l) = IDTNUM"
    using assms(2) by (simp add: load_idt_def)
  have k': "gate ?k' v = gate ?k v" for v
    by simp
  have g: "gate ?k' 0x30 = set_gate GATE_INTERRUPT (a ''irq00_handler'') 0 0x20"
      "v \<noteq> 0x30 \<Longrightarrow> gate ?k' v = gate ?l v" for v
    unfolding k' using l by (simp_all add: gate_def put_gate_def layout)
  have flag: "int_flag (ports ?k')"
    by (simp add: enable_irq_def sti_def Let_def split: prod.split)
  have "gate ?k' 0x80 = set_gate GATE_INTERRUPT (a ''sys_entry'') 0 0x20"
    using g(2) gate_load_idt [of "map_ports disable_irqs k" "0x80" a i] assms(2) by (simp add: layout)
  moreover have "gate ?k' v = set_gate GATE_EXCEPTION (a f) 0 0x20" if "(v, f) \<in> set exception_table" for v f
  proof -
    have "v < IDTNUM" "v \<noteq> 0x80" "v \<noteq> 0x30" "map_of exception_table v = Some f"
      using exception_keys [OF that] by (simp_all add: layout)
    then show ?thesis
      using g(2) gate_load_idt [of "map_ports disable_irqs k" v a i] assms(2) by simp
  qed
  ultimately show ?thesis
    using only(2) flag g(1) by (intro exI [of _ ?k']) (auto simp: init_timer_load_idt reads_gate_set_gate layout)
qed

section \<open>Properties\<close>

text \<open>
  After \<^verbatim>\<open>load_idt\<close> every exception vector holds a present trap gate of the kernel's code
  segment to the handler written for it, which reports that very vector number and its own
  name; vector \<^verbatim>\<open>0x80\<close> holds an interrupt gate to \<^verbatim>\<open>sys_entry\<close>; no other vector changes.
\<close>

lemma load_idt_gates:
  assumes "length (idt k) = IDTNUM" and "v < IDTNUM"
  shows "case map_of exception_table v of
      Some f \<Rightarrow> reads_gate (gate (load_idt a i k) v) (a f) 0x20 0x8f
        \<and> map_of exception_calls f = Some (int v, f)
    | None \<Rightarrow> if v = 0x80 then reads_gate (gate (load_idt a i k) v) (a ''sys_entry'') 0x20 0x8e
        else gate (load_idt a i k) v = gate k v"
proof -
  note g = gate_load_idt [OF assms, of a i]
  have "map_of exception_table 0x80 = None"
    by (simp add: exception_table_def)
  then show ?thesis
    unfolding g using exception_calls_match [of v]
    by (auto simp: reads_gate_set_gate layout split: option.splits)
qed

text \<open>
  C27. The start of the kernel takes no interrupt it has no gate for: \<^verbatim>\<open>disable_irqs\<close>,
  \<^verbatim>\<open>load_idt\<close> and \<^verbatim>\<open>init_timer\<close> are the listed steps, \<^verbatim>\<open>load_idt\<close> turns interrupts on while
  its table is still empty, and yet before and after every step the only line that can
  interrupt is line 0, and only once vector \<^verbatim>\<open>0x30\<close> leads to \<^verbatim>\<open>irq00_handler\<close>.
\<close>

theorem irq_start_safe:
  fixes a :: "string \<Rightarrow> u32" and ia :: u32
  assumes "masks_readable dev" and "length (idt k) = IDTNUM"
    and "expected (master (ports k)) = []" and "expected (slave (ports k)) = []"
    and "\<not> int_flag (ports k)" and "i < 16"
  defines "at n \<equiv> run_steps (take n (irq_start_steps a dev ia)) k"
  shows "init_timer a dev (load_idt a ia (map_ports disable_irqs k)) = Inr (at 7)
    \<and> (deliverable (at n) i \<longrightarrow> i = 0 \<and> reads_gate (gate (at n) 0x30) (a ''irq00_handler'') 0x20 0x8e)"
proof -
  let ?k1 = "map_ports disable_irqs k"
  let ?k2 = "lidt ia ?k1"
  let ?k3 = "set_exception_gate a ?k2"
  let ?k4 = "?k3\<lparr>interrupt := (interrupt ?k3)[0 := a ''timer_handler'']\<rparr>"
  let ?k5 = "put_gate 0x30 (set_gate GATE_INTERRUPT (a ''irq00_handler'') 0 0x20) ?k4"
  let ?k6 = "map_ports (enable_irq dev 0) ?k5"
  let ?k7 = "map_ports (enable_irq dev 0) ?k6"
  have at: "at 0 = k" "at 1 = ?k1" "at 2 = ?k2" "at 3 = ?k3" "at 4 = ?k4" "at 5 = ?k5" "at 6 = ?k6"
    "at (7 + m) = ?k7" for m
    by (simp_all add: at_def irq_start_steps_def eval_nat_numeral)
  have k1: "all_masked ?k1"
    using assms(3,4) by (simp add: all_masked_def disable_irqs_masks u8_ff)
  then have k2: "all_masked ?k2" "all_masked ?k3" "all_masked ?k4" "all_masked ?k5"
    by (simp_all add: all_masked_lidt all_masked_same_ports)
  then have k6: "only_timer ?k6"
    by (intro enable_timer_masks [OF assms(1)]) blast
  then have k7: "only_timer ?k7"
    by (intro enable_timer_masks [OF assms(1)]) blast
  have "gate ?k5 0x30 = set_gate GATE_INTERRUPT (a ''irq00_handler'') 0 0x20"
    using assms(2) by (subst gate_put_gate) (simp_all add: layout)
  then have g: "reads_gate (gate ?k6 0x30) (a ''irq00_handler'') 0x20 0x8e"
    "reads_gate (gate ?k7 0x30) (a ''irq00_handler'') 0x20 0x8e"
    by (simp_all add: reads_gate_set_gate layout)
  have "n = 0 \<or> n = 1 \<or> n = 2 \<or> n = 3 \<or> n = 4 \<or> n = 5 \<or> n = 6 \<or> (\<exists>m. n = 7 + m)"
    by presburger
  moreover have "\<not> deliverable k i"
    using assms(5) by (simp add: deliverable_def)
  ultimately have "deliverable (at n) i \<longrightarrow>
      i = 0 \<and> reads_gate (gate (at n) 0x30) (a ''irq00_handler'') 0x20 0x8e"
    using not_deliverable_masked [OF k1 assms(6)] not_deliverable_masked [OF k2(1) assms(6)]
      not_deliverable_masked [OF k2(2) assms(6)] not_deliverable_masked [OF k2(3) assms(6)]
      not_deliverable_masked [OF k2(4) assms(6)] deliverable_only_timer [OF k6 assms(6)]
      deliverable_only_timer [OF k7 assms(6)] g
    by (elim disjE exE) (simp_all only: at; blast)+
  moreover have "at 7 = run_steps (irq_start_steps a dev ia) k"
    by (simp add: at_def irq_start_steps_def)
  ultimately show ?thesis
    using irq_start_is_code by simp
qed

text \<open>Empty tables, both controllers initialised, interrupts off.\<close>

definition cold_idt :: idt_state where
  "cold_idt = \<lparr>idt = replicate IDTNUM \<lparr>da = 0, db = 0\<rparr>, idtr = \<lparr>size_field = 0, address = 0\<rparr>,
     interrupt = replicate 16 0, ports = Init_8259A cold_io\<rparr>"

lemma cold_idt_ok:
  "length (idt cold_idt) = IDTNUM" "expected (master (ports cold_idt)) = []"
  "expected (slave (ports cold_idt)) = []" "\<not> int_flag (ports cold_idt)"
  by (simp_all add: cold_idt_def Init_8259A_def cold_io_def port_defs layout master_def slave_def
      pic_event_def Let_def)

theorem irq_start_safe_witness:
  "\<not> deliverable (run_steps (take 2 (irq_start_steps (\<lambda>_. 0x200100) data_sheet 0x205000)) cold_idt) 1"
  using irq_start_safe [OF masks_readable_data_sheet cold_idt_ok, of 1 "\<lambda>_. 0x200100" "0x205000" 2]
  by simp

end
