(* ===== verification/CString.thy ===== *)
theory CString
  imports Prelude
begin

text \<open>
  The byte-string library \<^verbatim>\<open>src/lib/string.c\<close> over the byte-addressed memory. Pointers
  are 32-bit words and step by one modulo the address space; \<^verbatim>\<open>size_t\<close> and \<^verbatim>\<open>int\<close>
  counters are 32-bit words. The loops of \<^verbatim>\<open>strlen\<close> and \<^verbatim>\<open>strcmp\<close> have no bound of
  their own, so they are partial functions into \<^verbatim>\<open>option\<close>: \<^verbatim>\<open>None\<close> means the loop
  never ends. \<^verbatim>\<open>memcpy\<close> and \<^verbatim>\<open>memset\<close> return their first argument unchanged, which
  no caller uses; the model returns the memory.
\<close>

section \<open>The functions\<close>

function memcpy_loop :: "bmem \<Rightarrow> u32 \<Rightarrow> u32 \<Rightarrow> u32 \<Rightarrow> bmem" where
  "memcpy_loop m tmp s len =
     (if len \<noteq> 0 then memcpy_loop (m(tmp := m s)) (tmp + 1) (s + 1) (len - 1) else m)"
  by pat_completeness auto
termination
  by (relation "measure (\<lambda>(m, tmp, s, len). unat len)") (auto simp: measure_unat)

declare memcpy_loop.simps [simp del]

definition memcpy :: "bmem \<Rightarrow> u32 \<Rightarrow> u32 \<Rightarrow> u32 \<Rightarrow> bmem" where
  "memcpy m dst src len = memcpy_loop m dst src len"

partial_function (option) strlen_loop :: "bmem \<Rightarrow> u32 \<Rightarrow> u32 \<Rightarrow> u32 option" where
  "strlen_loop m tmp i = (if m tmp \<noteq> 0 then strlen_loop m (tmp + 1) (i + 1) else Some i)"

definition strlen :: "bmem \<Rightarrow> u32 \<Rightarrow> u32 option" where
  "strlen m str = strlen_loop m str 0"

text \<open>
  The guard \<^verbatim>\<open>*str1++ == *str2++\<close> steps both pointers whether or not it holds, and the
  characters are signed: the result is the difference of the bytes after the last pair
  compared.
\<close>

definition char_diff :: "bmem \<Rightarrow> u32 \<Rightarrow> u32 \<Rightarrow> int" where
  "char_diff m str1 str2 = sint (m str1) - sint (m str2)"

partial_function (option) strcmp_loop :: "bmem \<Rightarrow> u32 \<Rightarrow> u32 \<Rightarrow> int option" where
  "strcmp_loop m str1 str2 =
     (if m str1 = m str2
      then if m (str1 + 1) = 0 then Some (char_diff m (str1 + 1) (str2 + 1))
           else strcmp_loop m (str1 + 1) (str2 + 1)
      else Some (char_diff m (str1 + 1) (str2 + 1)))"

definition strcmp :: "bmem \<Rightarrow> u32 \<Rightarrow> u32 \<Rightarrow> int option" where
  "strcmp m str1 str2 = strcmp_loop m str1 str2"

function memset_loop :: "bmem \<Rightarrow> u32 \<Rightarrow> u32 \<Rightarrow> u32 \<Rightarrow> u32 \<Rightarrow> bmem" where
  "memset_loop m tmp ch i n =
     (if i < n then memset_loop (m(tmp := ucast ch)) (tmp + 1) ch (i + 1) n else m)"
  by pat_completeness auto
termination
  by (relation "measure (\<lambda>(m, tmp, ch, i, n). unat n - unat i)")
    (auto simp: word_less_nat_alt unat_succ_below intro!: diff_less_mono2)

declare memset_loop.simps [simp del]

definition memset :: "bmem \<Rightarrow> u32 \<Rightarrow> u32 \<Rightarrow> u32 \<Rightarrow> bmem" where
  "memset m str ch n = memset_loop m str ch 0 n"

section \<open>Block copy and fill\<close>

lemma unat_diff_Suc:
  "x \<noteq> d \<Longrightarrow> unat (x - (d + 1) :: u32) = unat (x - d) - 1"
  using unat_minus_one [of "x - d"] by (simp add: algebra_simps)

lemma unat_minus_self_one: "unat ((d :: u32) - (d + 1)) = 4294967295"
  by (simp add: unsigned_minus_1_eq_mask mask_eq_exp_minus_1)

text \<open>
  A forward byte copy is a block move when the regions coincide or the destination does not
  start inside the part of the source still to be read.
\<close>

lemma memcpy_loop_apply:
  assumes "d = s \<or> unat len \<le> unat (d - s)"
  shows "memcpy_loop m d s len x = (if unat (x - d) < unat len then m (s + (x - d)) else m x)"
  using assms
proof (induction m d s len rule: memcpy_loop.induct)
  case (1 m d s len)
  show ?case
  proof (cases "len = 0")
    case True
    then show ?thesis by (subst memcpy_loop.simps) simp
  next
    case False
    then have len: "unat (len - 1) = unat len - 1" "0 < unat len"
      by (simp_all add: unat_minus_one unat_gt_0)
    have IH: "memcpy_loop (m(d := m s)) (d + 1) (s + 1) (len - 1) x =
        (if unat (x - (d + 1)) < unat len - 1 then (m(d := m s)) (s + 1 + (x - (d + 1)))
         else (m(d := m s)) x)"
      by (subst "1.IH" [OF False]) (use "1.prems" len in auto)
    show ?thesis
    proof (cases "x = d")
      case True
      then show ?thesis
        using IH len unat_u32_bound [of len] False
        by (simp add: memcpy_loop.simps [of m d s len] unat_minus_self_one)
    next
      case ne: False
      have shift: "s + 1 + (x - (d + 1)) = s + (x - d)"
        by (simp add: algebra_simps)
      have "s + (x - d) \<noteq> d" if "unat (x - d) < unat len"
      proof
        assume "s + (x - d) = d"
        then have "x - d = d - s" by (simp add: algebra_simps)
        with that "1.prems" ne show False by auto
      qed
      moreover have "0 < unat (x - d)"
        using ne by (simp add: unat_gt_0)
      ultimately show ?thesis
        using IH [unfolded unat_diff_Suc [OF ne] shift] ne len False
        by (auto simp: memcpy_loop.simps [of m d s len])
    qed
  qed
qed

lemma memcpy_apply:
  "d = s \<or> unat len \<le> unat (d - s) \<Longrightarrow>
     memcpy m d s len x = (if unat (x - d) < unat len then m (s + (x - d)) else m x)"
  by (simp add: memcpy_def memcpy_loop_apply)

lemma memset_loop_apply:
  "i \<le> n \<Longrightarrow> memset_loop m p ch i n x =
     (if unat (x - p) < unat n - unat i then ucast ch else m x)"
proof (induction m p ch i n rule: memset_loop.induct)
  case (1 m p ch i n)
  show ?case
  proof (cases "i < n")
    case False
    with "1.prems" show ?thesis
      by (subst memset_loop.simps) simp
  next
    case True
    then have i: "unat (i + 1) = unat i + 1" "unat i < unat n"
      using unat_succ_below [OF True] by (simp_all add: word_less_nat_alt)
    then have "i + 1 \<le> n"
      by (simp add: word_le_nat_alt)
    then have IH: "memset_loop (m(p := ucast ch)) (p + 1) ch (i + 1) n x =
        (if unat (x - (p + 1)) < unat n - (unat i + 1) then ucast ch else (m(p := ucast ch)) x)"
      by (subst "1.IH" [OF True]) (use i in auto)
    show ?thesis
    proof (cases "x = p")
      case True
      then show ?thesis
        using IH i \<open>i < n\<close> by (simp add: memset_loop.simps [of m p ch i n])
    next
      case ne: False
      then have "0 < unat (x - p)"
        by (simp add: unat_gt_0)
      then show ?thesis
        using IH i ne \<open>i < n\<close>
        by (auto simp: memset_loop.simps [of m p ch i n] unat_diff_Suc)
    qed
  qed
qed

lemma memset_apply:
  "memset m p ch n x = (if unat (x - p) < unat n then ucast ch else m x)"
  by (simp add: memset_def memset_loop_apply)

section \<open>Zero-terminated strings\<close>

text \<open>The bytes \<^verbatim>\<open>bs\<close>, none of them zero, stand at \<^verbatim>\<open>p\<close> and a zero byte follows.\<close>

fun cstr :: "bmem \<Rightarrow> u32 \<Rightarrow> u8 list \<Rightarrow> bool" where
  "cstr m p [] = (m p = 0)"
| "cstr m p (b # bs) = (b \<noteq> 0 \<and> m p = b \<and> cstr m (p + 1) bs)"

lemma cstr_append:
  "cstr m p (bs @ cs) \<longleftrightarrow>
     (\<forall>b \<in> set bs. b \<noteq> 0) \<and> (\<forall>i < length bs. m (p + of_nat i) = bs ! i)
       \<and> cstr m (p + of_nat (length bs)) cs"
proof (induction bs arbitrary: p)
  case Nil
  then show ?case by simp
next
  case (Cons b bs)
  have "(\<forall>i < length (b # bs). m (p + of_nat i) = (b # bs) ! i) \<longleftrightarrow>
      m p = b \<and> (\<forall>i < length bs. m (p + 1 + of_nat i) = bs ! i)"
    by (auto simp: less_Suc_eq_0_disj add.assoc)
  with Cons show ?case
    by (auto simp: add.assoc add.commute [of 1])
qed

lemma cstr_nth: "cstr m p bs \<Longrightarrow> i < length bs \<Longrightarrow> m (p + of_nat i) = bs ! i \<and> bs ! i \<noteq> 0"
  using cstr_append [of m p bs "[]"] by simp

lemma cstr_end: "cstr m p bs \<Longrightarrow> m (p + of_nat (length bs)) = 0"
  using cstr_append [of m p bs "[]"] by simp

lemma cstr_cong:
  "cstr m p bs \<Longrightarrow> (\<And>i. i \<le> length bs \<Longrightarrow> m' (p + of_nat i) = m (p + of_nat i)) \<Longrightarrow> cstr m' p bs"
proof (induction bs arbitrary: p)
  case Nil
  then show ?case using Nil.prems(2) [of 0] by simp
next
  case (Cons b bs)
  have "cstr m' (p + 1) bs"
  proof (rule Cons.IH)
    show "cstr m (p + 1) bs" using Cons.prems(1) by simp
    show "m' (p + 1 + of_nat i) = m (p + 1 + of_nat i)" if "i \<le> length bs" for i
      using Cons.prems(2) [of "Suc i"] that by (simp add: add.assoc)
  qed
  then show ?case
    using Cons.prems(1) Cons.prems(2) [of 0] by simp
qed

lemma strlen_loop_cstr:
  "cstr m p bs \<Longrightarrow> strlen_loop m p i = Some (i + of_nat (length bs))"
proof (induction bs arbitrary: p i)
  case Nil
  then show ?case by (simp add: strlen_loop.simps)
next
  case (Cons b bs)
  then have "strlen_loop m p i = strlen_loop m (p + 1) (i + 1)"
    by (subst strlen_loop.simps) simp
  with Cons show ?case by (simp add: algebra_simps)
qed

lemma strlen_cstr: "cstr m p bs \<Longrightarrow> strlen m p = Some (of_nat (length bs))"
  by (simp add: strlen_def strlen_loop_cstr)

lemma cstr_exists:
  assumes "m (p + of_nat n) = 0"
  shows "\<exists>bs. cstr m p bs \<and> length bs \<le> n"
  using assms
proof (induction n arbitrary: p)
  case 0
  then have "cstr m p [] \<and> length [] \<le> (0 :: nat)" by simp
  then show ?case by (rule exI)
next
  case (Suc n)
  show ?case
  proof (cases "m p = 0")
    case True
    then have "cstr m p [] \<and> length [] \<le> Suc n" by simp
    then show ?thesis by (rule exI)
  next
    case False
    from Suc.prems have "m (p + 1 + of_nat n) = 0" by (simp add: algebra_simps)
    from Suc.IH [OF this] obtain bs where "cstr m (p + 1) bs" "length bs \<le> n" by blast
    with False have "cstr m p (m p # bs) \<and> length (m p # bs) \<le> Suc n" by simp
    then show ?thesis by (rule exI)
  qed
qed

lemma strlen_loop_returns_zero:
  assumes "strlen_loop m p i = Some r"
  shows "\<exists>q. m q = 0"
proof (rule strlen_loop.raw_induct [where P = "\<lambda>m p i r. \<exists>q. m q = 0", OF _ assms])
  fix f m p i r
  assume IH: "\<And>m p i r. f m p i = Some r \<Longrightarrow> \<exists>q. m q = 0"
    and eq: "(if m p \<noteq> 0 then f m (p + 1) (i + 1) else Some i) = Some r"
  then show "\<exists>q. m q = 0"
    by (cases "m p = 0") auto
qed

text \<open>
  \<^verbatim>\<open>strcmp\<close> stops at the first position \<^verbatim>\<open>k\<close> whose bytes differ or after which the
  first string ends, and reads the pair behind it.
\<close>

lemma strcmp_loop_stops:
  assumes "\<And>j. j < k \<Longrightarrow> m (p + of_nat j) = m (q + of_nat j) \<and> m (p + of_nat (Suc j)) \<noteq> 0"
    and "m (p + of_nat k) \<noteq> m (q + of_nat k) \<or> m (p + of_nat (Suc k)) = 0"
  shows "strcmp_loop m p q = Some (char_diff m (p + of_nat (Suc k)) (q + of_nat (Suc k)))"
  using assms
proof (induction k arbitrary: p q)
  case 0
  then show ?case by (subst strcmp_loop.simps) auto
next
  case (Suc k)
  have "strcmp_loop m (p + 1) (q + 1)
      = Some (char_diff m (p + 1 + of_nat (Suc k)) (q + 1 + of_nat (Suc k)))"
  proof (rule Suc.IH)
    show "m (p + 1 + of_nat j) = m (q + 1 + of_nat j) \<and> m (p + 1 + of_nat (Suc j)) \<noteq> 0"
      if "j < k" for j
      using that Suc.prems(1) [of "Suc j"] by (simp add: algebra_simps)
    show "m (p + 1 + of_nat k) \<noteq> m (q + 1 + of_nat k) \<or> m (p + 1 + of_nat (Suc k)) = 0"
      using Suc.prems(2) by (simp add: algebra_simps)
  qed
  then show ?case
    using Suc.prems(1) [of 0] by (subst strcmp_loop.simps) (simp add: algebra_simps)
qed

lemma strcmp_loop_common_prefix:
  assumes "cstr m p (us @ xs)" and "cstr m q (us @ ys)" and "xs \<noteq> []"
  shows "strcmp_loop m p q = strcmp_loop m (p + of_nat (length us)) (q + of_nat (length us))"
  using assms
proof (induction us arbitrary: p q)
  case Nil
  then show ?case by simp
next
  case (Cons u us)
  have "m (p + 1) \<noteq> 0"
    using Cons.prems by (cases us; cases xs) auto
  with Cons.prems have "strcmp_loop m p q = strcmp_loop m (p + 1) (q + 1)"
    by (subst strcmp_loop.simps) simp
  with Cons show ?case by (simp add: algebra_simps)
qed

section \<open>Properties\<close>

text \<open>
  \<^verbatim>\<open>memcpy\<close> is a block move: when the regions coincide or the destination does not
  start within the source, every byte of the destination receives the source byte at the same
  offset and no other byte of memory changes.
\<close>

lemma memcpy_moves_block:
  assumes "dst = src \<or> unat len \<le> unat (dst - src)"
  shows "(\<forall>i. unat i < unat len \<longrightarrow> memcpy m dst src len (dst + i) = m (src + i))
    \<and> (\<forall>x. unat len \<le> unat (x - dst) \<longrightarrow> memcpy m dst src len x = m x)"
  using assms by (simp add: memcpy_apply)

text \<open>
  C32. \<^verbatim>\<open>strlen\<close> returns exactly when some byte of memory is zero (its loop has no other
  bound), and on a zero-terminated string it returns the number of bytes before the zero.
\<close>

theorem strlen_terminates_iff:
  "((\<exists>r. strlen m p = Some r) \<longleftrightarrow> (\<exists>q. m q = 0))
    \<and> (\<forall>bs. cstr m p bs \<longrightarrow> strlen m p = Some (of_nat (length bs)))"
proof -
  have "\<exists>r. strlen m p = Some r" if "m q = 0" for q
  proof -
    have "m (p + of_nat (unat (q - p))) = 0"
      using that by simp
    then show ?thesis
      using cstr_exists strlen_cstr by blast
  qed
  then show ?thesis
    using strlen_loop_returns_zero [of m p 0] strlen_cstr by (auto simp: strlen_def)
qed

theorem strlen_terminates_iff_witness:
  "strlen (\<lambda>a. if a \<in> {4, 5} then 65 else 0) 4 = Some 2"
  using strlen_terminates_iff [THEN conjunct2, rule_format,
      of "\<lambda>a. if a \<in> {4, 5} then 65 else 0" 4 "[65, 65]"] by simp

text \<open>
  \<^verbatim>\<open>strcmp\<close> answers 0 on two equal non-empty strings, and returns.
\<close>

lemma strcmp_equal:
  assumes "cstr m p bs" and "cstr m q bs" and "bs \<noteq> []"
  shows "strcmp m p q = Some 0"
proof -
  obtain cs b where bs: "bs = cs @ [b]"
    using assms(3) by (cases bs rule: rev_cases) auto
  let ?n = "of_nat (length cs) :: u32"
  have "strcmp_loop m p q = strcmp_loop m (p + ?n) (q + ?n)"
    using assms bs by (intro strcmp_loop_common_prefix) auto
  moreover have "m (p + ?n) = m (q + ?n)" "m (p + ?n + 1) = 0" "m (q + ?n + 1) = 0"
    using assms bs by (auto simp: cstr_append)
  ultimately show ?thesis
    by (simp add: strcmp_def strcmp_loop.simps [of m "p + ?n"] char_diff_def)
qed

text \<open>
  \<^verbatim>\<open>strcmp\<close> answers 0 on some different strings: a first difference in one position
  is lost when the next bytes agree, because the result is computed after the pointers have
  stepped past it.
\<close>

lemma strcmp_misses_difference:
  assumes "cstr m p (us @ a # c # vs)" and "cstr m q (us @ b # c # ws)" and "a \<noteq> b"
  shows "strcmp m p q = Some 0"
proof -
  let ?n = "of_nat (length us) :: u32"
  have "strcmp_loop m p q = strcmp_loop m (p + ?n) (q + ?n)"
    using assms by (intro strcmp_loop_common_prefix) auto
  moreover have "m (p + ?n) = a" "m (q + ?n) = b" "m (p + ?n + 1) = m (q + ?n + 1)"
    using assms by (auto simp: cstr_append)
  ultimately show ?thesis
    using assms(3) by (simp add: strcmp_def strcmp_loop.simps [of m "p + ?n"] char_diff_def)
qed

end
