(* ===== verification/Block.thy ===== *)
theory Block
  imports CString
begin

text \<open>
  The interface between the file system and the disk driver: a store of 512-byte sectors and a
  byte memory, and two operations that move one sector between them. \<^verbatim>\<open>Hd\<close> interprets the
  locale on \<^verbatim>\<open>hd_read\<close> and \<^verbatim>\<open>hd_write\<close>; \<^verbatim>\<open>Fs\<close> uses its facts. The theory also holds
  the counting loop over sectors and the runs of bytes both sides speak about.
\<close>

section \<open>Runs of bytes\<close>

fun put_bytes :: "bmem \<Rightarrow> u32 \<Rightarrow> u8 list \<Rightarrow> bmem" where
  "put_bytes m a [] = m"
| "put_bytes m a (b # bs) = put_bytes (m(a := b)) (a + 1) bs"

definition bytes_at :: "bmem \<Rightarrow> u32 \<Rightarrow> nat \<Rightarrow> u8 list" where
  "bytes_at m a n = map (\<lambda>i. m (a + of_nat i)) [0..<n]"

lemma length_bytes_at [simp]: "length (bytes_at m a n) = n"
  by (simp add: bytes_at_def)

lemma bytes_at_nth [simp]: "i < n \<Longrightarrow> bytes_at m a n ! i = m (a + of_nat i)"
  by (simp add: bytes_at_def)

lemma bytes_at_cong:
  "(\<And>i. i < n \<Longrightarrow> m (a + of_nat i) = m' (a' + of_nat i)) \<Longrightarrow> bytes_at m a n = bytes_at m' a' n"
  by (simp add: bytes_at_def)

lemma put_bytes_apply:
  "length bs \<le> 4294967295 \<Longrightarrow>
     put_bytes m a bs x = (if unat (x - a) < length bs then bs ! unat (x - a) else m x)"
proof (induction bs arbitrary: m a)
  case Nil
  then show ?case by simp
next
  case (Cons b bs)
  show ?case
  proof (cases "x = a")
    case True
    then have "\<not> unat (x - (a + 1)) < length bs"
      using Cons.prems unat_minus_self_one [of a] by simp
    with True Cons show ?thesis by simp
  next
    case False
    then have "0 < unat (x - a)"
      by (simp add: unat_gt_0)
    then obtain k where "unat (x - a) = Suc k"
      using gr0_conv_Suc by blast
    with False Cons show ?thesis
      by (simp add: unat_diff_Suc)
  qed
qed

lemma put_bytes_self [simp]:
  "length bs \<le> 4294967295 \<Longrightarrow> i < length bs \<Longrightarrow> put_bytes m a bs (a + of_nat i) = bs ! i"
  by (simp add: put_bytes_apply)

lemma bytes_at_put_bytes [simp]:
  "length bs \<le> 4294967295 \<Longrightarrow> n = length bs \<Longrightarrow> bytes_at (put_bytes m a bs) a n = bs"
  by (rule nth_equalityI) simp_all

text \<open>Two spans of memory do not overlap.\<close>

definition disjoint_spans :: "u32 \<Rightarrow> nat \<Rightarrow> u32 \<Rightarrow> nat \<Rightarrow> bool" where
  "disjoint_spans a n b k \<longleftrightarrow> n \<le> unat (b - a) \<and> k \<le> unat (a - b)"

lemma disjoint_spans_sym: "disjoint_spans a n b k \<Longrightarrow> disjoint_spans b k a n"
  by (auto simp: disjoint_spans_def)

lemma disjoint_spans_outside:
  assumes "disjoint_spans a n b k" and "i < k"
  shows "n \<le> unat (b + of_nat i - a)"
proof -
  have "a \<noteq> b"
    using assms by (auto simp: disjoint_spans_def)
  then have "unat a \<noteq> unat b"
    by (simp add: word_unat_eq_iff)
  moreover have "unat (x - y) = (if unat y \<le> unat x then unat x - unat y else unat x + 4294967296 - unat y)"
    for x y :: u32
    using unat_sub_if_size [of x y] by (simp add: word_size)
  moreover have "p \<noteq> q \<Longrightarrow> p < 4294967296 \<Longrightarrow> q < 4294967296 \<Longrightarrow>
      (if q \<le> p then p - q else p + 4294967296 - q)
        + (if p \<le> q then q - p else q + 4294967296 - p) = 4294967296" for p q :: nat
    by auto
  ultimately have "unat (a - b) + unat (b - a) = 4294967296"
    using unat_u32_bound by presburger
  then have "unat (b - a) + i < 4294967296"
    using assms by (auto simp: disjoint_spans_def)
  then have "unat (b - a + of_nat i) = unat (b - a) + i"
    using unat_add_no_wrap [of "b - a" i] by simp
  moreover have eq: "b + of_nat i - a = b - a + of_nat i"
    by simp
  ultimately show ?thesis
    unfolding eq using assms(1) by (simp add: disjoint_spans_def)
qed

text \<open>Two memories differ at most in the 512 bytes from \<^verbatim>\<open>b\<close> on.\<close>

definition same_but :: "u32 \<Rightarrow> bmem \<Rightarrow> bmem \<Rightarrow> bool" where
  "same_but b m m' \<longleftrightarrow> (\<forall>x. 512 \<le> unat (x - b) \<longrightarrow> m' x = m x)"

lemma same_but_refl [simp]: "same_but b m m"
  by (simp add: same_but_def)

lemma same_but_put_bytes:
  "same_but b m m' \<Longrightarrow> length bs = 512 \<Longrightarrow> same_but b m (put_bytes m' b bs)"
  by (simp add: same_but_def put_bytes_apply)

lemma same_but_overwrite:
  "length bs = 512 \<Longrightarrow> same_but b (put_bytes m b bs) m' \<Longrightarrow> same_but b m m'"
  by (simp add: same_but_def put_bytes_apply)

section \<open>Operations that may fail\<close>

text \<open>The operation succeeds and its result satisfies the predicate.\<close>

definition gives :: "'a outcome \<Rightarrow> ('a \<Rightarrow> bool) \<Rightarrow> bool" where
  "gives x P \<longleftrightarrow> (\<exists>a. x = Inr a \<and> P a)"

lemma gives_Inr [simp]: "gives (Inr a) P \<longleftrightarrow> P a"
  by (simp add: gives_def)

lemma gives_bind:
  "gives x P \<Longrightarrow> (\<And>a. P a \<Longrightarrow> gives (f a) Q) \<Longrightarrow> gives (bind_outcome x f) Q"
  by (auto simp: gives_def)

lemma givesE:
  assumes "gives x P"
  obtains a where "x = Inr a" and "P a"
  using assms by (auto simp: gives_def)

lemma gives_mono: "gives x P \<Longrightarrow> (\<And>a. P a \<Longrightarrow> Q a) \<Longrightarrow> gives x Q"
  by (auto simp: gives_def)

text \<open>\<^verbatim>\<open>for (; i < i + n; i++)\<close> over a body that may fail.\<close>

primrec for_up :: "nat \<Rightarrow> u32 \<Rightarrow> (u32 \<Rightarrow> 's \<Rightarrow> 's outcome) \<Rightarrow> 's \<Rightarrow> 's outcome" where
  "for_up 0 i f s = Inr s"
| "for_up (Suc n) i f s = bind_outcome (f i s) (\<lambda>s. for_up n (i + 1) f s)"

lemma for_up_gives:
  assumes "P 0 s"
    and "\<And>k s. k < n \<Longrightarrow> P k s \<Longrightarrow> gives (f (i + of_nat k) s) (P (Suc k))"
  shows "gives (for_up n i f s) (P n)"
  using assms
proof (induction n arbitrary: i s P)
  case 0
  then show ?case by simp
next
  case (Suc n)
  have first: "gives (f i s) (P (Suc 0))"
    using Suc.prems(2) [of 0 s] Suc.prems(1) by simp
  have "gives (for_up n (i + 1) f s') (P (Suc n))" if "P (Suc 0) s'" for s'
  proof (rule Suc.IH [where P = "\<lambda>k. P (Suc k)"])
    show "gives (f (i + 1 + of_nat k) t) (P (Suc (Suc k)))" if "k < n" "P (Suc k) t" for k t
      using Suc.prems(2) [of "Suc k" t] that by (simp add: algebra_simps)
  qed (rule that)
  with first show ?case
    by (simp add: gives_bind)
qed

lemma for_up_fails:
  assumes "P 0 s" and "j < n"
    and "\<And>k s. k < j \<Longrightarrow> P k s \<Longrightarrow> gives (f (i + of_nat k) s) (P (Suc k))"
    and "\<And>s. P j s \<Longrightarrow> f (i + of_nat j) s = Inl e"
  shows "for_up n i f s = Inl e"
  using assms
proof (induction n arbitrary: i j s P)
  case 0
  then show ?case by simp
next
  case (Suc n)
  show ?case
  proof (cases j)
    case 0
    then show ?thesis using Suc.prems(1,4) by simp
  next
    case j: (Suc j')
    then obtain s' where s': "f i s = Inr s'" "P (Suc 0) s'"
      using Suc.prems(3) [of 0 s] Suc.prems(1) by (auto elim: givesE)
    have "for_up n (i + 1) f s' = Inl e"
    proof (rule Suc.IH [where P = "\<lambda>k. P (Suc k)"])
      show "gives (f (i + 1 + of_nat k) t) (P (Suc (Suc k)))" if "k < j'" "P (Suc k) t" for k t
        using Suc.prems(3) [of "Suc k" t] that j by (simp add: algebra_simps)
      show "f (i + 1 + of_nat j') t = Inl e" if "P (Suc j') t" for t
        using Suc.prems(4) [of t] that j by (simp add: algebra_simps)
    qed (use s' j Suc.prems(2) in simp_all)
    with s' show ?thesis by simp
  qed
qed

section \<open>A store of sectors\<close>

text \<open>The address a 28-bit command transmits.\<close>

definition lba28 :: "u32 \<Rightarrow> nat" where
  "lba28 a = unat a mod 268435456"

lemma lba28_add: "unat a + n < 268435456 \<Longrightarrow> lba28 (a + of_nat n) = unat a + n"
  unfolding lba28_def using unat_add_no_wrap [of a n] by simp

lemma lba28_small: "unat a < 268435456 \<Longrightarrow> lba28 a = unat a"
  by (simp add: lba28_def)

text \<open>
  \<^verbatim>\<open>sees s st m\<close>: in state \<^verbatim>\<open>s\<close> the disk holds the sectors \<^verbatim>\<open>st\<close> and the memory is
  \<^verbatim>\<open>m\<close>. \<^verbatim>\<open>rd a b\<close> reads the sector at \<^verbatim>\<open>a\<close> to the buffer at \<^verbatim>\<open>b\<close>, \<^verbatim>\<open>wr a b\<close> writes
  it from there.
\<close>

locale sector_store =
  fixes sees :: "'s \<Rightarrow> (nat \<Rightarrow> u8 list) \<Rightarrow> bmem \<Rightarrow> bool"
    and rd :: "u32 \<Rightarrow> u32 \<Rightarrow> 's \<Rightarrow> 's outcome"
    and wr :: "u32 \<Rightarrow> u32 \<Rightarrow> 's \<Rightarrow> 's outcome"
  assumes sector_length: "sees s st m \<Longrightarrow> length (st k) = 512"
    and rd_sees: "sees s st m \<Longrightarrow>
      gives (rd a b s) (\<lambda>s'. sees s' st (put_bytes m b (st (lba28 a))))"
    and wr_sees: "sees s st m \<Longrightarrow>
      gives (wr a b s) (\<lambda>s'. sees s' (st(lba28 a := bytes_at m b 512)) m)"
begin

text \<open>What was written is read back.\<close>

lemma rd_after_wr:
  assumes "sees s st m"
  shows "gives (bind_outcome (wr a b s) (rd a c))
    (\<lambda>s'. sees s' (st(lba28 a := bytes_at m b 512)) (put_bytes m c (bytes_at m b 512)))"
proof (rule gives_bind [OF wr_sees [OF assms]])
  fix s'
  assume "sees s' (st(lba28 a := bytes_at m b 512)) m"
  from rd_sees [OF this, of a c]
  show "gives (rd a c s') (\<lambda>s'. sees s' (st(lba28 a := bytes_at m b 512))
      (put_bytes m c (bytes_at m b 512)))"
    by simp
qed

text \<open>The same buffer written to a run of sectors.\<close>

lemma wr_run:
  assumes "sees s st m" and "unat a + n \<le> 268435456"
  shows "gives (for_up n 0 (\<lambda>i. wr (a + i) b) s)
    (\<lambda>s'. sees s' (\<lambda>k. if unat a \<le> k \<and> k < unat a + n then bytes_at m b 512 else st k) m)"
proof (rule for_up_gives [where P = "\<lambda>j s'. sees s'
    (\<lambda>k. if unat a \<le> k \<and> k < unat a + j then bytes_at m b 512 else st k) m"])
  show "sees s (\<lambda>k. if unat a \<le> k \<and> k < unat a + 0 then bytes_at m b 512 else st k) m"
    using assms(1) by (simp add: not_le [symmetric] cong: if_cong)
  fix j s'
  assume j: "j < n" and s': "sees s' (\<lambda>k. if unat a \<le> k \<and> k < unat a + j then bytes_at m b 512 else st k) m"
  have "(\<lambda>k. if unat a \<le> k \<and> k < unat a + j then bytes_at m b 512 else st k)(lba28 (a + of_nat j) := bytes_at m b 512)
      = (\<lambda>k. if unat a \<le> k \<and> k < unat a + Suc j then bytes_at m b 512 else st k)"
    using j assms(2) by (auto simp: lba28_add fun_eq_iff)
  with wr_sees [OF s', of "a + of_nat j" b]
  show "gives (wr (a + (0 + of_nat j)) b s')
      (\<lambda>s'. sees s' (\<lambda>k. if unat a \<le> k \<and> k < unat a + Suc j then bytes_at m b 512 else st k) m)"
    by simp
qed

end

end
