(* ===== verification/Hd.thy ===== *)
theory Hd
  imports Idt Block
begin

text \<open>
  The loader's ATA disk driver, \<^verbatim>\<open>src/boot/hd.h\<close> and \<^verbatim>\<open>src/boot/hd.c\<close>. The disk answers
  as the parameter \<^verbatim>\<open>dev\<close> says, as in \<^verbatim>\<open>Pic\<close>; a second parameter \<^verbatim>\<open>irq\<close> says whether, after a
  given history of the ports, the disk raises its interrupt. The driver's loops that poll a
  status port may not end; its loop on \<^verbatim>\<open>HD.cmdnow\<close> ends only when the interrupt handler has
  run, so the model runs the handler there. The static buffer of 1024 bytes is a list, the
  caller's buffer is memory.
\<close>

section \<open>hd.h\<close>

definition COM_Data :: u16 where [layout]: "COM_Data = 0x1f0"
definition COM_Features :: u16 where [layout]: "COM_Features = 0x1f1"
definition COM_Sector_Count :: u16 where [layout]: "COM_Sector_Count = 0x1f2"
definition COM_LBA_L :: u16 where [layout]: "COM_LBA_L = 0x1f3"
definition COM_LBA_M :: u16 where [layout]: "COM_LBA_M = 0x1f4"
definition COM_LBA_H :: u16 where [layout]: "COM_LBA_H = 0x1f5"
definition COM_Device :: u16 where [layout]: "COM_Device = 0x1f6"
definition COM_Status :: u16 where [layout]: "COM_Status = 0x1f7"
definition COM_Command :: u16 where [layout]: "COM_Command = COM_Status"
definition CTR_DEV_Control :: u16 where [layout]: "CTR_DEV_Control = 0x3f6"

definition ATA_identify :: u8 where [layout]: "ATA_identify = 0xec"
definition ATA_read :: u8 where [layout]: "ATA_read = 0x20"
definition ATA_write :: u8 where [layout]: "ATA_write = 0x30"
definition ATA_none :: u8 where [layout]: "ATA_none = 0"

definition REG_Drive :: "u32 \<Rightarrow> u32 \<Rightarrow> u32 \<Rightarrow> u32" where
  "REG_Drive lba drv lba_H = (push_bit 6 lba OR push_bit 4 drv OR (lba_H AND 0xf)) OR 0xa0"

record hd_cmd =
  features :: u8
  sector_count :: u8
  LBA_low :: u8
  LBA_mid :: u8
  LBA_hig :: u8
  device_reg :: u8
  command :: u8

text \<open>\<^verbatim>\<open>handler\<close> holds the name of the function it points to; nothing calls it.\<close>

record hd_status =
  cmdnow :: u32
  handler :: string
  buf :: u32
  bufsize :: u32
  port :: u32
  sectorcnt :: u32
  hdbuf :: "u8 list"

record hd_state =
  wire :: io
  HD :: hd_status
  dram :: bmem

definition HDBUF_SIZE :: nat where [layout]: "HDBUF_SIZE = 1024"

section \<open>Words and bytes\<close>

definition bytes_of_words :: "u16 list \<Rightarrow> u8 list" where
  "bytes_of_words ws = concat (map (\<lambda>w. [ucast w, ucast (drop_bit 8 w)]) ws)"

definition word_of_bytes :: "u8 \<Rightarrow> u8 \<Rightarrow> u16" where
  "word_of_bytes lo hi = ucast lo OR push_bit 8 (ucast hi)"

section \<open>hd.c\<close>

partial_function (option) wait_idle :: "device \<Rightarrow> io \<Rightarrow> io option" where
  "wait_idle dev w =
     (let (v, w) = inb_pic dev 0x1f7 w in if 0x80 \<le> v then wait_idle dev w else Some w)"

partial_function (option) wait_data :: "device \<Rightarrow> io \<Rightarrow> io option" where
  "wait_data dev w =
     (let (v, w) = inb_pic dev COM_Status w in if v AND 8 = 0 then wait_data dev w else Some w)"

text \<open>\<^verbatim>\<open>rep insw\<close> and \<^verbatim>\<open>rep outsw\<close>.\<close>

primrec insw :: "nat \<Rightarrow> device \<Rightarrow> u16 \<Rightarrow> io \<Rightarrow> u16 list \<times> io" where
  "insw 0 dev p w = ([], w)"
| "insw (Suc n) dev p w =
     (let (v, w) = inw dev p w; (vs, w) = insw n dev p w in (v # vs, w))"

primrec outsw :: "nat \<Rightarrow> bmem \<Rightarrow> u32 \<Rightarrow> u16 \<Rightarrow> io \<Rightarrow> io" where
  "outsw 0 m a p w = w"
| "outsw (Suc n) m a p w = outsw n m (a + 2) p (outw (word_of_bytes (m a) (m (a + 1))) p w)"

definition port_read :: "device \<Rightarrow> u8 list \<Rightarrow> u32 \<Rightarrow> u32 \<Rightarrow> io \<Rightarrow> (u8 list \<times> io) outcome" where
  "port_read dev b p len w =
     (let n = unat (drop_bit 1 len) in
      if 2 * n \<le> length b
      then let (ws, w) = insw n dev (ucast p) w in Inr (bytes_of_words ws @ drop (2 * n) b, w)
      else Inl Out_Of_Bounds)"

definition port_write :: "bmem \<Rightarrow> u32 \<Rightarrow> u32 \<Rightarrow> u32 \<Rightarrow> io \<Rightarrow> io" where
  "port_write m b p len w = outsw (unat (drop_bit 1 len)) m b (ucast p) w"

definition hd_cmd_out :: "device \<Rightarrow> hd_cmd \<Rightarrow> io \<Rightarrow> io outcome" where
  "hd_cmd_out dev c w =
     bind_outcome (returns (wait_idle dev w)) (\<lambda>w.
       let w = outb_pic 0 CTR_DEV_Control w;
           w = outb_pic (features c) COM_Features w;
           w = outb_pic (sector_count c) COM_Sector_Count w;
           w = outb_pic (LBA_low c) COM_LBA_L w;
           w = outb_pic (LBA_mid c) COM_LBA_M w;
           w = outb_pic (LBA_hig c) COM_LBA_H w;
           w = outb_pic (device_reg c) COM_Device w
       in Inr (outb_pic (command c) COM_Command w))"

definition hd_handler :: "device \<Rightarrow> hd_state \<Rightarrow> hd_state outcome" where
  "hd_handler dev s =
     bind_outcome
       (if cmdnow (HD s) = ucast ATA_identify \<or> cmdnow (HD s) = ucast ATA_read
        then bind_outcome (port_read dev (hdbuf (HD s)) (port (HD s)) (bufsize (HD s)) (wire s))
               (\<lambda>(b, w). Inr (s\<lparr>HD := (HD s)\<lparr>hdbuf := b\<rparr>, wire := w\<rparr>))
        else Inr s)
       (\<lambda>s. Inr (s\<lparr>HD := (HD s)\<lparr>cmdnow := ucast ATA_none\<rparr>, wire := EOI_slave (wire s)\<rparr>))"

text \<open>
  The stub around it, \<^verbatim>\<open>interrupt_master(14)\<close> of \<^verbatim>\<open>src/boot/interrupt.c\<close>: it masks the
  line by the low byte of \<^verbatim>\<open>1 << irq\<close> (zero for line 14), acknowledges the first controller,
  calls the registered function and unmasks.
\<close>

definition interrupt_enter :: "device \<Rightarrow> u32 \<Rightarrow> io \<Rightarrow> io" where
  "interrupt_enter dev irq w =
     (let (al, w) = inb dev 0x21 w;
          w = outb (al OR ucast (shl32 1 irq)) 0x21 w;
          w = outb 0x20 0x20 w
      in sti w)"

definition interrupt_leave :: "device \<Rightarrow> u32 \<Rightarrow> io \<Rightarrow> io" where
  "interrupt_leave dev irq w =
     (let w = cli w;
          (al, w) = inb dev 0x21 w;
          w = outb (al AND ucast (NOT (shl32 1 irq))) 0x21 w
      in sti w)"

definition irq14_handler :: "device \<Rightarrow> hd_state \<Rightarrow> hd_state outcome" where
  "irq14_handler dev s =
     bind_outcome (hd_handler dev (s\<lparr>wire := interrupt_enter dev 14 (wire s)\<rparr>))
       (\<lambda>s. Inr (s\<lparr>wire := interrupt_leave dev 14 (wire s)\<rparr>))"

text \<open>
  \<^verbatim>\<open>while (HD.cmdnow == cmd.command)\<close>: only the handler changes \<^verbatim>\<open>cmdnow\<close>.
\<close>

definition await :: "device \<Rightarrow> (history \<Rightarrow> bool) \<Rightarrow> u8 \<Rightarrow> hd_state \<Rightarrow> hd_state outcome" where
  "await dev irq c s =
     (if cmdnow (HD s) = ucast c
      then if int_flag (wire s) \<and> irq (history (wire s)) then irq14_handler dev s else Inl No_Return
      else Inr s)"

text \<open>\<^verbatim>\<open>memcpy(buf, HD.hdbuf, HD.bufsize)\<close>.\<close>

definition copy_hdbuf :: "hd_state \<Rightarrow> u32 \<Rightarrow> hd_state outcome" where
  "copy_hdbuf s b =
     (if unat (bufsize (HD s)) \<le> length (hdbuf (HD s))
      then Inr (s\<lparr>dram := put_bytes (dram s) b (take (unat (bufsize (HD s))) (hdbuf (HD s)))\<rparr>)
      else Inl Out_Of_Bounds)"

definition lba_cmd :: "u32 \<Rightarrow> u32 \<Rightarrow> u8 \<Rightarrow> hd_cmd" where
  "lba_cmd LBA cnt c =
     \<lparr>features = 0, sector_count = ucast cnt, LBA_low = ucast (LBA AND 0xff),
      LBA_mid = ucast (drop_bit 8 LBA AND 0xff), LBA_hig = ucast (drop_bit 16 LBA AND 0xff),
      device_reg = ucast (REG_Drive 1 0 (drop_bit 24 LBA AND 0xf)), command = c\<rparr>"

definition hd_read :: "device \<Rightarrow> (history \<Rightarrow> bool) \<Rightarrow> u32 \<Rightarrow> u32 \<Rightarrow> u32 \<Rightarrow> hd_state \<Rightarrow> hd_state outcome" where
  "hd_read dev irq LBA cnt b s =
     (let c = lba_cmd LBA cnt ATA_read;
          s = s\<lparr>HD := (HD s)\<lparr>buf := b, cmdnow := ucast (command c), handler := ''port_read'',
                sectorcnt := cnt, port := ucast COM_Data, bufsize := cnt * 512\<rparr>\<rparr>
      in bind_outcome (hd_cmd_out dev c (wire s)) (\<lambda>w.
      bind_outcome (await dev irq (command c) (s\<lparr>wire := (io_delay ^^ 1000) w\<rparr>)) (\<lambda>s.
      copy_hdbuf s b)))"

definition hd_write :: "device \<Rightarrow> (history \<Rightarrow> bool) \<Rightarrow> u32 \<Rightarrow> u32 \<Rightarrow> u32 \<Rightarrow> hd_state \<Rightarrow> hd_state outcome" where
  "hd_write dev irq LBA cnt b s =
     (let c = lba_cmd LBA cnt ATA_write;
          s = s\<lparr>HD := (HD s)\<lparr>buf := b, cmdnow := ucast (command c), handler := ''port_write'',
                port := ucast COM_Data, bufsize := cnt * 512\<rparr>\<rparr>
      in bind_outcome (hd_cmd_out dev c (wire s)) (\<lambda>w.
      bind_outcome (returns (wait_data dev w)) (\<lambda>w.
      let w = port_write (dram s) (buf (HD s)) (port (HD s)) (bufsize (HD s)) w
      in await dev irq (command c) (s\<lparr>wire := w\<rparr>))))"

text \<open>
  \<^verbatim>\<open>hd_identify\<close> sets two fields of its command only: the others are whatever the stack
  holds. Its buffer is local.
\<close>

definition hd_identify :: "device \<Rightarrow> (history \<Rightarrow> bool) \<Rightarrow> hd_cmd \<Rightarrow> u32 \<Rightarrow> hd_state \<Rightarrow> hd_state outcome" where
  "hd_identify dev irq stack b s =
     (let c = stack\<lparr>device_reg := ucast (REG_Drive 1 0 0), command := ATA_identify\<rparr>;
          s = s\<lparr>HD := (HD s)\<lparr>buf := b, cmdnow := ucast (command c), handler := ''port_read'',
                bufsize := 512, port := ucast COM_Data, sectorcnt := 1\<rparr>\<rparr>
      in bind_outcome (hd_cmd_out dev c (wire s)) (\<lambda>w.
      bind_outcome (await dev irq (command c) (s\<lparr>wire := w\<rparr>)) (\<lambda>s.
      copy_hdbuf s b)))"

section \<open>What the ATA standard says of the disk\<close>

text \<open>
  The last value written to a port; the command in progress: its code, the history at the write
  of the command register and the number of data words read and the words written since.
\<close>

fun last_out :: "history \<Rightarrow> u16 \<Rightarrow> u8" where
  "last_out [] p = 0"
| "last_out (Out8 q v # h) p = (if q = p then v else last_out h p)"
| "last_out (_ # h) p = last_out h p"

fun ata_cmd :: "history \<Rightarrow> (u8 \<times> history \<times> nat \<times> u16 list) option" where
  "ata_cmd [] = None"
| "ata_cmd (Out8 q v # h) = (if q = 0x1f7 then Some (v, h, 0, []) else ata_cmd h)"
| "ata_cmd (In16 q # h) =
     (if q = 0x1f0 then map_option (\<lambda>(c, h', n, ws). (c, h', Suc n, ws)) (ata_cmd h) else ata_cmd h)"
| "ata_cmd (Out16 q v # h) =
     (if q = 0x1f0 then map_option (\<lambda>(c, h', n, ws). (c, h', n, ws @ [v])) (ata_cmd h) else ata_cmd h)"
| "ata_cmd (_ # h) = ata_cmd h"

text \<open>
  What the task file registers hold: the address, in 28-bit mode on the first drive.
\<close>

definition ata_lba :: "history \<Rightarrow> nat" where
  "ata_lba h = unat (last_out h 0x1f3) + 256 * unat (last_out h 0x1f4)
     + 65536 * unat (last_out h 0x1f5) + 16777216 * unat (last_out h 0x1f6 AND 0xf)"

definition lba_mode :: "history \<Rightarrow> bool" where
  "lba_mode h \<longleftrightarrow> bit (last_out h 0x1f6) 6 \<and> \<not> bit (last_out h 0x1f6) 4"

text \<open>
  The sectors after a history: the words that follow a write command go to its sector in order.
  Only commands for one sector are described; the code issues no other.
\<close>

definition put_word :: "nat \<Rightarrow> u16 \<Rightarrow> u8 list \<Rightarrow> u8 list" where
  "put_word k v bs = bs[2 * k := ucast v, 2 * k + 1 := ucast (drop_bit 8 v)]"

fun ata_contents :: "(nat \<Rightarrow> u8 list) \<Rightarrow> history \<Rightarrow> nat \<Rightarrow> u8 list" where
  "ata_contents d [] = d"
| "ata_contents d (Out16 q v # h) =
     (case ata_cmd h of
        None \<Rightarrow> ata_contents d h
      | Some (c, h', n, ws) \<Rightarrow>
          if q = 0x1f0 \<and> c = 0x30 \<and> lba_mode h' \<and> length ws < 256
          then (ata_contents d h)(ata_lba h' := put_word (length ws) v (ata_contents d h (ata_lba h')))
          else ata_contents d h)"
| "ata_contents d (_ # h) = ata_contents d h"

definition sector_word :: "u8 list \<Rightarrow> nat \<Rightarrow> u16" where
  "sector_word bs k = word_of_bytes (bs ! (2 * k)) (bs ! (2 * k + 1))"

text \<open>Polling the status port \<^verbatim>\<open>n\<close> times.\<close>

definition polled :: "nat \<Rightarrow> history \<Rightarrow> history" where
  "polled n h = concat (replicate n [Delay, In8 0x1f7]) @ h"

text \<open>
  The disk: sectors of 512 bytes; it does not stay busy while polled; after a read command the
  data port delivers the words of the sector; after a write command it asks for data; it
  interrupts when the data of a read or of an identification is there and when that of a write
  has been taken.
\<close>

definition ata_disk :: "device \<Rightarrow> (history \<Rightarrow> bool) \<Rightarrow> (nat \<Rightarrow> u8 list) \<Rightarrow> bool" where
  "ata_disk dev irq d \<longleftrightarrow>
     (\<forall>k. length (d k) = 512)
   \<and> (\<forall>h. \<exists>n. (ucast (dev (polled n h) 0x1f7) :: u8) < 0x80)
   \<and> (\<forall>h h' k. ata_cmd h = Some (0x20, h', k, []) \<and> lba_mode h' \<and> k < 256 \<longrightarrow>
        ucast (dev h 0x1f0) = sector_word (ata_contents d h (ata_lba h')) k)
   \<and> (\<forall>h h'. ata_cmd h = Some (0x30, h', 0, []) \<longrightarrow>
        (\<exists>n. (ucast (dev (polled n h) 0x1f7) :: u8) AND 8 \<noteq> 0))
   \<and> (\<forall>h h'. ata_cmd h = Some (0x20, h', 0, []) \<longrightarrow> irq h)
   \<and> (\<forall>h h'. ata_cmd h = Some (0xec, h', 0, []) \<longrightarrow> irq h)
   \<and> (\<forall>h h' ws. ata_cmd h = Some (0x30, h', 0, ws) \<and> length ws = 256 \<longrightarrow> irq h)"

section \<open>The polling loops\<close>

lemma polled_0 [simp]: "polled 0 h = h"
  by (simp add: polled_def)

lemma polled_Suc: "polled (Suc n) h = Delay # In8 0x1f7 # polled n h"
  by (simp add: polled_def)

lemma polled_snoc: "polled n (Delay # In8 0x1f7 # h) = polled (Suc n) h"
  by (simp add: polled_def replicate_append_same [symmetric] del: replicate_append_same)

lemma polled_cmd [simp]:
  "ata_cmd (polled n h) = ata_cmd h" "ata_contents d (polled n h) = ata_contents d h"
  "last_out (polled n h) p = last_out h p"
  by (induction n) (simp_all add: polled_Suc)

text \<open>
  Both loops read the status until it passes a test; they return if the test comes true after
  some number of rounds.
\<close>

lemma poll_returns:
  assumes step: "\<And>w. loop w = (if test (ucast (dev (history w) 0x1f7)) then loop (w\<lparr>history := Delay # In8 0x1f7 # history w\<rparr>)
      else Some (w\<lparr>history := Delay # In8 0x1f7 # history w\<rparr>))"
    and "\<not> test (ucast (dev (polled n (history w)) 0x1f7) :: u8)"
  shows "\<exists>k. loop w = Some (w\<lparr>history := polled k (history w)\<rparr>)"
  using assms(2)
proof (induction n arbitrary: w)
  case 0
  then have "loop w = Some (w\<lparr>history := polled (Suc 0) (history w)\<rparr>)"
    by (simp add: step polled_def)
  then show ?case by blast
next
  case (Suc n)
  let ?w = "w\<lparr>history := Delay # In8 0x1f7 # history w\<rparr>"
  show ?case
  proof (cases "test (ucast (dev (history w) 0x1f7))")
    case True
    then have "loop w = loop ?w"
      by (simp add: step [of w])
    moreover have "\<exists>k. loop ?w = Some (?w\<lparr>history := polled k (history ?w)\<rparr>)"
      using Suc.prems by (intro Suc.IH) (simp add: polled_snoc)
    ultimately show ?thesis
      by (auto simp: polled_snoc)
  next
    case False
    then have "loop w = Some (w\<lparr>history := polled (Suc 0) (history w)\<rparr>)"
      by (simp add: step [of w] polled_def)
    then show ?thesis by blast
  qed
qed

lemma wait_idle_returns:
  assumes "ata_disk dev irq d"
  shows "\<exists>k. wait_idle dev w = Some (w\<lparr>history := polled k (history w)\<rparr>)"
proof -
  obtain n where "\<not> (0x80 :: u8) \<le> ucast (dev (polled n (history w)) 0x1f7)"
    using assms unfolding ata_disk_def not_le by blast
  then show ?thesis
    by (rule poll_returns [rotated]) (subst wait_idle.simps, simp add: port_defs)
qed

lemma wait_data_returns:
  assumes "ata_disk dev irq d" and "ata_cmd (history w) = Some (0x30, h', 0, [])"
  shows "\<exists>k. wait_data dev w = Some (w\<lparr>history := polled k (history w)\<rparr>)"
proof -
  have "\<exists>n. (ucast (dev (polled n (history w)) 0x1f7) :: u8) AND 8 \<noteq> 0"
    using assms unfolding ata_disk_def by blast
  then obtain n where "\<not> (ucast (dev (polled n (history w)) 0x1f7) :: u8) AND 8 = 0"
    by blast
  then show ?thesis
    by (rule poll_returns [where test = "\<lambda>v. v AND 8 = 0", rotated])
      (subst wait_data.simps, simp add: port_defs layout)
qed

lemma delays: "(io_delay ^^ n) w = w\<lparr>history := replicate n Delay @ history w\<rparr>"
  by (induction n) (simp_all add: io_delay_def emit_def)

lemma delays_cmd [simp]:
  "ata_cmd (replicate n Delay @ h) = ata_cmd h"
  "ata_contents d (replicate n Delay @ h) = ata_contents d h"
  by (induction n) simp_all

section \<open>A command and its data\<close>

lemma hd_cmd_out_issues:
  assumes "ata_disk dev irq d"
  shows "gives (hd_cmd_out dev c w) (\<lambda>w'. int_flag w' = int_flag w
    \<and> ata_contents d (history w') = ata_contents d (history w)
    \<and> (\<exists>h'. ata_cmd (history w') = Some (command c, h', 0, [])
        \<and> last_out h' 0x1f3 = LBA_low c \<and> last_out h' 0x1f4 = LBA_mid c
        \<and> last_out h' 0x1f5 = LBA_hig c \<and> last_out h' 0x1f6 = device_reg c))"
proof -
  obtain k where "wait_idle dev w = Some (w\<lparr>history := polled k (history w)\<rparr>)"
    using wait_idle_returns [OF assms] by blast
  then show ?thesis
    by (simp add: hd_cmd_out_def port_defs layout Let_def)
qed

lemma lba_mode_lba_cmd:
  "last_out h 0x1f6 = device_reg (lba_cmd a n c) \<Longrightarrow> lba_mode h"
  by (simp add: lba_mode_def lba_cmd_def REG_Drive_def bit_simps)

lemma ata_lba_lba_cmd:
  assumes "last_out h 0x1f3 = LBA_low (lba_cmd a n c)" and "last_out h 0x1f4 = LBA_mid (lba_cmd a n c)"
    and "last_out h 0x1f5 = LBA_hig (lba_cmd a n c)" and "last_out h 0x1f6 = device_reg (lba_cmd a n c)"
  shows "ata_lba h = lba28 a"
proof -
  have byte: "unat (ucast (x AND 0xff :: u32) :: u8) = unat x mod 256" for x
  proof -
    have "x AND 0xff = x AND mask 8"
      by (simp add: mask_eq_exp_minus_1)
    then have "unat (x AND 0xff) = unat x mod 256"
      by (simp only: unat_and_mask) simp
    then show ?thesis
      by (simp add: unsigned_ucast_eq take_bit_eq_mod unat_and_mask)
  qed
  have top: "unat (ucast (REG_Drive 1 0 (drop_bit 24 a AND 0xf)) AND 0xf :: u8) = unat a div 16777216 mod 16"
  proof -
    have "(ucast (REG_Drive 1 0 (drop_bit 24 a AND 0xf)) AND 0xf :: u8) = ucast (drop_bit 24 a AND mask 4)"
      by (rule bit_word_eqI)
        (auto simp: REG_Drive_def bit_simps less_Suc_eq mask_eq_exp_minus_1 numeral_eq_Suc)
    then show ?thesis
      by (simp add: unsigned_ucast_eq take_bit_eq_mod unat_and_mask unat_drop_bit)
  qed
  have "x mod 256 + 256 * (x div 256 mod 256) + 65536 * (x div 65536 mod 256) + 16777216 * (x div 16777216 mod 16)
      = x mod 268435456" for x :: nat
    using mod_mult2_eq [of x 256 1048576] mod_mult2_eq [of "x div 256" 256 4096]
      mod_mult2_eq [of "x div 65536" 256 16] by (simp add: div_mult2_eq [symmetric])
  then show ?thesis
    using assms by (simp add: ata_lba_def lba28_def lba_cmd_def byte top unat_drop_bit)
qed

lemma insw_reads:
  assumes "ata_disk dev irq d" and "ata_cmd (history w) = Some (0x20, h', k, [])"
    and "lba_mode h'" and "k + n \<le> 256"
  shows "insw n dev 0x1f0 w =
    (map (\<lambda>i. sector_word (ata_contents d (history w) (ata_lba h')) (k + i)) [0..<n],
     w\<lparr>history := replicate n (In16 0x1f0) @ history w\<rparr>)"
  using assms(2,4)
proof (induction n arbitrary: w k)
  case 0
  then show ?case by simp
next
  case (Suc n)
  let ?w = "w\<lparr>history := In16 0x1f0 # history w\<rparr>"
  let ?bs = "ata_contents d (history w) (ata_lba h')"
  have now: "ucast (dev (history w) 0x1f0) = sector_word ?bs k"
    using assms(1,3) Suc.prems unfolding ata_disk_def by simp
  have "insw n dev 0x1f0 ?w = (map (\<lambda>i. sector_word (ata_contents d (history ?w) (ata_lba h')) (Suc k + i)) [0..<n],
    ?w\<lparr>history := replicate n (In16 0x1f0) @ history ?w\<rparr>)"
    using Suc.prems by (intro Suc.IH) simp_all
  moreover have "map f [0..<Suc n] = f 0 # map (\<lambda>i. f (Suc i)) [0..<n]" for f :: "nat \<Rightarrow> u16"
    by (simp add: upt_conv_Cons map_Suc_upt [symmetric] o_def del: upt_Suc)
  moreover have "replicate n (In16 0x1f0) @ In16 0x1f0 # history w = In16 0x1f0 # replicate n (In16 0x1f0) @ history w"
    by (simp add: replicate_app_Cons_same)
  ultimately show ?case
    using now by (simp add: inw_def emit_def del: upt_Suc)
qed

lemma insw_any:
  "\<exists>ws. length ws = n \<and> insw n dev p w = (ws, w\<lparr>history := replicate n (In16 p) @ history w\<rparr>)"
proof (induction n arbitrary: w)
  case 0
  then show ?case by simp
next
  case (Suc n)
  obtain ws where "length ws = n" "insw n dev p (w\<lparr>history := In16 p # history w\<rparr>)
      = (ws, w\<lparr>history := replicate n (In16 p) @ In16 p # history w\<rparr>)"
    using Suc.IH [of "w\<lparr>history := In16 p # history w\<rparr>"] by auto
  then show ?case
    by (intro exI [of _ "ucast (dev (history w) p) # ws"])
      (simp add: inw_def emit_def replicate_app_Cons_same)
qed

lemma contents_insw [simp]: "ata_contents d (replicate n (In16 p) @ h) = ata_contents d h"
  by (induction n) simp_all

lemma length_bytes_of_words [simp]: "length (bytes_of_words ws) = 2 * length ws"
  by (induction ws) (simp_all add: bytes_of_words_def)

lemma word_of_bytes_split:
  "ucast (word_of_bytes lo hi) = lo" "ucast (drop_bit 8 (word_of_bytes lo hi)) = hi"
  by (rule bit_word_eqI; auto simp: word_of_bytes_def bit_simps dest: bit_imp_le_length)+

lemma bytes_of_sector_words:
  "length bs = 2 * n \<Longrightarrow> bytes_of_words (map (sector_word bs) [0..<n]) = bs"
proof (induction n arbitrary: bs)
  case 0
  then show ?case by (simp add: bytes_of_words_def)
next
  case (Suc n)
  then obtain a b cs where bs: "bs = a # b # cs"
    by (cases bs; cases "tl bs") auto
  have "map (sector_word bs) [0..<Suc n] = word_of_bytes a b # map (sector_word cs) [0..<n]"
    by (simp add: bs upt_conv_Cons map_Suc_upt [symmetric] o_def sector_word_def del: upt_Suc)
  with Suc bs show ?case
    by (simp add: bytes_of_words_def word_of_bytes_split del: upt_Suc)
qed

primrec fill_words :: "bmem \<Rightarrow> nat \<Rightarrow> nat \<Rightarrow> u32 \<Rightarrow> u8 list \<Rightarrow> u8 list" where
  "fill_words m 0 k a bs = bs"
| "fill_words m (Suc n) k a bs =
     fill_words m n (Suc k) (a + 2) (put_word k (word_of_bytes (m a) (m (a + 1))) bs)"

lemma fill_words_nth:
  "2 * (k + n) \<le> length bs \<Longrightarrow> length (fill_words m n k a bs) = length bs
     \<and> (\<forall>i < length bs. fill_words m n k a bs ! i =
          (if 2 * k \<le> i \<and> i < 2 * (k + n) then m (a + of_nat (i - 2 * k)) else bs ! i))"
proof (induction n arbitrary: k a bs)
  case 0
  then show ?case by auto
next
  case (Suc n)
  let ?bs = "put_word k (word_of_bytes (m a) (m (a + 1))) bs"
  have bs: "?bs = bs[2 * k := m a, 2 * k + 1 := m (a + 1)]"
    by (simp add: put_word_def word_of_bytes_split)
  have IH: "length (fill_words m n (Suc k) (a + 2) ?bs) = length ?bs
     \<and> (\<forall>i < length ?bs. fill_words m n (Suc k) (a + 2) ?bs ! i =
          (if 2 * Suc k \<le> i \<and> i < 2 * (Suc k + n) then m (a + 2 + of_nat (i - 2 * Suc k)) else ?bs ! i))"
    using Suc.prems bs by (intro Suc.IH) simp
  have "(if 2 * Suc k \<le> i \<and> i < 2 * (Suc k + n) then m (a + 2 + of_nat (i - 2 * Suc k)) else ?bs ! i)
      = (if 2 * k \<le> i \<and> i < 2 * (k + Suc n) then m (a + of_nat (i - 2 * k)) else bs ! i)"
    if "i < length bs" for i
  proof -
    consider "i < 2 * k" | "i = 2 * k" | "i = 2 * k + 1" | "2 * Suc k \<le> i" by (cases "i < 2 * k"; cases "i = 2 * k"; cases "i = 2 * k + 1") auto
    then show ?thesis
    proof cases
      case 4
      then obtain j where "i = 2 * Suc k + j"
        using le_Suc_ex by blast
      then show ?thesis
        unfolding bs by (simp add: algebra_simps)
    qed (use that in \<open>simp_all add: bs nth_list_update\<close>)
  qed
  with IH show ?case
    by (simp add: bs)
qed

lemma fill_sector: "length bs = 512 \<Longrightarrow> fill_words m 256 0 a bs = bytes_at m a 512"
  using fill_words_nth [of 0 256 bs m a] by (intro nth_equalityI) simp_all

lemma outsw_writes:
  assumes "ata_cmd (history w) = Some (0x30, h', 0, ws)" and "lba_mode h'" and "length ws + n \<le> 256"
  shows "int_flag (outsw n m a 0x1f0 w) = int_flag w
    \<and> (\<exists>vs. length vs = n \<and> ata_cmd (history (outsw n m a 0x1f0 w)) = Some (0x30, h', 0, ws @ vs))
    \<and> ata_contents d (history (outsw n m a 0x1f0 w)) = (ata_contents d (history w))
        (ata_lba h' := fill_words m n (length ws) a (ata_contents d (history w) (ata_lba h')))"
  using assms(1,3)
proof (induction n arbitrary: w ws a)
  case 0
  then show ?case by simp
next
  case (Suc n)
  let ?v = "word_of_bytes (m a) (m (a + 1))"
  let ?w = "outw ?v 0x1f0 w"
  have now: "ata_cmd (history ?w) = Some (0x30, h', 0, ws @ [?v])"
      "ata_contents d (history ?w) = (ata_contents d (history w))
        (ata_lba h' := put_word (length ws) ?v (ata_contents d (history w) (ata_lba h')))"
      "int_flag ?w = int_flag w"
    using Suc.prems assms(2) by (simp_all add: port_defs)
  have "length (ws @ [?v]) + n \<le> 256"
    using Suc.prems(2) by simp
  from Suc.IH [OF now(1) this, of "a + 2"] obtain vs
    where "length vs = n" and "ata_cmd (history (outsw n m (a + 2) 0x1f0 ?w)) = Some (0x30, h', 0, (ws @ [?v]) @ vs)"
      and "ata_contents d (history (outsw n m (a + 2) 0x1f0 ?w)) = (ata_contents d (history ?w))
        (ata_lba h' := fill_words m n (length (ws @ [?v])) (a + 2) (ata_contents d (history ?w) (ata_lba h')))"
      and "int_flag (outsw n m (a + 2) 0x1f0 ?w) = int_flag ?w"
    by blast
  then show ?case
    by (auto simp: now(2,3) intro!: exI [of _ "?v # vs"])
qed

section \<open>The driver's operations\<close>

lemma interrupt_frame [simp]:
  "ata_cmd (history (interrupt_enter dev i w)) = ata_cmd (history w)"
  "ata_contents d (history (interrupt_enter dev i w)) = ata_contents d (history w)"
  "int_flag (interrupt_enter dev i w)"
  "ata_cmd (history (interrupt_leave dev i w)) = ata_cmd (history w)"
  "ata_contents d (history (interrupt_leave dev i w)) = ata_contents d (history w)"
  "int_flag (interrupt_leave dev i w)"
  "ata_contents d (history (EOI_slave w)) = ata_contents d (history w)"
  by (simp_all add: interrupt_enter_def interrupt_leave_def EOI_slave_def port_defs layout Let_def)

lemma ata_contents_length:
  "(\<And>k. length (d k) = 512) \<Longrightarrow> length (ata_contents d h k) = 512"
proof (induction d h arbitrary: k rule: ata_contents.induct)
  case (2 d q v h)
  show ?case
    by (cases "ata_cmd h") (auto simp: "2.IH" "2.prems" put_word_def split: prod.split)
qed simp_all

text \<open>The state in which the driver's functions are called, as the interface sees it.\<close>

definition hd_sees :: "device \<Rightarrow> (history \<Rightarrow> bool) \<Rightarrow> (nat \<Rightarrow> u8 list) \<Rightarrow> hd_state \<Rightarrow>
    (nat \<Rightarrow> u8 list) \<Rightarrow> bmem \<Rightarrow> bool" where
  "hd_sees dev irq d s st m \<longleftrightarrow> ata_disk dev irq d \<and> int_flag (wire s)
     \<and> length (hdbuf (HD s)) = HDBUF_SIZE \<and> ata_contents d (history (wire s)) = st \<and> dram s = m"

lemma hd_handler_reads:
  assumes "ata_disk dev irq d" and "length (hdbuf (HD s)) = HDBUF_SIZE"
    and "cmdnow (HD s) = 0x20 \<or> cmdnow (HD s) = 0xec" and "port (HD s) = 0x1f0" and "bufsize (HD s) = 512"
  shows "gives (irq14_handler dev s) (\<lambda>s'. int_flag (wire s') \<and> length (hdbuf (HD s')) = HDBUF_SIZE
    \<and> ata_contents d (history (wire s')) = ata_contents d (history (wire s))
    \<and> dram s' = dram s \<and> cmdnow (HD s') = 0 \<and> bufsize (HD s') = 512
    \<and> (\<forall>h'. ata_cmd (history (wire s)) = Some (0x20, h', 0, []) \<and> lba_mode h' \<longrightarrow>
         take 512 (hdbuf (HD s')) = ata_contents d (history (wire s)) (ata_lba h')))"
proof -
  let ?w = "interrupt_enter dev 14 (wire s)"
  obtain ws where ws: "length ws = 256"
    "insw 256 dev 0x1f0 ?w = (ws, ?w\<lparr>history := replicate 256 (In16 0x1f0) @ history ?w\<rparr>)"
    using insw_any [of 256 dev "0x1f0" ?w] by blast
  have len: "length (ata_contents d h k) = 512" for h k
    using assms(1) by (simp add: ata_contents_length ata_disk_def)
  have data: "bytes_of_words ws = ata_contents d (history (wire s)) (ata_lba h')"
    if "ata_cmd (history (wire s)) = Some (0x20, h', 0, [])" "lba_mode h'" for h'
  proof -
    have "ws = map (sector_word (ata_contents d (history (wire s)) (ata_lba h'))) [0..<256]"
      using insw_reads [OF assms(1), of ?w h' 0 256] that ws(2) by simp
    moreover have "length (ata_contents d (history (wire s)) (ata_lba h')) = 2 * 256"
      by (simp add: len)
    ultimately show ?thesis
      by (simp add: bytes_of_sector_words)
  qed
  show ?thesis
    using assms(2-5) ws data len
    by (auto simp: irq14_handler_def hd_handler_def port_read_def layout drop_bit_of_nat Let_def)
qed

lemma hd_read_sees:
  assumes "hd_sees dev irq d s st m"
  shows "gives (hd_read dev irq a 1 b s) (\<lambda>s'. hd_sees dev irq d s' st (put_bytes m b (st (lba28 a))))"
proof -
  note s = assms [unfolded hd_sees_def]
  let ?c = "lba_cmd a 1 ATA_read"
  obtain w where w: "hd_cmd_out dev ?c (wire s) = Inr w" "int_flag w"
      "ata_contents d (history w) = st"
    and "\<exists>h'. ata_cmd (history w) = Some (command ?c, h', 0, [])
        \<and> last_out h' 0x1f3 = LBA_low ?c \<and> last_out h' 0x1f4 = LBA_mid ?c
        \<and> last_out h' 0x1f5 = LBA_hig ?c \<and> last_out h' 0x1f6 = device_reg ?c"
    by (rule givesE [OF hd_cmd_out_issues [of dev irq d ?c "wire s"]]) (use s in auto)
  then obtain h' where h': "ata_cmd (history w) = Some (0x20, h', 0, [])" "lba_mode h'" "ata_lba h' = lba28 a"
    using lba_mode_lba_cmd ata_lba_lba_cmd by (force simp: lba_cmd_def ATA_read_def)
  let ?s = "s\<lparr>HD := (HD s)\<lparr>buf := b, cmdnow := ucast (command ?c), handler := ''port_read'',
      sectorcnt := 1, port := ucast COM_Data, bufsize := 1 * 512\<rparr>,
      wire := (io_delay ^^ 1000) w\<rparr>"
  have irq: "irq (history (wire ?s))"
    using s h'(1) unfolding ata_disk_def by (simp add: delays)
  have "gives (irq14_handler dev ?s) (\<lambda>s'. int_flag (wire s') \<and> length (hdbuf (HD s')) = HDBUF_SIZE
    \<and> ata_contents d (history (wire s')) = ata_contents d (history (wire ?s))
    \<and> dram s' = dram ?s \<and> cmdnow (HD s') = 0 \<and> bufsize (HD s') = 512
    \<and> (\<forall>h'. ata_cmd (history (wire ?s)) = Some (0x20, h', 0, []) \<and> lba_mode h' \<longrightarrow>
         take 512 (hdbuf (HD s')) = ata_contents d (history (wire ?s)) (ata_lba h')))"
    using s by (intro hd_handler_reads [where irq = irq]) (simp_all add: layout lba_cmd_def)
  then obtain s' where s': "irq14_handler dev ?s = Inr s'" "int_flag (wire s')"
      "length (hdbuf (HD s')) = HDBUF_SIZE" "ata_contents d (history (wire s')) = st"
      "dram s' = m" "bufsize (HD s') = 512" "take 512 (hdbuf (HD s')) = st (lba28 a)"
    by (rule givesE) (use s w h' in \<open>auto simp: delays\<close>)
  have "await dev irq (command ?c) ?s = Inr s'"
    using irq w(2) s'(1) by (simp add: await_def delays)
  moreover have "copy_hdbuf s' b = Inr (s'\<lparr>dram := put_bytes m b (st (lba28 a))\<rparr>)"
    using s' by (simp add: copy_hdbuf_def layout)
  ultimately have "hd_read dev irq a 1 b s = Inr (s'\<lparr>dram := put_bytes m b (st (lba28 a))\<rparr>)"
    using w(1) by (simp add: hd_read_def Let_def)
  then show ?thesis
    using s s' by (simp add: hd_sees_def)
qed

lemma hd_write_sees:
  assumes "hd_sees dev irq d s st m"
  shows "gives (hd_write dev irq a 1 b s) (\<lambda>s'. hd_sees dev irq d s' (st(lba28 a := bytes_at m b 512)) m)"
proof -
  note s = assms [unfolded hd_sees_def]
  let ?c = "lba_cmd a 1 ATA_write"
  obtain w where w: "hd_cmd_out dev ?c (wire s) = Inr w" "int_flag w"
      "ata_contents d (history w) = st"
    and "\<exists>h'. ata_cmd (history w) = Some (command ?c, h', 0, [])
        \<and> last_out h' 0x1f3 = LBA_low ?c \<and> last_out h' 0x1f4 = LBA_mid ?c
        \<and> last_out h' 0x1f5 = LBA_hig ?c \<and> last_out h' 0x1f6 = device_reg ?c"
    by (rule givesE [OF hd_cmd_out_issues [of dev irq d ?c "wire s"]]) (use s in auto)
  then obtain h' where h': "ata_cmd (history w) = Some (0x30, h', 0, [])" "lba_mode h'" "ata_lba h' = lba28 a"
    using lba_mode_lba_cmd ata_lba_lba_cmd by (force simp: lba_cmd_def ATA_write_def)
  obtain k where k: "wait_data dev w = Some (w\<lparr>history := polled k (history w)\<rparr>)"
    using wait_data_returns h'(1) s by blast
  let ?w = "w\<lparr>history := polled k (history w)\<rparr>"
  have cmd: "ata_cmd (history ?w) = Some (0x30, h', 0, [])"
    using h'(1) by simp
  have fill: "fill_words m 256 0 b (st (lba28 a)) = bytes_at m b 512"
    using s by (intro fill_sector) (auto simp: ata_disk_def ata_contents_length)
  from outsw_writes [OF cmd h'(2), of 256 m b d] obtain vs
    where out: "length vs = 256" "ata_cmd (history (outsw 256 m b 0x1f0 ?w)) = Some (0x30, h', 0, vs)"
      "ata_contents d (history (outsw 256 m b 0x1f0 ?w)) = st(lba28 a := bytes_at m b 512)"
      "int_flag (outsw 256 m b 0x1f0 ?w)"
    using w h'(3) fill by auto
  let ?s = "s\<lparr>HD := (HD s)\<lparr>buf := b, cmdnow := ucast (command ?c), handler := ''port_write'',
      port := ucast COM_Data, bufsize := 1 * 512\<rparr>,
      wire := outsw 256 m b 0x1f0 ?w\<rparr>"
  have irq: "irq (history (wire ?s))"
    using s out unfolding ata_disk_def by simp
  have "gives (irq14_handler dev ?s) (hd_sees_wr)" if "hd_sees_wr = (\<lambda>s'. hd_sees dev irq d s' (st(lba28 a := bytes_at m b 512)) m)"
    for hd_sees_wr
    using s out(3) that
    by (simp add: irq14_handler_def hd_handler_def hd_sees_def lba_cmd_def layout)
  moreover have "hd_write dev irq a 1 b s = irq14_handler dev ?s"
    using w(1) k irq out(4) s
    by (simp add: hd_write_def await_def port_write_def layout drop_bit_of_nat Let_def)
  ultimately show ?thesis by simp
qed

lemma hd_identify_sees:
  assumes "hd_sees dev irq d s st m"
  shows "gives (hd_identify dev irq c b s)
    (\<lambda>s'. \<exists>bs. length bs = 512 \<and> hd_sees dev irq d s' st (put_bytes m b bs))"
proof -
  note s = assms [unfolded hd_sees_def]
  let ?c = "c\<lparr>device_reg := ucast (REG_Drive 1 0 0), command := ATA_identify\<rparr>"
  obtain w h' where w: "hd_cmd_out dev ?c (wire s) = Inr w" "int_flag w"
      "ata_contents d (history w) = st" "ata_cmd (history w) = Some (0xec, h', 0, [])"
    by (rule givesE [OF hd_cmd_out_issues [of dev irq d ?c "wire s"]]) (use s in \<open>auto simp: ATA_identify_def\<close>)
  let ?s = "s\<lparr>HD := (HD s)\<lparr>buf := b, cmdnow := ucast (command ?c), handler := ''port_read'',
      bufsize := 512, port := ucast COM_Data, sectorcnt := 1\<rparr>, wire := w\<rparr>"
  have irq: "irq (history (wire ?s))"
    using s w(4) unfolding ata_disk_def by simp
  have "gives (irq14_handler dev ?s) (\<lambda>s'. int_flag (wire s') \<and> length (hdbuf (HD s')) = HDBUF_SIZE
    \<and> ata_contents d (history (wire s')) = ata_contents d (history (wire ?s))
    \<and> dram s' = dram ?s \<and> cmdnow (HD s') = 0 \<and> bufsize (HD s') = 512
    \<and> (\<forall>h'. ata_cmd (history (wire ?s)) = Some (0x20, h', 0, []) \<and> lba_mode h' \<longrightarrow>
         take 512 (hdbuf (HD s')) = ata_contents d (history (wire ?s)) (ata_lba h')))"
    using s by (intro hd_handler_reads [where irq = irq]) (simp_all add: layout)
  then obtain s' where s': "irq14_handler dev ?s = Inr s'" "int_flag (wire s')"
      "length (hdbuf (HD s')) = HDBUF_SIZE" "ata_contents d (history (wire s')) = st"
      "dram s' = m" "bufsize (HD s') = 512"
    by (rule givesE) (use s w in auto)
  have "hd_identify dev irq c b s = Inr (s'\<lparr>dram := put_bytes m b (take 512 (hdbuf (HD s')))\<rparr>)"
    using w(1,2) irq s' by (simp add: hd_identify_def await_def copy_hdbuf_def layout Let_def)
  then show ?thesis
    using s s' by (auto simp: hd_sees_def layout intro!: exI [of _ "take 512 (hdbuf (HD s'))"])
qed

interpretation hd: sector_store "hd_sees dev irq d"
    "\<lambda>a. hd_read dev irq a 1" "\<lambda>a. hd_write dev irq a 1" for dev irq d
proof
  show "length (st k) = 512" if "hd_sees dev irq d s st m" for s st m k
    using that by (auto simp: hd_sees_def ata_disk_def ata_contents_length)
qed (rule hd_read_sees hd_write_sees, assumption)+

section \<open>A disk that meets the description\<close>

definition sample_dev :: "(nat \<Rightarrow> u8 list) \<Rightarrow> device" where
  "sample_dev d h p =
     (if p = 0x1f7 then 0x48
      else if p = 0x1f0
      then (case ata_cmd h of
              None \<Rightarrow> 0
            | Some (c, h', k, ws) \<Rightarrow> ucast (sector_word (ata_contents d h (ata_lba h')) k))
      else 0)"

lemma ata_disk_sample:
  assumes "\<And>k. length (d k) = 512"
  shows "ata_disk (sample_dev d) (\<lambda>h. True) d"
proof -
  have "(ucast (ucast (x :: u16) :: u32) :: u16) = x" for x
    by (rule bit_word_eqI) (auto simp: bit_simps)
  then show ?thesis
    by (auto simp: ata_disk_def sample_dev_def assms)
qed

definition sample_hd :: "bmem \<Rightarrow> hd_state" where
  "sample_hd m = \<lparr>wire = \<lparr>history = [], int_flag = True\<rparr>,
     HD = \<lparr>cmdnow = 0, handler = [], buf = 0, bufsize = 0, port = 0, sectorcnt = 0,
       hdbuf = replicate 1024 0\<rparr>, dram = m\<rparr>"

lemma hd_sees_sample:
  "(\<And>k. length (d k) = 512) \<Longrightarrow> hd_sees (sample_dev d) (\<lambda>h. True) d (sample_hd m) d m"
  by (simp add: hd_sees_def ata_disk_sample sample_hd_def layout)

section \<open>Properties\<close>

text \<open>
  C13. The driver refines a store of sectors. On a disk that behaves as the standard says, with
  interrupts on, reading one sector returns, leaves the disk as it was and stores the 512 bytes
  of the sector addressed by the low 28 bits at the buffer; writing one returns, replaces
  exactly that sector by the 512 bytes of the buffer and leaves the memory as it was. In both
  cases the driver is ready for the next command.
\<close>

theorem hd_refines_sector_store:
  assumes "hd_sees dev irq d s st m"
  shows "gives (hd_read dev irq a 1 b s) (\<lambda>s'. hd_sees dev irq d s' st (put_bytes m b (st (lba28 a))))
    \<and> gives (hd_write dev irq a 1 b s) (\<lambda>s'. hd_sees dev irq d s' (st(lba28 a := bytes_at m b 512)) m)"
  using hd.rd_sees [OF assms] hd.wr_sees [OF assms] by blast

theorem hd_refines_sector_store_witness:
  "\<exists>s. hd_read (sample_dev (\<lambda>k. replicate 512 (of_nat k))) (\<lambda>h. True) 7 1 0x3000 (sample_hd (\<lambda>x. 0)) = Inr s
    \<and> dram s 0x3004 = 7 \<and> dram s 0x3200 = 0"
proof -
  have "hd_sees (sample_dev (\<lambda>k. replicate 512 (of_nat k))) (\<lambda>h. True) (\<lambda>k. replicate 512 (of_nat k))
      (sample_hd (\<lambda>x. 0)) (\<lambda>k. replicate 512 (of_nat k)) (\<lambda>x. 0)"
    by (rule hd_sees_sample) simp
  from hd_refines_sector_store [OF this, of 7 "0x3000", THEN conjunct1] show ?thesis
    by (rule givesE) (auto simp: hd_sees_def put_bytes_apply lba28_def)
qed

text \<open>
  What is written to a sector is read back from it, to any buffer, and no other sector
  changes.
\<close>

lemma hd_write_read_roundtrip:
  assumes "hd_sees dev irq d s st m"
  shows "gives (bind_outcome (hd_write dev irq a 1 b s) (hd_read dev irq a 1 c))
    (\<lambda>s'. bytes_at (dram s') c 512 = bytes_at m b 512
      \<and> (\<forall>x. 512 \<le> unat (x - c) \<longrightarrow> dram s' x = m x)
      \<and> hd_sees dev irq d s' (st(lba28 a := bytes_at m b 512)) (dram s'))"
  by (rule gives_mono [OF hd.rd_after_wr [OF assms, of a b c]])
    (auto simp: hd_sees_def put_bytes_apply)

text \<open>
  The handler stores the whole transfer to a static buffer of 1024 bytes: a read of three
  or more sectors runs past it.
\<close>

lemma hd_read_overruns_buffer:
  assumes "hd_sees dev irq d s st m" and "3 \<le> unat n" and "unat n < 8388608"
  shows "hd_read dev irq a n b s = Inl Out_Of_Bounds"
proof -
  note s = assms(1) [unfolded hd_sees_def]
  let ?c = "lba_cmd a n ATA_read"
  obtain w h' where w: "hd_cmd_out dev ?c (wire s) = Inr w" "int_flag w"
      "ata_cmd (history w) = Some (0x20, h', 0, [])"
    by (rule givesE [OF hd_cmd_out_issues [of dev irq d ?c "wire s"]])
      (use s in \<open>auto simp: lba_cmd_def ATA_read_def\<close>)
  then have irq: "irq (replicate 1000 Delay @ history w)"
    using s unfolding ata_disk_def by simp
  have size: "unat (n * 512) = unat n * 512"
    using assms(3) by (simp add: unat_word_ariths)
  have "1024 < 2 * (unat n * 512 div 2)"
    using assms(2) by simp
  then show ?thesis
    using w(1,2) irq s
    by (simp add: hd_read_def await_def delays irq14_handler_def hd_handler_def port_read_def
        lba_cmd_def layout unat_drop_bit size Let_def)
qed

end
