(* ===== verification/Mm.thy ===== *)
theory Mm
  imports CString
begin

text \<open>
  Boot-time memory information, \<^verbatim>\<open>src/kernel/mm/mm.h\<close> and \<^verbatim>\<open>src/kernel/mm/mm.c\<close>: the
  loader leaves a \<^verbatim>\<open>struct kernel_info\<close> at 1 MB and the BIOS E820 map at 0x8000, and
  \<^verbatim>\<open>get_memory_info\<close> copies both into kernel globals. The structures are packed records of
  32-bit little-endian fields; copying one is reading its fields.
\<close>

section \<open>Constants and structures of mm.h\<close>

definition KERNEL_LOAD_ADDRESS :: u32 where [layout]: "KERNEL_LOAD_ADDRESS = 0x200000"
definition KERNEL_INFO_ADDRESS :: u32 where [layout]: "KERNEL_INFO_ADDRESS = 0x100000"
definition MEMORY_MAP_ADDR :: u32 where [layout]: "MEMORY_MAP_ADDR = 0x8000"

record kernel_info =
  ki_size :: u32
  ki_start :: u32
  memory_map_cnt :: u32

record e820_ARDS =
  baselow :: u32
  basehigh :: u32
  lenthlow :: u32
  lenthhigh :: u32
  e820_type :: u32

definition read_kernel_info :: "bmem \<Rightarrow> u32 \<Rightarrow> kernel_info" where
  "read_kernel_info m a =
     \<lparr>ki_size = load32 m a, ki_start = load32 m (a + 4), memory_map_cnt = load32 m (a + 8)\<rparr>"

definition write_kernel_info :: "bmem \<Rightarrow> u32 \<Rightarrow> kernel_info \<Rightarrow> bmem" where
  "write_kernel_info m a k =
     store32 (store32 (store32 m a (ki_size k)) (a + 4) (ki_start k)) (a + 8) (memory_map_cnt k)"

definition read_ARDS :: "bmem \<Rightarrow> u32 \<Rightarrow> e820_ARDS" where
  "read_ARDS m a =
     \<lparr>baselow = load32 m a, basehigh = load32 m (a + 4), lenthlow = load32 m (a + 8),
      lenthhigh = load32 m (a + 12), e820_type = load32 m (a + 16)\<rparr>"

section \<open>get\_memory\_info\<close>

text \<open>The two globals of mm.c; \<^verbatim>\<open>memory_map\<close> is an array of five entries.\<close>

record mm_info =
  kernel_info :: kernel_info
  memory_map :: "e820_ARDS list"

definition get_memory_info :: "bmem \<Rightarrow> mm_info" where
  "get_memory_info m =
     \<lparr>kernel_info = read_kernel_info m KERNEL_INFO_ADDRESS,
      memory_map = map (\<lambda>i. read_ARDS m (MEMORY_MAP_ADDR + 20 * of_nat i)) [0..<5]\<rparr>"

lemma length_memory_map [simp]: "length (memory_map (get_memory_info m)) = 5"
  by (simp add: get_memory_info_def)

lemma read_write_kernel_info:
  "read_kernel_info (write_kernel_info m a k) a = k"
  by (simp add: read_kernel_info_def write_kernel_info_def)

text \<open>A read of one entry of the map, which has five.\<close>

definition memory_map_at :: "mm_info \<Rightarrow> nat \<Rightarrow> e820_ARDS outcome" where
  "memory_map_at g i =
     (if i < length (memory_map g) then Inr (memory_map g ! i) else Inl Out_Of_Bounds)"

end
