(* ===== verification/Display.thy ===== *)
theory Display
  imports CString
begin

text \<open>
  The text screen: \<^verbatim>\<open>dis_str\<close> and \<^verbatim>\<open>dis_nchar\<close> of
  \<^verbatim>\<open>src/kernel/echo/display.c\<close> (the loader's \<^verbatim>\<open>src/boot/display.c\<close> is the same file).
  They store through \<^verbatim>\<open>gs\<close>, whose segment starts at \<^verbatim>\<open>0xb8000\<close> and is \<^verbatim>\<open>0x10000\<close>
  bytes long: a store past it is a general protection fault. The screen is part of the byte
  memory.
\<close>

section \<open>display.c\<close>

definition SCREEN :: u32 where [layout]: "SCREEN = 0xb8000"

text \<open>The instruction \<^verbatim>\<open>movw %ax, %gs:(%edi)\<close>.\<close>

definition gs_store :: "bmem \<Rightarrow> u32 \<Rightarrow> u8 \<Rightarrow> u8 \<Rightarrow> bmem outcome" where
  "gs_store m edi al ah =
     (if edi \<le> 0xfffe then Inr (m(SCREEN + edi := al, SCREEN + edi + 1 := ah))
      else Inl General_Protection)"

primrec dis_loop :: "nat \<Rightarrow> bmem \<Rightarrow> u32 \<Rightarrow> u8 \<Rightarrow> u32 \<Rightarrow> bmem outcome" where
  "dis_loop 0 m tmp color loc = Inr m"
| "dis_loop (Suc n) m tmp color loc =
     bind_outcome (gs_store m loc (m tmp) color) (\<lambda>m. dis_loop n m (tmp + 1) color (loc + 2))"

definition dis_nchar :: "bmem \<Rightarrow> u32 \<Rightarrow> u8 \<Rightarrow> u32 \<Rightarrow> u32 \<Rightarrow> u32 \<Rightarrow> (int \<times> bmem) outcome" where
  "dis_nchar m straddr color len row col =
     (let loc = row * 160 + col * 2; n = nat (c_int len) in
      bind_outcome (dis_loop n m straddr color loc) (\<lambda>m. Inr (int n, m)))"

definition dis_str :: "bmem \<Rightarrow> u32 \<Rightarrow> u8 \<Rightarrow> u32 \<Rightarrow> u32 \<Rightarrow> (int \<times> bmem) outcome" where
  "dis_str m straddr color row col =
     (let loc = row * 160 + col * 2 in
      bind_outcome (returns (strlen m straddr)) (\<lambda>len.
      bind_outcome (dis_loop (nat (c_int len)) m straddr color loc) (\<lambda>m.
        Inr (int (nat (c_int len)), m))))"

text \<open>On a string that ends, \<^verbatim>\<open>dis_str\<close> is \<^verbatim>\<open>dis_nchar\<close> of its length.\<close>

lemma dis_str_dis_nchar:
  "cstr m p bs \<Longrightarrow> dis_str m p c row col = dis_nchar m p c (of_nat (length bs)) row col"
  by (simp add: dis_str_def dis_nchar_def strlen_cstr Let_def)

section \<open>What a run of stores leaves\<close>

lemma dis_loop_apply:
  assumes "unat loc + 2 * n \<le> 0x10000"
    and "\<And>k. k < n \<Longrightarrow> 2 * n \<le> unat (tmp + of_nat k - (SCREEN + loc))"
  shows "\<exists>m'. dis_loop n m tmp c loc = Inr m' \<and> (\<forall>x. m' x =
    (let d = unat (x - (SCREEN + loc)) in
     if d < 2 * n then if even d then m (tmp + of_nat (d div 2)) else c else m x))"
  using assms
proof (induction n arbitrary: m tmp loc)
  case 0
  then show ?case by simp
next
  case (Suc n)
  let ?a = "SCREEN + loc"
  let ?m = "m(?a := m tmp, ?a + 1 := c)"
  have store: "gs_store m loc (m tmp) c = Inr ?m"
    using Suc.prems(1) by (simp add: gs_store_def word_le_nat_alt)
  have loc2: "unat (loc + 2) = unat loc + 2"
    using Suc.prems(1) unat_add_no_wrap [of loc 2] by simp
  have far: "2 * Suc n \<le> unat (tmp + 1 + of_nat k - ?a)" if "k < n" for k
    using Suc.prems(2) [of "Suc k"] that by (simp add: algebra_simps)
  have sub2: "unat (y - (SCREEN + (loc + 2))) = unat (y - ?a) - 2" if "2 \<le> unat (y - ?a)" for y
  proof -
    have "unat (y - ?a - 2) = unat (y - ?a) - 2"
      using that by (simp add: unat_sub word_le_nat_alt)
    moreover have "y - (SCREEN + (loc + 2)) = y - ?a - 2"
      by simp
    ultimately show ?thesis by (simp only:)
  qed
  have "\<exists>m'. dis_loop n ?m (tmp + 1) c (loc + 2) = Inr m' \<and> (\<forall>x. m' x =
    (let d = unat (x - (SCREEN + (loc + 2))) in
     if d < 2 * n then if even d then ?m (tmp + 1 + of_nat (d div 2)) else c else ?m x))"
  proof (rule Suc.IH)
    show "unat (loc + 2) + 2 * n \<le> 0x10000"
      using Suc.prems(1) loc2 by simp
    show "2 * n \<le> unat (tmp + 1 + of_nat k - (SCREEN + (loc + 2)))" if "k < n" for k
      using far [OF that] sub2 [of "tmp + 1 + of_nat k"] by simp
  qed
  then obtain m' where run: "dis_loop n ?m (tmp + 1) c (loc + 2) = Inr m'"
    and m': "\<And>x. m' x = (let d = unat (x - (SCREEN + (loc + 2))) in
     if d < 2 * n then if even d then ?m (tmp + 1 + of_nat (d div 2)) else c else ?m x)"
    by blast
  have "m' x = (let d = unat (x - ?a) in
     if d < 2 * Suc n then if even d then m (tmp + of_nat (d div 2)) else c else m x)" for x
  proof -
    let ?d = "unat (x - ?a)"
    consider "?d = 0" | "?d = 1" | "2 \<le> ?d" by linarith
    then show ?thesis
    proof cases
      case 1
      then have "x = ?a" by (simp add: unat_eq_0)
      moreover have "2 * n \<le> unat (?a - (SCREEN + (loc + 2)))"
        using Suc.prems(1) by (simp add: unat_sub_if_size word_size)
      ultimately show ?thesis by (simp add: m' Let_def)
    next
      case 2
      then have "x - ?a = 1" using word_eq_of_nat by fastforce
      then have x: "x = ?a + 1" by (simp add: algebra_simps)
      have "2 * n \<le> unat (?a + 1 - (SCREEN + (loc + 2)))"
        using Suc.prems(1) by (simp add: unsigned_minus_1_eq_mask mask_eq_exp_minus_1)
      with x show ?thesis by (simp add: m' Let_def)
    next
      case 3
      then have ne: "x \<noteq> ?a" "x \<noteq> ?a + 1" by auto
      have src: "?m (tmp + 1 + of_nat k) = m (tmp + 1 + of_nat k)" if "k < n" for k
      proof -
        have "2 \<le> unat (tmp + 1 + of_nat k - ?a)"
          using far [OF that] by simp
        then have "y \<noteq> ?a \<and> y \<noteq> ?a + 1" if "y = tmp + 1 + of_nat k" for y
          unfolding that [symmetric] by auto
        then show ?thesis by simp
      qed
      show ?thesis
      proof (cases "?d < 2 * Suc n")
        case True
        have half: "(d - 2) div 2 < n \<and> d div 2 = Suc ((d - 2) div 2) \<and> (even (d - 2) \<longleftrightarrow> even d)"
          if "d < 2 * Suc n" "2 \<le> d" for d
          using that by presburger
        note h = half [OF True 3]
        have "?m (tmp + 1 + of_nat ((?d - 2) div 2)) = m (tmp + of_nat (?d div 2))"
          using src [of "(?d - 2) div 2"] h by (simp add: add.assoc)
        moreover have "?d - 2 < 2 * n"
          using True 3 by simp
        ultimately show ?thesis
          using True 3 h by (simp only: m' sub2 Let_def if_True)
      next
        case False
        then have "\<not> ?d - 2 < 2 * n"
          by simp
        then show ?thesis
          using False 3 ne by (simp add: m' sub2 Let_def)
      qed
    qed
  qed
  with run store show ?case by simp
qed

lemma dis_loop_past_segment:
  "0xfffe < loc \<Longrightarrow> 0 < n \<Longrightarrow> dis_loop n m tmp c loc = Inl General_Protection"
  by (cases n) (auto simp: gs_store_def not_le)

section \<open>What a string leaves\<close>

text \<open>The memory with the string \<^verbatim>\<open>bs\<close> in the cells from byte \<^verbatim>\<open>loc\<close> of the screen on.\<close>

definition shown :: "u32 \<Rightarrow> u8 \<Rightarrow> u8 list \<Rightarrow> bmem \<Rightarrow> bmem" where
  "shown loc c bs m = (\<lambda>x. let d = unat (x - (SCREEN + loc)) in
     if d < 2 * length bs then if even d then bs ! (d div 2) else c else m x)"

lemma dis_loop_shown:
  assumes "cstr m p bs" and "unat loc + 2 * length bs \<le> 0x10000"
    and "\<And>k. k < length bs \<Longrightarrow> 2 * length bs \<le> unat (p + of_nat k - (SCREEN + loc))"
  shows "dis_loop (length bs) m p c loc = Inr (shown loc c bs m)"
proof -
  obtain m' where run: "dis_loop (length bs) m p c loc = Inr m'"
    and m': "\<And>x. m' x = (let d = unat (x - (SCREEN + loc)) in
      if d < 2 * length bs then if even d then m (p + of_nat (d div 2)) else c else m x)"
    using dis_loop_apply [OF assms(2,3)] by blast
  have "m (p + of_nat (d div 2)) = bs ! (d div 2)" if "d < 2 * length bs" for d
  proof -
    have "d div 2 < length bs" using that by linarith
    then show ?thesis using cstr_nth [OF assms(1)] by blast
  qed
  then have "m' = shown loc c bs m"
    by (simp add: fun_eq_iff m' shown_def Let_def)
  with run show ?thesis by simp
qed

lemma dis_str_shown:
  assumes "cstr m p bs" and "unat (row * 160 + col * 2) + 2 * length bs \<le> 0x10000"
    and "\<And>k. k < length bs \<Longrightarrow> 2 * length bs \<le> unat (p + of_nat k - (SCREEN + (row * 160 + col * 2)))"
  shows "dis_str m p c row col = Inr (int (length bs), shown (row * 160 + col * 2) c bs m)"
proof -
  have "length bs < 2147483648"
    using assms(2) by simp
  then show ?thesis
    using dis_loop_shown [OF assms] assms(1) by (simp add: dis_str_def strlen_cstr Let_def)
qed

text \<open>The bytes the segment does not cover.\<close>

definition off_screen :: "u32 \<Rightarrow> bool" where
  "off_screen x \<longleftrightarrow> 0x10000 \<le> unat (x - SCREEN)"

lemma off_screen_far:
  assumes "off_screen x" and "unat loc + n \<le> 0x10000"
  shows "n \<le> unat (x - (SCREEN + loc))"
proof -
  have x: "0x10000 \<le> unat (x - SCREEN)"
    using assms(1) by (simp add: off_screen_def)
  then have "unat (x - SCREEN - loc) = unat (x - SCREEN) - unat loc"
    using assms(2) by (intro unat_sub) (simp add: word_le_nat_alt)
  moreover have "x - (SCREEN + loc) = x - SCREEN - loc"
    by simp
  ultimately have "unat (x - (SCREEN + loc)) = unat (x - SCREEN) - unat loc"
    by (simp only:)
  then show ?thesis
    using x assms(2) by simp
qed

lemma shown_off_screen:
  "off_screen x \<Longrightarrow> unat loc + 2 * length bs \<le> 0x10000 \<Longrightarrow> shown loc c bs m x = m x"
  using off_screen_far [of x loc "2 * length bs"] by (simp add: shown_def Let_def)

lemma dis_str_off_screen:
  assumes "cstr m p bs" and "unat (row * 160 + col * 2) + 2 * length bs \<le> 0x10000"
    and "\<And>i. i < length bs \<Longrightarrow> off_screen (p + of_nat i)"
  shows "dis_str m p c row col = Inr (int (length bs), shown (row * 160 + col * 2) c bs m)"
    and "off_screen x \<Longrightarrow> shown (row * 160 + col * 2) c bs m x = m x"
  using assms by (auto intro: dis_str_shown off_screen_far shown_off_screen)

section \<open>Properties\<close>

text \<open>
  C33. \<^verbatim>\<open>dis_str\<close> of a string that fits in the screen segment returns its length and stores
  exactly its characters with the colour from the cell of \<^verbatim>\<open>row\<close> and \<^verbatim>\<open>col\<close> on; started past
  the segment, it faults unless the string is empty.
\<close>

theorem dis_str_writes_cells:
  fixes row col :: u32
  assumes "cstr m p bs" and "length bs < 2147483648"
  defines "loc \<equiv> row * 160 + col * 2"
  assumes "\<And>k. k < length bs \<Longrightarrow> 2 * length bs \<le> unat (p + of_nat k - (SCREEN + loc))"
  shows "(unat loc + 2 * length bs \<le> 0x10000 \<longrightarrow>
      (\<exists>m'. dis_str m p c row col = Inr (int (length bs), m') \<and>
        (\<forall>x. m' x = (let d = unat (x - (SCREEN + loc)) in
           if d < 2 * length bs then if even d then bs ! (d div 2) else c else m x))))
    \<and> (0xfffe < loc \<and> bs \<noteq> [] \<longrightarrow> dis_str m p c row col = Inl General_Protection)"
  using dis_str_shown [OF assms(1)] assms
  by (simp add: shown_def dis_str_def strlen_cstr dis_loop_past_segment Let_def)

theorem dis_str_writes_cells_witness:
  "\<exists>m'. dis_str (\<lambda>a. if a = 0x200000 then 80 else if a = 0x200001 then 81 else 0) 0x200000 12 1 2
      = Inr (2, m') \<and> m' 0xb80a6 = 81 \<and> m' 0xb80a7 = 12 \<and> m' 0xb80a8 = 0"
proof -
  let ?m = "\<lambda>a :: u32. if a = 0x200000 then 80 else if a = 0x200001 then 81 else 0 :: u8"
  have c: "cstr ?m 0x200000 [80, 81]" by simp
  have "2 * length [80 :: u8, 81] \<le> unat (0x200000 + of_nat k - (SCREEN + (1 * 160 + 2 * 2 :: u32)))"
    if "k < length [80 :: u8, 81]" for k
    using that by (cases "k = 0") (auto simp: layout less_Suc_eq)
  from dis_str_writes_cells [OF c _ this, of 12] obtain m'
    where "dis_str ?m 0x200000 12 1 2 = Inr (2, m')"
      and "\<forall>x. m' x = (let d = unat (x - (SCREEN + (1 * 160 + 2 * 2))) in
           if d < 4 then if even d then [80, 81] ! (d div 2) else 12 else ?m x)"
    by (auto simp: layout)
  then show ?thesis
    by (intro exI [of _ m']) (simp add: layout Let_def)
qed

end
