(* ===== verification/Fs.thy ===== *)
theory Fs
  imports Hd Mm Display
begin

text \<open>
  The loader's file system, \<^verbatim>\<open>src/boot/fs.h\<close> and \<^verbatim>\<open>src/boot/fs.c\<close>: the partition
  tables, the making of a file system, the reading of its parts and the loading of the kernel.
  It drives the disk through \<^verbatim>\<open>Hd\<close>. The partition arrays, the super block and the inode array
  are records; the sector buffers and the root directory, whose names the code reads past their
  ends, are bytes of the memory at addresses the linker gives.
\<close>

section \<open>fs.h\<close>

definition PART_TABLE_OFFSET :: nat where [layout]: "PART_TABLE_OFFSET = 0x1be"
definition PART_TABLE_END :: nat where [layout]: "PART_TABLE_END = 0x200"
definition PRIMARY_MAX_CNT :: nat where [layout]: "PRIMARY_MAX_CNT = 4"
definition LOGIC_MAX_CNT :: nat where [layout]: "LOGIC_MAX_CNT = 10"
definition PART_EMPTY :: u8 where [layout]: "PART_EMPTY = 0"
definition PART_EXTENDED :: u8 where [layout]: "PART_EXTENDED = 5"

record part_table =
  status :: u8
  first_head_num :: u8
  first_sector_num :: u8
  first_cylinder_low :: u8
  system_id :: u8
  end_head_num :: u8
  end_sector_num :: u8
  end_cylinder_low :: u8
  first_LBA :: u32
  sector_cnt :: u32

definition SECTOR_SIZE :: nat where [layout]: "SECTOR_SIZE = 512"
definition MAX_INODE_CNT :: nat where [layout]: "MAX_INODE_CNT = 100"
definition sizeof_inode :: nat where [layout]: "sizeof_inode = 16"
definition MAX_INODE_SECTORS :: nat where [layout]:
  "MAX_INODE_SECTORS = (MAX_INODE_CNT * sizeof_inode + 511) div 512"
definition FINUX_MAGIC :: u32 where [layout]: "FINUX_MAGIC = 563855"
definition FINUX_SYSID :: u8 where [layout]: "FINUX_SYSID = 0xd"

record super_block =
  magic :: u32
  inode_cnt :: u32
  sb_sector_cnt :: u32
  inode_map_sectors :: u32
  inode_map_start :: u32
  sector_map_sectors :: u32
  sector_map_start :: u32
  inode_array_start :: u32
  first_data_sector :: u32
  inode_sectors :: u32
  root_start :: u32
  root_inode :: u32
  root_sectors :: u32
  inode_size :: u32
  dir_ent_size :: u32

definition READ_WRITE :: u32 where [layout]: "READ_WRITE = 2"

record inode =
  mode :: u32
  file_size :: u32
  file_start_sect :: u32
  file_sector_cnt :: u32

text \<open>A \<^verbatim>\<open>struct dir_entry\<close> is an inode number and twelve characters.\<close>

definition sizeof_dir_entry :: nat where [layout]: "sizeof_dir_entry = 16"
definition OFF_name :: u32 where [layout]: "OFF_name = 4"

section \<open>Structures in memory\<close>

definition read_part :: "bmem \<Rightarrow> u32 \<Rightarrow> part_table" where
  "read_part m a =
     \<lparr>status = m a, first_head_num = m (a + 1), first_sector_num = m (a + 2),
      first_cylinder_low = m (a + 3), system_id = m (a + 4), end_head_num = m (a + 5),
      end_sector_num = m (a + 6), end_cylinder_low = m (a + 7),
      first_LBA = load32 m (a + 8), sector_cnt = load32 m (a + 12)\<rparr>"

definition super_words :: "super_block \<Rightarrow> u32 list" where
  "super_words b =
     [magic b, inode_cnt b, sb_sector_cnt b, inode_map_sectors b, inode_map_start b,
      sector_map_sectors b, sector_map_start b, inode_array_start b, first_data_sector b,
      inode_sectors b, root_start b, root_inode b, root_sectors b, inode_size b, dir_ent_size b]"

definition read_super :: "bmem \<Rightarrow> u32 \<Rightarrow> super_block" where
  "read_super m a =
     \<lparr>magic = load32 m a, inode_cnt = load32 m (a + 4), sb_sector_cnt = load32 m (a + 8),
      inode_map_sectors = load32 m (a + 12), inode_map_start = load32 m (a + 16),
      sector_map_sectors = load32 m (a + 20), sector_map_start = load32 m (a + 24),
      inode_array_start = load32 m (a + 28), first_data_sector = load32 m (a + 32),
      inode_sectors = load32 m (a + 36), root_start = load32 m (a + 40),
      root_inode = load32 m (a + 44), root_sectors = load32 m (a + 48),
      inode_size = load32 m (a + 52), dir_ent_size = load32 m (a + 56)\<rparr>"

definition inode_words :: "inode \<Rightarrow> u32 list" where
  "inode_words n = [mode n, file_size n, file_start_sect n, file_sector_cnt n]"

definition read_inode :: "bmem \<Rightarrow> u32 \<Rightarrow> inode" where
  "read_inode m a =
     \<lparr>mode = load32 m a, file_size = load32 m (a + 4), file_start_sect = load32 m (a + 8),
      file_sector_cnt = load32 m (a + 12)\<rparr>"

text \<open>The bytes of a word and of the fields of a structure, in memory order.\<close>

definition word_bytes :: "u32 \<Rightarrow> u8 list" where
  "word_bytes v = [ucast v, ucast (drop_bit 8 v), ucast (drop_bit 16 v), ucast (drop_bit 24 v)]"

definition words_bytes :: "u32 list \<Rightarrow> u8 list" where
  "words_bytes vs = concat (map word_bytes vs)"

section \<open>The state of fs.c\<close>

record fs_state =
  disk :: hd_state
  primary :: "part_table list"
  logical :: "part_table list"
  super_block :: super_block
  inode_array :: "inode list"
  base_sector :: u32

abbreviation mem :: "fs_state \<Rightarrow> bmem" where
  "mem s \<equiv> dram (disk s)"

text \<open>
  Addresses: the locals \<^verbatim>\<open>buf\<close>, \<^verbatim>\<open>superblock\<close> and \<^verbatim>\<open>root_inode\<close>, the globals
  \<^verbatim>\<open>tmp_buf\<close> and \<^verbatim>\<open>root_area\<close>, and the string literals of the dot and of the kernel's name.
\<close>

record fs_addrs =
  local_buf :: u32
  local_super :: u32
  local_inode :: u32
  tmp_buf :: u32
  root_area :: u32
  dot_str :: u32
  name_str :: u32

definition on_disk :: "(hd_state \<Rightarrow> hd_state outcome) \<Rightarrow> fs_state \<Rightarrow> fs_state outcome" where
  "on_disk f s = bind_outcome (f (disk s)) (\<lambda>h. Inr (s\<lparr>disk := h\<rparr>))"

definition set_mem :: "(bmem \<Rightarrow> bmem) \<Rightarrow> fs_state \<Rightarrow> fs_state" where
  "set_mem f s = s\<lparr>disk := (disk s)\<lparr>dram := f (mem s)\<rparr>\<rparr>"

text \<open>Reads and writes of the fixed arrays, with their bounds.\<close>

definition table_at :: "bmem \<Rightarrow> u32 \<Rightarrow> nat \<Rightarrow> part_table outcome" where
  "table_at m b off =
     (if off + 16 \<le> SECTOR_SIZE then Inr (read_part m (b + of_nat off)) else Inl Out_Of_Bounds)"

definition set_at :: "'a list \<Rightarrow> nat \<Rightarrow> 'a \<Rightarrow> 'a list outcome" where
  "set_at xs i x = (if i < length xs then Inr (xs[i := x]) else Inl Out_Of_Bounds)"

lemma bind_outcome_cong [fundef_cong]:
  "x = y \<Longrightarrow> (\<And>a. y = Inr a \<Longrightarrow> f a = g a) \<Longrightarrow> bind_outcome x f = bind_outcome y g"
  by (cases y) auto

section \<open>get\_part\_information\<close>

text \<open>
  The table of the master boot record; the loop reads an entry before it tests that the entry is
  still in the table.
\<close>

function primary_loop :: "u32 \<Rightarrow> nat \<Rightarrow> nat \<Rightarrow> nat \<Rightarrow> fs_state \<Rightarrow> (nat \<times> fs_state) outcome" where
  "primary_loop b tab_local prim logic s =
     bind_outcome (table_at (mem s) b tab_local) (\<lambda>table.
       if system_id table \<noteq> PART_EMPTY \<and> tab_local < PART_TABLE_END
       then bind_outcome
              (if system_id table = PART_EXTENDED
               then bind_outcome (set_at (logical s) logic table)
                      (\<lambda>l. Inr (logic + 1, s\<lparr>logical := l\<rparr>))
               else Inr (logic, s))
              (\<lambda>(logic, s). bind_outcome (set_at (primary s) prim table)
                (\<lambda>p. primary_loop b (tab_local + 16) (prim + 1) logic (s\<lparr>primary := p\<rparr>)))
       else Inr (logic, s))"
  by pat_completeness auto
termination
  by (relation "measure (\<lambda>(b, tab_local, prim, logic, s). PART_TABLE_END - tab_local)") auto

declare primary_loop.simps [simp del]

text \<open>The chain of tables in the extended partition.\<close>

function logical_loop :: "device \<Rightarrow> (history \<Rightarrow> bool) \<Rightarrow> u32 \<Rightarrow> nat \<Rightarrow> fs_state \<Rightarrow> fs_state outcome" where
  "logical_loop dev irq b logic s =
     (let table = read_part (mem s) (b + of_nat PART_TABLE_OFFSET);
          link = read_part (mem s) (b + of_nat (PART_TABLE_OFFSET + 0x10)) in
      if system_id table \<noteq> PART_EMPTY
      then bind_outcome (set_at (logical s) logic table) (\<lambda>l.
             if system_id link \<noteq> PART_EMPTY
             then bind_outcome (set_at l (logic + 1) link) (\<lambda>l.
                    bind_outcome (on_disk (hd_read dev irq (first_LBA link + first_LBA (l ! 0)) 1 b)
                        (s\<lparr>logical := l\<rparr>))
                      (\<lambda>s. logical_loop dev irq b (logic + 2) s))
             else Inr (s\<lparr>logical := l\<rparr>))
      else Inr s)"
  by pat_completeness auto
termination
  by (relation "measure (\<lambda>(dev, irq, b, logic, s). length (logical s) - logic)")
    (auto simp: set_at_def on_disk_def bind_outcome_Inr split: if_splits)

declare logical_loop.simps [simp del]

definition get_part_information :: "device \<Rightarrow> (history \<Rightarrow> bool) \<Rightarrow> fs_addrs \<Rightarrow> fs_state \<Rightarrow> fs_state outcome" where
  "get_part_information dev irq L s =
     bind_outcome (on_disk (hd_read dev irq 0 1 (local_buf L)) s) (\<lambda>s.
     bind_outcome (primary_loop (local_buf L) PART_TABLE_OFFSET 0 0 s) (\<lambda>(logic, s).
     bind_outcome (on_disk (hd_read dev irq (first_LBA (logical s ! 0)) 1 (local_buf L)) s) (\<lambda>s.
     logical_loop dev irq (local_buf L) logic s)))"

section \<open>make\_fs\<close>

text \<open>The search loop: the index of the first Finux partition, or the length.\<close>

definition finux_index :: "part_table list \<Rightarrow> nat" where
  "finux_index ts = length (takeWhile (\<lambda>t. system_id t \<noteq> FINUX_SYSID) ts)"

text \<open>
  The partition and \<^verbatim>\<open>base_sector\<close>. When no table names a Finux partition and there is no
  extended one, the test before the panic sees the count of the primary search and the pointer
  is used unset; a Finux entry in the first place of \<^verbatim>\<open>logical\<close> makes the code read the entry
  before it.
\<close>

definition find_partition :: "fs_state \<Rightarrow> (part_table \<times> fs_state) outcome" where
  "find_partition s =
     (let part = finux_index (primary s);
          s = s\<lparr>base_sector := first_LBA (logical s ! 0)\<rparr> in
      if part < PRIMARY_MAX_CNT then Inr (primary s ! part, s)
      else if system_id (logical s ! 0) \<noteq> 0
      then let part = finux_index (logical s) in
           if part < LOGIC_MAX_CNT
           then if part = 0 then Inl Out_Of_Bounds
                else Inr (logical s ! part,
                  if system_id (logical s ! (part - 1)) = system_id (logical s ! 0) \<and> part - 1 \<noteq> 0
                  then s\<lparr>base_sector := base_sector s + first_LBA (logical s ! (part - 1))\<rparr>
                  else s)
           else Inl (Panic ''there is no partation for Finux filesystem.'')
      else Inl Uninitialised)"

definition new_super :: "u32 \<Rightarrow> part_table \<Rightarrow> super_block" where
  "new_super base t =
     (let map_sectors = sector_cnt t div 512 div 8;
          inodes = of_nat (MAX_INODE_CNT * sizeof_inode) :: u32;
          sectors = (if inodes mod 512 \<noteq> 0 then inodes div 512 + 1 else inodes div 512);
          array = base + 2 + 1 + map_sectors;
          root = array + sectors
      in \<lparr>magic = FINUX_MAGIC, inode_cnt = of_nat MAX_INODE_CNT, sb_sector_cnt = sector_cnt t,
          inode_map_sectors = 1, inode_map_start = base + 2, sector_map_sectors = map_sectors,
          sector_map_start = base + 2 + 1, inode_array_start = array,
          first_data_sector = root + sectors, inode_sectors = sectors, root_start = root,
          root_inode = 0, root_sectors = sectors, inode_size = of_nat sizeof_inode,
          dir_ent_size = of_nat sizeof_dir_entry\<rparr>)"

definition new_root :: "super_block \<Rightarrow> inode" where
  "new_root b = \<lparr>mode = READ_WRITE, file_size = root_sectors b * 512,
     file_start_sect = root_start b, file_sector_cnt = root_sectors b\<rparr>"

text \<open>From the point where the partition holds no file system.\<close>

definition format_part :: "device \<Rightarrow> (history \<Rightarrow> bool) \<Rightarrow> fs_addrs \<Rightarrow> u32 \<Rightarrow> part_table \<Rightarrow>
    fs_state \<Rightarrow> (int \<times> fs_state) outcome" where
  "format_part dev irq L base t s =
     (let buf = local_buf L;
          b = new_super base t;
          s = set_mem (\<lambda>m. put_bytes m (local_super L) (words_bytes (super_words b))) s;
          s = set_mem (\<lambda>m. memset m buf 0 512) s;
          s = set_mem (\<lambda>m. memcpy m buf (local_super L) 60) s in
      bind_outcome (on_disk (hd_write dev irq (base + 1) 1 (local_super L)) s) (\<lambda>s.
      let s = set_mem (\<lambda>m. memset m buf 0 512) s in
      bind_outcome (for_up MAX_INODE_SECTORS 0
        (\<lambda>i. on_disk (hd_write dev irq (inode_array_start b + i) 1 buf)) s) (\<lambda>s.
      let s = set_mem (\<lambda>m. put_bytes m (local_inode L) (words_bytes (inode_words (new_root b)))) s;
          s = set_mem (\<lambda>m. memcpy m buf (local_inode L) 16) s in
      bind_outcome (on_disk (hd_write dev irq (inode_array_start b) 1 buf) s) (\<lambda>s.
      let s = set_mem (\<lambda>m. memset m buf 0 512) s;
          s = set_mem (\<lambda>m. m(buf + root_inode b := 1)) s in
      bind_outcome (on_disk (hd_write dev irq (inode_map_start b) 1 buf) s) (\<lambda>s.
      let s = set_mem (\<lambda>m. m(buf + root_inode b := 0)) s in
      bind_outcome (for_up (unat (sector_map_sectors b)) 0
        (\<lambda>i. on_disk (hd_write dev irq (sector_map_start b + i) 1 buf)) s) (\<lambda>s.
      let s = set_mem (\<lambda>m. memset m buf 0 512) s in
      bind_outcome (for_up (unat (root_sectors b)) 0
        (\<lambda>i. on_disk (hd_write dev irq (root_start b + i) 1 buf)) s) (\<lambda>s.
      Inr (1, s))))))))"

definition make_fs :: "device \<Rightarrow> (history \<Rightarrow> bool) \<Rightarrow> fs_addrs \<Rightarrow> fs_state \<Rightarrow> (int \<times> fs_state) outcome" where
  "make_fs dev irq L s =
     bind_outcome (find_partition s) (\<lambda>(t, s).
     let s = s\<lparr>base_sector := first_LBA t + base_sector s\<rparr> in
     bind_outcome (on_disk (hd_read dev irq (base_sector s + 1) 1 (local_buf L)) s) (\<lambda>s.
     if load32 (mem s) (local_buf L) = FINUX_MAGIC then Inr (0, s)
     else format_part dev irq L (base_sector s) t s))"

section \<open>Reading the file system\<close>

definition get_sector :: "device \<Rightarrow> (history \<Rightarrow> bool) \<Rightarrow> u32 \<Rightarrow> u32 \<Rightarrow> fs_state \<Rightarrow> fs_state outcome" where
  "get_sector dev irq LBA b s = on_disk (hd_read dev irq LBA 1 b) s"

definition get_super_block :: "device \<Rightarrow> (history \<Rightarrow> bool) \<Rightarrow> fs_addrs \<Rightarrow> fs_state \<Rightarrow> fs_state outcome" where
  "get_super_block dev irq L s =
     bind_outcome (get_sector dev irq (base_sector s + 1) (tmp_buf L) s)
       (\<lambda>s. Inr (s\<lparr>super_block := read_super (mem s) (tmp_buf L)\<rparr>))"

text \<open>\<^verbatim>\<open>dis_str(".", 0xc, row, i)\<close>.\<close>

definition show_dot :: "fs_addrs \<Rightarrow> u32 \<Rightarrow> u32 \<Rightarrow> fs_state \<Rightarrow> fs_state outcome" where
  "show_dot L row i s =
     bind_outcome (dis_str (mem s) (dot_str L) 0xc row i) (\<lambda>(n, m). Inr (set_mem (\<lambda>_. m) s))"

text \<open>The bodies of the two loops, and the loops.\<close>

definition root_sector :: "device \<Rightarrow> (history \<Rightarrow> bool) \<Rightarrow> fs_addrs \<Rightarrow> u32 \<Rightarrow> fs_state \<Rightarrow> fs_state outcome" where
  "root_sector dev irq L i s =
     bind_outcome (show_dot L 7 i s) (\<lambda>s.
     bind_outcome (get_sector dev irq (root_start (super_block s) + i) (tmp_buf L) s) (\<lambda>s.
     if 32 * unat i + 32 \<le> MAX_INODE_CNT
     then Inr (set_mem (\<lambda>m. memcpy m (root_area L + 512 * i) (tmp_buf L) 512) s)
     else Inl Out_Of_Bounds))"

definition get_root_area :: "device \<Rightarrow> (history \<Rightarrow> bool) \<Rightarrow> fs_addrs \<Rightarrow> fs_state \<Rightarrow> fs_state outcome" where
  "get_root_area dev irq L s =
     for_up (unat (root_sectors (super_block s) - 3)) 0 (root_sector dev irq L) s"

definition inode_sector :: "device \<Rightarrow> (history \<Rightarrow> bool) \<Rightarrow> fs_addrs \<Rightarrow> u32 \<Rightarrow> fs_state \<Rightarrow> fs_state outcome" where
  "inode_sector dev irq L i s =
     bind_outcome (get_sector dev irq (inode_array_start (super_block s) + i) (tmp_buf L) s) (\<lambda>s.
     if 32 * unat i + 32 \<le> length (inode_array s)
     then Inr (s\<lparr>inode_array := take (32 * unat i) (inode_array s)
               @ map (\<lambda>j. read_inode (mem s) (tmp_buf L + 16 * of_nat j)) [0..<32]
               @ drop (32 * unat i + 32) (inode_array s)\<rparr>)
     else Inl Out_Of_Bounds)"

definition get_inode_array :: "device \<Rightarrow> (history \<Rightarrow> bool) \<Rightarrow> fs_addrs \<Rightarrow> fs_state \<Rightarrow> fs_state outcome" where
  "get_inode_array dev irq L s =
     for_up (unat (inode_sectors (super_block s))) 0 (inode_sector dev irq L) s"

section \<open>loader\_kernel\<close>

primrec find_loop :: "nat \<Rightarrow> nat \<Rightarrow> fs_addrs \<Rightarrow> bmem \<Rightarrow> nat option outcome" where
  "find_loop 0 i L m = Inr None"
| "find_loop (Suc n) i L m =
     bind_outcome (returns (strcmp m (name_str L) (root_area L + 16 * of_nat i + OFF_name))) (\<lambda>r.
       if r = 0 then Inr (Some i) else find_loop n (i + 1) L m)"

definition find_file_in_root :: "fs_addrs \<Rightarrow> bmem \<Rightarrow> nat option outcome" where
  "find_file_in_root L m = find_loop MAX_INODE_CNT 0 L m"

definition inode_at :: "inode list \<Rightarrow> u32 \<Rightarrow> inode outcome" where
  "inode_at ns i = (if unat i < length ns then Inr (ns ! unat i) else Inl Out_Of_Bounds)"

definition load_sector :: "device \<Rightarrow> (history \<Rightarrow> bool) \<Rightarrow> fs_addrs \<Rightarrow> inode \<Rightarrow> u32 \<Rightarrow> fs_state \<Rightarrow> fs_state outcome" where
  "load_sector dev irq L k i s =
     bind_outcome (on_disk (hd_read dev irq (file_start_sect k + i) 1 (tmp_buf L)) s) (\<lambda>s.
     bind_outcome (show_dot L 9 i s) (\<lambda>s.
     Inr (set_mem (\<lambda>m. memcpy m (KERNEL_LOAD_ADDRESS + i * 512) (tmp_buf L) 512) s)))"

definition loader_kernel :: "device \<Rightarrow> (history \<Rightarrow> bool) \<Rightarrow> fs_addrs \<Rightarrow> u32 \<Rightarrow> fs_state \<Rightarrow> fs_state outcome" where
  "loader_kernel dev irq L DetectCount s =
     bind_outcome (find_file_in_root L (mem s)) (\<lambda>r.
       case r of
         None \<Rightarrow> Inl (Panic ''Can not find kernel file !'')
       | Some e \<Rightarrow>
           bind_outcome (inode_at (inode_array s) (load32 (mem s) (root_area L + 16 * of_nat e))) (\<lambda>k.
           bind_outcome (for_up (unat (file_sector_cnt k)) 0 (load_sector dev irq L k) s) (\<lambda>s.
           Inr (set_mem (\<lambda>m. write_kernel_info m KERNEL_INFO_ADDRESS
             \<lparr>ki_size = file_size k, ki_start = KERNEL_LOAD_ADDRESS, memory_map_cnt = DetectCount\<rparr>) s))))"

section \<open>The disk as the file system sees it\<close>

text \<open>
  In state \<^verbatim>\<open>s\<close>, whose file-system variables are those of \<^verbatim>\<open>s0\<close>, the disk
  holds the sectors \<^verbatim>\<open>st\<close> and the memory is \<^verbatim>\<open>m\<close>.
\<close>

definition fs_vars :: "fs_state \<Rightarrow> part_table list \<times> part_table list \<times> super_block \<times> inode list \<times> u32" where
  "fs_vars s = (primary s, logical s, super_block s, inode_array s, base_sector s)"

definition fs_sees :: "device \<Rightarrow> (history \<Rightarrow> bool) \<Rightarrow> (nat \<Rightarrow> u8 list) \<Rightarrow> fs_state \<Rightarrow> fs_state \<Rightarrow>
    (nat \<Rightarrow> u8 list) \<Rightarrow> bmem \<Rightarrow> bool" where
  "fs_sees dev irq d s0 s st m \<longleftrightarrow> hd_sees dev irq d (disk s) st m \<and> fs_vars s = fs_vars s0"

lemma fs_sees_mem: "fs_sees dev irq d s0 s st m \<Longrightarrow> mem s = m"
  by (simp add: fs_sees_def hd_sees_def)

lemma fs_sees_self: "hd_sees dev irq d (disk s) st m \<Longrightarrow> fs_sees dev irq d s s st m"
  by (simp add: fs_sees_def)

lemma fs_sees_fields:
  assumes "fs_sees dev irq d s0 s st m"
  shows "primary s = primary s0" "logical s = logical s0" "super_block s = super_block s0"
    "inode_array s = inode_array s0" "base_sector s = base_sector s0"
  using assms by (simp_all add: fs_sees_def fs_vars_def)

lemma fs_sees_set_mem:
  "fs_sees dev irq d s0 s st m \<Longrightarrow> fs_sees dev irq d s0 (set_mem f s) st (f m)"
  by (simp add: fs_sees_def fs_vars_def hd_sees_def set_mem_def)

interpretation fs: sector_store "fs_sees dev irq d s0"
    "\<lambda>a b. on_disk (hd_read dev irq a 1 b)" "\<lambda>a b. on_disk (hd_write dev irq a 1 b)"
  for dev irq d s0
proof
  show "length (st k) = 512" if "fs_sees dev irq d s0 s st m" for s st m k
    using that hd.sector_length unfolding fs_sees_def by blast
  show "gives (on_disk (hd_read dev irq a 1 b) s)
      (\<lambda>s'. fs_sees dev irq d s0 s' st (put_bytes m b (st (lba28 a))))"
    if "fs_sees dev irq d s0 s st m" for s st m a b
    using hd.rd_sees [of dev irq d "disk s" st m a b] that
    by (auto simp: fs_sees_def fs_vars_def on_disk_def gives_def)
  show "gives (on_disk (hd_write dev irq a 1 b) s)
      (\<lambda>s'. fs_sees dev irq d s0 s' (st(lba28 a := bytes_at m b 512)) m)"
    if "fs_sees dev irq d s0 s st m" for s st m a b
    using hd.wr_sees [of dev irq d "disk s" st m a b] that
    by (auto simp: fs_sees_def fs_vars_def on_disk_def gives_def)
qed

section \<open>Structures in a sector\<close>

definition sector32 :: "u8 list \<Rightarrow> nat \<Rightarrow> u32" where
  "sector32 bs k = ucast (bs ! k) OR push_bit 8 (ucast (bs ! (k + 1)))
     OR push_bit 16 (ucast (bs ! (k + 2))) OR push_bit 24 (ucast (bs ! (k + 3)))"

definition part_in :: "u8 list \<Rightarrow> nat \<Rightarrow> part_table" where
  "part_in bs k =
     \<lparr>status = bs ! k, first_head_num = bs ! (k + 1), first_sector_num = bs ! (k + 2),
      first_cylinder_low = bs ! (k + 3), system_id = bs ! (k + 4), end_head_num = bs ! (k + 5),
      end_sector_num = bs ! (k + 6), end_cylinder_low = bs ! (k + 7),
      first_LBA = sector32 bs (k + 8), sector_cnt = sector32 bs (k + 12)\<rparr>"

lemma load32_put_bytes:
  assumes "k + 4 \<le> length bs" and "length bs \<le> 4294967295"
  shows "load32 (put_bytes m b bs) (b + of_nat k) = sector32 bs k"
proof -
  have "put_bytes m b bs (b + of_nat k + of_nat j) = bs ! (k + j)" if "j < 4" for j
    using put_bytes_self [of bs "k + j" m b] assms that by (simp add: add.assoc)
  from this [of 0] this [of 1] this [of 2] this [of 3] show ?thesis
    by (simp add: load32_def sector32_def)
qed

lemma read_part_put_bytes:
  assumes "k + 16 \<le> length bs" and "length bs \<le> 4294967295"
  shows "read_part (put_bytes m b bs) (b + of_nat k) = part_in bs k"
proof -
  have byte: "put_bytes m b bs (b + of_nat k + of_nat j) = bs ! (k + j)" if "j < 16" for j
    using put_bytes_self [of bs "k + j" m b] assms that by (simp add: add.assoc)
  have word: "load32 (put_bytes m b bs) (b + of_nat k + of_nat j) = sector32 bs (k + j)" if "j \<le> 12" for j
    using load32_put_bytes [of "k + j" bs m b] assms that by (simp add: add.assoc)
  from byte [of 0] byte [of 1] byte [of 2] byte [of 3] byte [of 4] byte [of 5] byte [of 6]
    byte [of 7] word [of 8] word [of 12]
  show ?thesis
    by (simp add: read_part_def part_in_def)
qed

lemma sector32_words:
  assumes "k < length vs"
  shows "sector32 (words_bytes vs @ xs) (4 * k) = vs ! k"
  using assms
proof (induction vs arbitrary: k)
  case Nil
  then show ?case by simp
next
  case (Cons v vs)
  show ?case
  proof (cases k)
    case 0
    then show ?thesis
      by (simp add: sector32_def words_bytes_def word_bytes_def bytes_of_u32)
  next
    case (Suc j)
    with Cons show ?thesis
      by (simp add: sector32_def words_bytes_def word_bytes_def add.commute [of 3])
  qed
qed

lemma length_words_bytes [simp]: "length (words_bytes vs) = 4 * length vs"
  by (induction vs) (simp_all add: words_bytes_def word_bytes_def)

lemma read_super_put_bytes:
  assumes "length xs \<le> 512"
  shows "read_super (put_bytes m b (words_bytes (super_words sb) @ xs)) b = sb"
proof -
  let ?bs = "words_bytes (super_words sb) @ xs"
  have len: "length (super_words sb) = 15"
    by (simp add: super_words_def)
  have "load32 (put_bytes m b ?bs) (b + of_nat (4 * k)) = super_words sb ! k" if "k < 15" for k
    using that assms len load32_put_bytes [of "4 * k" ?bs m b] sector32_words [of k "super_words sb" xs] by simp
  from this [of 0] this [of 1] this [of 2] this [of 3] this [of 4] this [of 5] this [of 6]
    this [of 7] this [of 8] this [of 9] this [of 10] this [of 11] this [of 12] this [of 13] this [of 14]
  show ?thesis
    by (simp add: read_super_def super_words_def)
qed

end
