(* ===== verification/FsMake.thy ===== *)
theory FsMake
  imports Fs
begin

text \<open>
  \<^verbatim>\<open>make_fs\<close>: the sectors it leaves, and what a second run and the reading functions make of
  them.
\<close>

section \<open>The layout of a new file system\<close>

lemma new_super_fields [simp]:
  "magic (new_super base t) = FINUX_MAGIC" "root_inode (new_super base t) = 0"
  "inode_map_start (new_super base t) = base + 2" "sector_map_start (new_super base t) = base + 3"
  "sector_map_sectors (new_super base t) = of_nat (unat (sector_cnt t) div 4096)"
  "inode_array_start (new_super base t) = base + of_nat (3 + unat (sector_cnt t) div 4096)"
  "inode_sectors (new_super base t) = 4" "root_sectors (new_super base t) = 4"
  "root_start (new_super base t) = base + of_nat (7 + unat (sector_cnt t) div 4096)"
  "first_data_sector (new_super base t) = base + of_nat (11 + unat (sector_cnt t) div 4096)"
proof -
  have d: "sector_cnt t div 512 div 8 = of_nat (unat (sector_cnt t) div 4096)"
    by (rule word_eq_of_nat) (simp add: unat_div div_mult2_eq [symmetric])
  have "(1600 :: u32) mod 512 = 64" "(1600 :: u32) div 512 = 3"
    by (rule word_eq_of_nat [where n = 64, simplified] word_eq_of_nat [where n = 3, simplified],
        simp add: unat_div unat_mod)+
  then show "magic (new_super base t) = FINUX_MAGIC" "root_inode (new_super base t) = 0"
    "inode_map_start (new_super base t) = base + 2" "sector_map_start (new_super base t) = base + 3"
    "sector_map_sectors (new_super base t) = of_nat (unat (sector_cnt t) div 4096)"
    "inode_array_start (new_super base t) = base + of_nat (3 + unat (sector_cnt t) div 4096)"
    "inode_sectors (new_super base t) = 4" "root_sectors (new_super base t) = 4"
    "root_start (new_super base t) = base + of_nat (7 + unat (sector_cnt t) div 4096)"
    "first_data_sector (new_super base t) = base + of_nat (11 + unat (sector_cnt t) div 4096)"
    by (simp_all add: new_super_def layout d Let_def)
qed

text \<open>
  The sectors after \<^verbatim>\<open>make_fs\<close> on a partition \<^verbatim>\<open>t\<close> at \<^verbatim>\<open>base\<close>: the super block,
  followed in its sector by whatever the stack held, the inode map, the sector map, the inode
  array with the root inode, and the empty root directory.
\<close>

definition new_fs :: "u32 \<Rightarrow> part_table \<Rightarrow> u8 list \<Rightarrow> (nat \<Rightarrow> u8 list) \<Rightarrow> nat \<Rightarrow> u8 list" where
  "new_fs base t leak st k =
     (let B = unat base; n = unat (sector_cnt t) div 4096 in
      if k = B + 1 then words_bytes (super_words (new_super base t)) @ leak
      else if k = B + 2 then 1 # replicate 511 0
      else if k = B + 3 + n
      then words_bytes (inode_words (new_root (new_super base t))) @ replicate 496 0
      else if B + 3 \<le> k \<and> k < B + 11 + n then replicate 512 0
      else st k)"

definition locals_apart :: "fs_addrs \<Rightarrow> bool" where
  "locals_apart L \<longleftrightarrow> disjoint_spans (local_buf L) 512 (local_super L) 60
     \<and> disjoint_spans (local_buf L) 512 (local_inode L) 16"

lemma bytes_at_memset: "bytes_at (memset m b 0 512) b 512 = replicate 512 0"
  by (rule nth_equalityI) (simp_all add: memset_apply)

lemma bytes_at_append: "bytes_at m a (i + j) = bytes_at m a i @ bytes_at m (a + of_nat i) j"
  by (rule nth_equalityI) (auto simp: nth_append)

lemma super_sector:
  fixes m :: bmem
  assumes "disjoint_spans b 512 sb 60" and "length bs = 60"
  defines "m' \<equiv> memcpy (memset (put_bytes m sb bs) b 0 512) b sb 60"
  shows "bytes_at m' sb 512 = bs @ bytes_at m' (sb + 60) 452"
proof -
  have "m' (sb + of_nat i) = bs ! i" if "i < 60" for i
    using disjoint_spans_outside [OF assms(1) that] that assms(1,2)
    by (simp add: m'_def memcpy_apply memset_apply disjoint_spans_def)
  then have "bytes_at m' sb 60 = bs"
    using assms(2) by (intro nth_equalityI) simp_all
  then show ?thesis
    using bytes_at_append [of m' sb 60 452] by simp
qed

lemma new_inode_sector:
  assumes "disjoint_spans b 512 ino 16" and "length bs = 16"
  shows "bytes_at (memcpy (put_bytes (memset m b 0 512) ino bs) b ino 16) b 512 = bs @ replicate 496 0"
proof (rule nth_equalityI)
  let ?m = "memcpy (put_bytes (memset m b 0 512) ino bs) b ino 16"
  fix i assume "i < length (bytes_at ?m b 512)"
  then have i: "i < 512" by simp
  have "16 \<le> unat (b + of_nat i - ino)"
    using disjoint_spans_outside [OF disjoint_spans_sym [OF assms(1)] i] .
  then show "bytes_at ?m b 512 ! i = (bs @ replicate 496 0) ! i"
    using i assms by (simp add: memcpy_apply put_bytes_apply memset_apply disjoint_spans_def nth_append)
qed (simp add: assms)

lemma map_sector: "bytes_at ((memset m b 0 512)(b := 1)) b 512 = 1 # replicate 511 0"
proof (rule nth_equalityI)
  fix i assume "i < length (bytes_at ((memset m b 0 512)(b := 1)) b 512)"
  then have i: "i < 512" by simp
  then have "(of_nat i :: u32) = 0 \<longleftrightarrow> i = 0"
    using of_nat_inj_below [of i 0, where 'a = 32] by simp
  with i show "bytes_at ((memset m b 0 512)(b := 1)) b 512 ! i = (1 # replicate 511 0) ! i"
    by (simp add: memset_apply nth_Cons')
qed simp

lemma cleared_sector: "bytes_at ((memset m b 0 512)(b := 1, b := 0)) b 512 = replicate 512 0"
  by (rule nth_equalityI) (simp_all add: memset_apply)

section \<open>The run of make\_fs\<close>

text \<open>One write of the code, as a step on the sectors.\<close>

lemma write_step:
  assumes "fs_sees dev irq d s0 s st m" and "lba28 a = k" and "bytes_at m b 512 = bs"
    and "\<And>s. fs_sees dev irq d s0 s (st(k := bs)) m \<Longrightarrow> gives (f s) Q"
  shows "gives (bind_outcome (on_disk (hd_write dev irq a 1 b) s) f) Q"
  using fs.wr_sees [OF assms(1), of a b] assms(2-4) by (blast intro: gives_bind)

lemma write_run_step:
  assumes "fs_sees dev irq d s0 s st m" and "unat a = k" and "bytes_at m b 512 = bs"
    and "k + n \<le> 268435456"
    and "\<And>s. fs_sees dev irq d s0 s (\<lambda>i. if k \<le> i \<and> i < k + n then bs else st i) m \<Longrightarrow> gives (f s) Q"
  shows "gives (bind_outcome (for_up n 0 (\<lambda>i. on_disk (hd_write dev irq (a + i) 1 b)) s) f) Q"
  using fs.wr_run [OF assms(1), of a n b] assms(2-5) by (blast intro: gives_bind)

lemma fs_sees_eq:
  "fs_sees dev irq d s0 s st m \<Longrightarrow> st = st' \<Longrightarrow> \<exists>m'. fs_sees dev irq d s0 s st' m'"
  by blast

lemma format_part_run:
  assumes s: "fs_sees dev irq d s0 s st m"
    and fits: "unat base + 11 + unat (sector_cnt t) div 4096 \<le> 268435456"
    and L: "locals_apart L"
  shows "gives (format_part dev irq L base t s) (\<lambda>(r, s'). r = 1 \<and> (\<exists>leak. length leak = 452
    \<and> (\<exists>m'. fs_sees dev irq d s0 s' (new_fs base t leak st) m')))" (is "gives _ ?Q")
proof -
  let ?b = "local_buf L" and ?B = "unat base"
  let ?n = "unat (sector_cnt t) div 4096" and ?sb = "new_super base t"
  have at: "unat (base + of_nat j) = ?B + j" "lba28 (base + of_nat j) = ?B + j"
    if "j < 11 + ?n" for j
    using that fits unat_add_no_wrap [of base j] lba28_add [of base j] by simp_all
  note at1 = at(2) [of 1, simplified] at(2) [of 2, simplified] and at_map = at(1) [of 3, simplified]
  have at3: "unat (base + of_nat (3 + ?n)) = ?B + (3 + ?n)" "lba28 (base + of_nat (3 + ?n)) = ?B + (3 + ?n)"
    and at7: "unat (base + of_nat (7 + ?n)) = ?B + (7 + ?n)"
    using at [of "3 + ?n"] at(1) [of "7 + ?n"] by simp_all
  have n: "unat (of_nat ?n :: u32) = ?n"
    using le_less_trans [OF div_le_dividend unat_u32_bound] by (rule unat_of_nat_u32)
  define m1 where "m1 = memcpy (memset (put_bytes m (local_super L) (words_bytes (super_words ?sb))) ?b 0 512) ?b (local_super L) 60"
  define leak where "leak = bytes_at m1 (local_super L + 60) 452"
  define m2 where "m2 = memcpy (put_bytes (memset m1 ?b 0 512) (local_inode L)
    (words_bytes (inode_words (new_root ?sb)))) ?b (local_inode L) 16"
  have len: "length (words_bytes (super_words ?sb)) = 60" "length (words_bytes (inode_words (new_root ?sb))) = 16"
    by (simp_all add: super_words_def inode_words_def)
  have super: "bytes_at m1 (local_super L) 512 = words_bytes (super_words ?sb) @ leak"
    using L super_sector [OF _ len(1)] by (simp add: locals_apart_def m1_def leak_def)
  have inode: "bytes_at m2 ?b 512 = words_bytes (inode_words (new_root ?sb)) @ replicate 496 0"
    using L new_inode_sector [OF _ len(2)] by (simp add: locals_apart_def m2_def)
  have s1: "fs_sees dev irq d s0 (set_mem (\<lambda>m. memcpy m ?b (local_super L) 60) (set_mem (\<lambda>m. memset m ?b 0 512)
      (set_mem (\<lambda>m. put_bytes m (local_super L) (words_bytes (super_words ?sb))) s))) st m1"
    unfolding m1_def by (intro fs_sees_set_mem s)
  show ?thesis
    unfolding format_part_def Let_def new_super_fields add_0_right MAX_INODE_SECTORS_def MAX_INODE_CNT_def sizeof_inode_def n
    apply (rule write_step [OF s1 at1(1) super])
    apply (erule write_run_step [OF fs_sees_set_mem], rule at3, rule bytes_at_memset)
     apply (use fits in simp)
    apply (erule write_step [OF fs_sees_set_mem [OF fs_sees_set_mem]], rule at3, rule inode [unfolded m2_def])
    apply (erule write_step [OF fs_sees_set_mem [OF fs_sees_set_mem]], rule at1, rule map_sector)
    apply (erule write_run_step [OF fs_sees_set_mem], rule at_map, rule cleared_sector)
     apply (use fits in simp)
    apply (erule write_run_step [OF fs_sees_set_mem], rule at7, rule bytes_at_memset)
     apply (use fits in simp)
    apply (simp only: gives_Inr prod.case)
    apply (intro conjI refl exI [of _ leak])
     apply (simp add: leak_def)
    apply (erule fs_sees_eq)
    apply (auto simp: new_fs_def Let_def fun_eq_iff)
    done
qed
lemma find_partition_disk: "find_partition s = Inr (t, s1) \<Longrightarrow> disk s1 = disk s"
  by (auto simp: find_partition_def Let_def split: if_splits)

lemma make_fs_run:
  assumes find: "find_partition s = Inr (t, s1)"
    and sees: "hd_sees dev irq d (disk s) st m"
    and base: "base = first_LBA t + base_sector s1"
    and small: "unat base + 1 < 268435456"
  shows "\<exists>s'. fs_sees dev irq d (s1\<lparr>base_sector := base\<rparr>) s' st (put_bytes m (local_buf L) (st (unat base + 1)))
    \<and> make_fs dev irq L s = (if sector32 (st (unat base + 1)) 0 = FINUX_MAGIC then Inr (0, s')
        else format_part dev irq L base t s')"
proof -
  let ?s = "s1\<lparr>base_sector := base\<rparr>"
  have s: "fs_sees dev irq d ?s ?s st m"
    using sees find_partition_disk [OF find] by (simp add: fs_sees_def)
  have at: "lba28 (base + 1) = unat base + 1"
    using lba28_add [of base 1] small by simp
  obtain s' where s': "on_disk (hd_read dev irq (base + 1) 1 (local_buf L)) ?s = Inr s'"
    "fs_sees dev irq d ?s s' st (put_bytes m (local_buf L) (st (unat base + 1)))"
    using fs.rd_sees [OF s, of "base + 1" "local_buf L"] at by (auto elim: givesE)
  moreover have "load32 (mem s') (local_buf L) = sector32 (st (unat base + 1)) 0"
    using load32_put_bytes [of 0 "st (unat base + 1)" m "local_buf L"] fs.sector_length [OF s]
    by (simp add: fs_sees_mem [OF s'(2)])
  moreover have "base_sector s' = base"
    using fs_sees_fields(5) [OF s'(2)] by simp
  ultimately show ?thesis
    using find base by (intro exI [of _ s']) (simp add: make_fs_def)
qed

text \<open>The search looks at the two tables only.\<close>

lemma find_partition_tables:
  assumes "find_partition s = Inr (t, s1)" and "primary s' = primary s" and "logical s' = logical s"
  shows "\<exists>s1'. find_partition s' = Inr (t, s1') \<and> base_sector s1' = base_sector s1
    \<and> primary s1 = primary s \<and> logical s1 = logical s"
  using assms by (auto simp: find_partition_def Let_def split: if_splits)

lemma sector32_super: "sector32 (words_bytes (super_words b) @ xs) 0 = magic b"
  using sector32_words [of 0 "super_words b" xs] by (simp add: super_words_def)

section \<open>Properties\<close>

text \<open>
  C20. On a partition without a file system, \<^verbatim>\<open>make_fs\<close> returns 1 and leaves exactly the
  layout \<^verbatim>\<open>new_fs\<close>: super block, inode map, sector map, root inode, empty inode array and
  empty root directory, every sector outside them untouched. The super block's sector ends in
  452 bytes of the stack.
\<close>

theorem make_fs_layout:
  assumes "find_partition s = Inr (t, s1)" and "hd_sees dev irq d (disk s) st m"
    and "base = first_LBA t + base_sector s1"
    and "sector32 (st (unat base + 1)) 0 \<noteq> FINUX_MAGIC"
    and "unat base + 11 + unat (sector_cnt t) div 4096 \<le> 268435456" and "locals_apart L"
  shows "gives (make_fs dev irq L s) (\<lambda>(r, s'). r = 1 \<and> base_sector s' = base \<and> (\<exists>leak m'.
    length leak = 452 \<and> hd_sees dev irq d (disk s') (new_fs base t leak st) m'))"
proof -
  obtain s' where "fs_sees dev irq d (s1\<lparr>base_sector := base\<rparr>) s' st (put_bytes m (local_buf L) (st (unat base + 1)))"
    and run: "make_fs dev irq L s = format_part dev irq L base t s'"
    using make_fs_run [OF assms(1-3), of L] assms(4,5) by auto
  from format_part_run [OF this(1) assms(5,6)] show ?thesis
    unfolding run
  proof (rule gives_mono)
    fix rs assume "case rs of (r, s') \<Rightarrow> r = 1 \<and> (\<exists>leak. length leak = 452
      \<and> (\<exists>m'. fs_sees dev irq d (s1\<lparr>base_sector := base\<rparr>) s' (new_fs base t leak st) m'))"
    then show "case rs of (r, s') \<Rightarrow> r = 1 \<and> base_sector s' = base \<and> (\<exists>leak m'.
      length leak = 452 \<and> hd_sees dev irq d (disk s') (new_fs base t leak st) m')"
      by (cases rs) (fastforce simp: fs_sees_def fs_vars_def)
  qed
qed

text \<open>
  C26. A file system is made once: after \<^verbatim>\<open>make_fs\<close> returned 1, a second run finds it, returns 0
  and changes no sector, and \<^verbatim>\<open>get_super_block\<close> reads back the super block that was made.
\<close>

theorem make_fs_read_back:
  assumes "find_partition s = Inr (t, s1)" and "hd_sees dev irq d (disk s) st m"
    and "base = first_LBA t + base_sector s1"
    and "sector32 (st (unat base + 1)) 0 \<noteq> FINUX_MAGIC"
    and "unat base + 11 + unat (sector_cnt t) div 4096 \<le> 268435456" and "locals_apart L"
  shows "gives (make_fs dev irq L s) (\<lambda>(r, s'). \<exists>st' m'. hd_sees dev irq d (disk s') st' m'
    \<and> gives (make_fs dev irq L s') (\<lambda>(r, s''). r = 0 \<and> (\<exists>m''. hd_sees dev irq d (disk s'') st' m''))
    \<and> gives (get_super_block dev irq L s') (\<lambda>s''. super_block s'' = new_super base t
        \<and> (\<exists>m''. hd_sees dev irq d (disk s'') st' m'')))"
proof -
  have small: "unat base + 1 < 268435456"
    using assms(5) by simp
  have at: "lba28 (base + 1) = unat base + 1"
    using lba28_add [of base 1] small by simp
  obtain s2 where "fs_sees dev irq d (s1\<lparr>base_sector := base\<rparr>) s2 st (put_bytes m (local_buf L) (st (unat base + 1)))"
    and run: "make_fs dev irq L s = format_part dev irq L base t s2"
    using make_fs_run [OF assms(1-3), of L] assms(4) small by auto
  from format_part_run [OF this(1) assms(5,6)] obtain r s' leak m'
    where made: "make_fs dev irq L s = Inr (r, s')" and leak: "length leak = 452"
      and s': "fs_sees dev irq d (s1\<lparr>base_sector := base\<rparr>) s' (new_fs base t leak st) m'"
    unfolding run by (auto elim!: givesE)
  have disk: "hd_sees dev irq d (disk s') (new_fs base t leak st) m'"
    using s' by (simp add: fs_sees_def)
  have super: "new_fs base t leak st (unat base + 1) = words_bytes (super_words (new_super base t)) @ leak"
    by (simp add: new_fs_def Let_def)
  obtain s1' where "find_partition s' = Inr (t, s1')" and "base_sector s1' = base_sector s1"
    using find_partition_tables [OF assms(1), of s'] find_partition_tables [OF assms(1) refl refl]
      fs_sees_fields [OF s'] by auto
  then have "find_partition s' = Inr (t, s1')" "base = first_LBA t + base_sector s1'"
    using assms(3) by simp_all
  from make_fs_run [OF this(1) disk this(2) small, of L] obtain s''
    where s'': "fs_sees dev irq d (s1'\<lparr>base_sector := base\<rparr>) s'' (new_fs base t leak st)
        (put_bytes m' (local_buf L) (new_fs base t leak st (unat base + 1)))"
      and "make_fs dev irq L s' = Inr (0, s'')"
    using super sector32_super by auto
  then have again: "gives (make_fs dev irq L s') (\<lambda>(r, s''). r = 0 \<and> (\<exists>m''. hd_sees dev irq d (disk s'') (new_fs base t leak st) m''))"
    by (auto simp: fs_sees_def)
  have base: "base_sector s' = base"
    using fs_sees_fields(5) [OF s'] by simp
  have "gives (get_super_block dev irq L s') (\<lambda>s''. super_block s'' = new_super base t
        \<and> (\<exists>m''. hd_sees dev irq d (disk s'') (new_fs base t leak st) m''))"
    unfolding get_super_block_def get_sector_def base
    by (rule gives_bind [OF fs.rd_sees [OF s', of "base + 1" "tmp_buf L"]])
      (auto simp: at super [simplified] leak fs_sees_mem read_super_put_bytes fs_sees_def)
  with made disk again show ?thesis
    by auto
qed

text \<open>A disk with one logical partition of 8192 sectors.\<close>

definition sample_part :: "u8 \<Rightarrow> u32 \<Rightarrow> u32 \<Rightarrow> part_table" where
  "sample_part i a n = \<lparr>status = 0, first_head_num = 0, first_sector_num = 0, first_cylinder_low = 0,
     system_id = i, end_head_num = 0, end_sector_num = 0, end_cylinder_low = 0,
     first_LBA = a, sector_cnt = n\<rparr>"

definition sample_fs :: "bmem \<Rightarrow> fs_state" where
  "sample_fs m = \<lparr>disk = sample_hd m, primary = replicate 4 (sample_part 0 0 0),
     logical = sample_part 5 100 9000 # sample_part 0xd 1 8192 # replicate 8 (sample_part 0 0 0),
     super_block = new_super 101 (sample_part 0xd 1 8192),
     inode_array = replicate 100 \<lparr>mode = 0, file_size = 0, file_start_sect = 0, file_sector_cnt = 0\<rparr>,
     base_sector = 0xb000\<rparr>"

definition sample_addrs :: fs_addrs where
  "sample_addrs = \<lparr>local_buf = 0x7000, local_super = 0x7400, local_inode = 0x7800, tmp_buf = 0x10000,
     root_area = 0x11000, dot_str = 0x12000, name_str = 0x12100\<rparr>"

lemma sample_part_fields [simp]:
  "system_id (sample_part i a n) = i" "first_LBA (sample_part i a n) = a" "sector_cnt (sample_part i a n) = n"
  by (simp_all add: sample_part_def)

lemma find_partition_sample:
  "\<exists>s1. find_partition (sample_fs m) = Inr (sample_part 0xd 1 8192, s1) \<and> base_sector s1 = 100"
  by (simp add: find_partition_def finux_index_def sample_fs_def takeWhile_replicate layout Let_def)

lemma locals_apart_sample: "locals_apart sample_addrs"
  by (simp add: locals_apart_def disjoint_spans_def sample_addrs_def)

theorem make_fs_layout_witness:
  "gives (make_fs (sample_dev (\<lambda>k. replicate 512 0)) (\<lambda>h. True) sample_addrs (sample_fs (\<lambda>x. 0)))
     (\<lambda>(r, s). r = 1 \<and> ata_contents (\<lambda>k. replicate 512 0) (history (wire (disk s))) 103 = 1 # replicate 511 0)"
proof -
  let ?d = "\<lambda>k :: nat. replicate 512 (0 :: u8)"
  obtain s1 where s1: "find_partition (sample_fs (\<lambda>x. 0)) = Inr (sample_part 0xd 1 8192, s1)" "base_sector s1 = 100"
    using find_partition_sample by blast
  have "hd_sees (sample_dev ?d) (\<lambda>h. True) ?d (disk (sample_fs (\<lambda>x. 0))) ?d (\<lambda>x. 0)"
    by (simp add: sample_fs_def hd_sees_sample)
  from make_fs_layout [OF s1(1) this refl _ _ locals_apart_sample] s1(2)
  show ?thesis
    by (auto simp: sector32_def sample_part_def layout hd_sees_def new_fs_def elim!: gives_mono)
qed

theorem make_fs_read_back_witness:
  "gives (make_fs (sample_dev (\<lambda>k. replicate 512 0)) (\<lambda>h. True) sample_addrs (sample_fs (\<lambda>x. 0)))
     (\<lambda>(r, s). gives (get_super_block (sample_dev (\<lambda>k. replicate 512 0)) (\<lambda>h. True) sample_addrs s)
       (\<lambda>s'. magic (super_block s') = 563855 \<and> root_start (super_block s') = 110))"
proof -
  let ?d = "\<lambda>k :: nat. replicate 512 (0 :: u8)"
  obtain s1 where s1: "find_partition (sample_fs (\<lambda>x. 0)) = Inr (sample_part 0xd 1 8192, s1)" "base_sector s1 = 100"
    using find_partition_sample by blast
  have "hd_sees (sample_dev ?d) (\<lambda>h. True) ?d (disk (sample_fs (\<lambda>x. 0))) ?d (\<lambda>x. 0)"
    by (simp add: sample_fs_def hd_sees_sample)
  from make_fs_read_back [OF s1(1) this refl _ _ locals_apart_sample] s1(2)
  show ?thesis
    by (auto simp: sector32_def sample_part_def layout elim!: gives_mono)
qed

end
