(* ===== verification/FsParts.thy ===== *)
theory FsParts
  imports FsMake
begin

text \<open>
  The partition tables: what \<^verbatim>\<open>get_part_information\<close> makes of the master boot record and of
  the chain of tables in the extended partition, and where \<^verbatim>\<open>find_partition\<close> places the Finux
  partition.
\<close>

section \<open>Overwriting a part of an array\<close>

definition overlay :: "'a list \<Rightarrow> nat \<Rightarrow> 'a list \<Rightarrow> 'a list" where
  "overlay xs i ys = take i xs @ ys @ drop (i + length ys) xs"

lemma overlay_Nil [simp]: "overlay xs i [] = xs"
  by (simp add: overlay_def)

lemma overlay_update:
  "i < length xs \<Longrightarrow> overlay (xs[i := y]) (Suc i) ys = overlay xs i (y # ys)"
  by (simp add: overlay_def upd_conv_take_nth_drop min_def add.commute)

lemma length_overlay [simp]: "i + length ys \<le> length xs \<Longrightarrow> length (overlay xs i ys) = length xs"
  by (simp add: overlay_def)

lemma overlay_before [simp]: "j < i \<Longrightarrow> i \<le> length xs \<Longrightarrow> overlay xs i ys ! j = xs ! j"
  by (simp add: overlay_def nth_append)

section \<open>The master boot record\<close>

text \<open>The used entries \<^verbatim>\<open>ps\<close> of the table, which an empty entry ends.\<close>

definition boot_record :: "u8 list \<Rightarrow> part_table list \<Rightarrow> bool" where
  "boot_record bs ps \<longleftrightarrow> length ps \<le> 3
     \<and> (\<forall>i < length ps. part_in bs (PART_TABLE_OFFSET + 16 * i) = ps ! i \<and> system_id (ps ! i) \<noteq> PART_EMPTY)
     \<and> system_id (part_in bs (PART_TABLE_OFFSET + 16 * length ps)) = PART_EMPTY"

definition is_extended :: "part_table \<Rightarrow> bool" where
  "is_extended t \<longleftrightarrow> system_id t = PART_EXTENDED"

lemma table_at_sector:
  assumes "mem s = put_bytes m b bs" and "length bs = 512" and "k + 16 \<le> 512"
  shows "table_at (mem s) b k = Inr (part_in bs k)"
  using assms read_part_put_bytes [of k bs m b] by (simp add: table_at_def layout)

lemma primary_loop_empty:
  "table_at (mem s) b off = Inr e \<Longrightarrow> system_id e = PART_EMPTY \<Longrightarrow> primary_loop b off prim logic s = Inr (logic, s)"
  by (subst primary_loop.simps) simp

lemma primary_loop_fails:
  "table_at (mem s) b off = Inl e \<Longrightarrow> primary_loop b off prim logic s = Inl e"
  by (subst primary_loop.simps) simp

text \<open>The loop takes the used entries and goes on behind them.\<close>

lemma primary_loop_entries:
  assumes "\<And>i. i < length ps \<Longrightarrow> table_at (mem s) b (off + 16 * i) = Inr (ps ! i)
      \<and> system_id (ps ! i) \<noteq> PART_EMPTY"
    and "prim + length ps \<le> length (primary s)"
    and "logic + length (filter is_extended ps) \<le> length (logical s)"
  shows "primary_loop b off prim logic s = primary_loop b (off + 16 * length ps) (prim + length ps)
    (logic + length (filter is_extended ps))
    (s\<lparr>primary := overlay (primary s) prim ps, logical := overlay (logical s) logic (filter is_extended ps)\<rparr>)"
  using assms
proof (induction ps arbitrary: off prim logic s)
  case Nil
  then show ?case by simp
next
  case (Cons p ps)
  let ?ext = "is_extended p"
  let ?l = "if ?ext then (logical s)[logic := p] else logical s"
  let ?n = "if ?ext then logic + 1 else logic"
  let ?s = "s\<lparr>logical := ?l, primary := (primary s)[prim := p]\<rparr>"
  have p: "table_at (mem s) b off = Inr p" "system_id p \<noteq> PART_EMPTY"
    using Cons.prems(1) [of 0] by simp_all
  then have off: "off < PART_TABLE_END"
    by (auto simp: table_at_def layout split: if_splits)
  have fits: "prim < length (primary s)" "?ext \<Longrightarrow> logic < length (logical s)"
    using Cons.prems(2,3) by auto
  have "primary_loop b off prim logic s = primary_loop b (off + 16) (prim + 1) ?n ?s"
    using p off fits by (subst primary_loop.simps) (simp add: set_at_def is_extended_def)
  also have "\<dots> = primary_loop b (off + 16 + 16 * length ps) (prim + 1 + length ps)
      (?n + length (filter is_extended ps)) (?s\<lparr>primary := overlay (primary ?s) (prim + 1) ps,
      logical := overlay (logical ?s) ?n (filter is_extended ps)\<rparr>)"
  proof (rule Cons.IH)
    show "table_at (mem ?s) b (off + 16 + 16 * i) = Inr (ps ! i) \<and> system_id (ps ! i) \<noteq> PART_EMPTY"
      if "i < length ps" for i
      using Cons.prems(1) [of "Suc i"] that by (simp add: algebra_simps)
  qed (use Cons.prems(2,3) in auto)
  finally show ?case
    using fits by (simp add: overlay_update algebra_simps)
qed

section \<open>The chain of tables in the extended partition\<close>

text \<open>
  \<^verbatim>\<open>ebr_chain st e a ts\<close>: the tables starting in sector \<^verbatim>\<open>a\<close> of the disk hold the entries
  \<^verbatim>\<open>ts\<close>, partition and link in turn, the links counted from \<^verbatim>\<open>e\<close>.
\<close>

fun ebr_chain :: "(nat \<Rightarrow> u8 list) \<Rightarrow> u32 \<Rightarrow> u32 \<Rightarrow> part_table list \<Rightarrow> bool" where
  "ebr_chain st e a [] \<longleftrightarrow> system_id (part_in (st (lba28 a)) 0x1be) = PART_EMPTY"
| "ebr_chain st e a [t] \<longleftrightarrow> part_in (st (lba28 a)) 0x1be = t \<and> system_id t \<noteq> PART_EMPTY
     \<and> system_id (part_in (st (lba28 a)) 0x1ce) = PART_EMPTY"
| "ebr_chain st e a (t # l # ts) \<longleftrightarrow> part_in (st (lba28 a)) 0x1be = t \<and> system_id t \<noteq> PART_EMPTY
     \<and> part_in (st (lba28 a)) 0x1ce = l \<and> system_id l \<noteq> PART_EMPTY
     \<and> ebr_chain st e (first_LBA l + e) ts"

lemma logical_loop_step:
  assumes "hd_sees dev irq d (disk s) st (put_bytes m b (st (lba28 a)))"
  shows "logical_loop dev irq b logic s =
     (let table = part_in (st (lba28 a)) 0x1be; link = part_in (st (lba28 a)) 0x1ce in
      if system_id table \<noteq> PART_EMPTY
      then bind_outcome (set_at (logical s) logic table) (\<lambda>l.
             if system_id link \<noteq> PART_EMPTY
             then bind_outcome (set_at l (logic + 1) link) (\<lambda>l.
                    bind_outcome (on_disk (hd_read dev irq (first_LBA link + first_LBA (l ! 0)) 1 b)
                        (s\<lparr>logical := l\<rparr>))
                      (\<lambda>s. logical_loop dev irq b (logic + 2) s))
             else Inr (s\<lparr>logical := l\<rparr>))
      else Inr s)"
proof -
  have "length (st (lba28 a)) = 512"
    by (rule hd.sector_length [OF assms])
  moreover have "mem s = put_bytes m b (st (lba28 a))"
    using assms by (simp add: hd_sees_def)
  ultimately have "read_part (mem s) (b + of_nat 0x1be) = part_in (st (lba28 a)) 0x1be"
    "read_part (mem s) (b + of_nat 0x1ce) = part_in (st (lba28 a)) 0x1ce"
    by (simp_all only: read_part_put_bytes)
  then show ?thesis
    by (subst logical_loop.simps) (simp add: layout Let_def)
qed

lemma logical_loop_run:
  assumes "ebr_chain st e a ts" and "hd_sees dev irq d (disk s) st (put_bytes m b (st (lba28 a)))"
    and "first_LBA (logical s ! 0) = e" and "0 < logic" and "logic \<le> length (logical s)"
  shows "(logic + length ts \<le> length (logical s) \<longrightarrow> gives (logical_loop dev irq b logic s) (\<lambda>s'.
      primary s' = primary s \<and> logical s' = overlay (logical s) logic ts \<and> (\<exists>m'. hd_sees dev irq d (disk s') st m' \<and> same_but b m m')))
    \<and> (length (logical s) < logic + length ts \<longrightarrow> logical_loop dev irq b logic s = Inl Out_Of_Bounds)"
  using assms
proof (induction st e a ts arbitrary: m logic s rule: ebr_chain.induct)
  case (1 st e a)
  then show ?case
    using same_but_put_bytes [OF same_but_refl hd.sector_length [OF "1.prems"(2)]]
    by (simp add: logical_loop_step gives_def) (auto simp: layout)
next
  case (2 st e a t)
  then show ?case
    using same_but_put_bytes [OF same_but_refl hd.sector_length [OF "2.prems"(2)]]
    by (auto simp: logical_loop_step set_at_def layout gives_def overlay_update [symmetric] Let_def)
next
  case (3 st e a t l ts)
  show ?case
  proof (cases "logic + 1 < length (logical s)")
    case False
    with 3 show ?thesis
      by (auto simp: logical_loop_step set_at_def layout Let_def)
  next
    case True
    let ?l = "(logical s)[logic := t, logic + 1 := l]"
    let ?s = "s\<lparr>logical := ?l\<rparr>"
    have "hd_sees dev irq d (disk ?s) st (put_bytes m b (st (lba28 a)))"
      using 3 by simp
    from fs.rd_sees [OF fs_sees_self [OF this], of "first_LBA l + e" b] obtain s'
      where read: "on_disk (hd_read dev irq (first_LBA l + e) 1 b) ?s = Inr s'"
        and s': "fs_sees dev irq d ?s s' st (put_bytes (put_bytes m b (st (lba28 a))) b (st (lba28 (first_LBA l + e))))"
      by (rule givesE)
    have run: "logical_loop dev irq b logic s = logical_loop dev irq b (logic + 2) s'"
      using 3 True read by (simp add: logical_loop_step set_at_def layout Let_def)
    have s'_fields: "primary s' = primary s" "logical s' = ?l"
      using fs_sees_fields [OF s'] by simp_all
    have "(logic + 2 + length ts \<le> length (logical s') \<longrightarrow> gives (logical_loop dev irq b (logic + 2) s') (\<lambda>s''.
        primary s'' = primary s' \<and> logical s'' = overlay (logical s') (logic + 2) ts \<and> (\<exists>m'. hd_sees dev irq d (disk s'') st m' \<and> same_but b (put_bytes m b (st (lba28 a))) m')))
      \<and> (length (logical s') < logic + 2 + length ts \<longrightarrow> logical_loop dev irq b (logic + 2) s' = Inl Out_Of_Bounds)"
      using 3 True s' s'_fields by (intro "3.IH") (auto simp: fs_sees_def)
    then show ?thesis
      using True same_but_overwrite [OF hd.sector_length [OF "3.prems"(2)]]
      by (auto simp: run s'_fields overlay_update [symmetric] elim!: gives_mono)
  qed
qed

section \<open>The whole of get\_part\_information\<close>

lemma boot_record_entries:
  assumes "boot_record bs ps" and "mem s = put_bytes m b bs" and "length bs = 512"
  shows "i < length ps \<Longrightarrow> table_at (mem s) b (PART_TABLE_OFFSET + 16 * i) = Inr (ps ! i)
      \<and> system_id (ps ! i) \<noteq> PART_EMPTY"
    and "table_at (mem s) b (PART_TABLE_OFFSET + 16 * length ps)
      = Inr (part_in bs (PART_TABLE_OFFSET + 16 * length ps))"
  using assms table_at_sector [OF assms(2,3)] by (simp_all add: boot_record_def layout)

lemma get_part_information_run:
  assumes sees: "hd_sees dev irq d (disk s) st m" and len: "length (primary s) = PRIMARY_MAX_CNT" "length (logical s) = LOGIC_MAX_CNT"
    and mbr: "boot_record (st 0) ps"
  defines "x \<equiv> overlay (logical s) 0 (filter is_extended ps)"
  shows "\<exists>s' m'. hd_sees dev irq d (disk s') st (put_bytes m' (local_buf L) (st (lba28 (first_LBA (x ! 0)))))
    \<and> same_but (local_buf L) m m' \<and> primary s' = overlay (primary s) 0 ps \<and> logical s' = x
    \<and> get_part_information dev irq L s = logical_loop dev irq (local_buf L) (length (filter is_extended ps)) s'"
proof -
  let ?b = "local_buf L"
  obtain s1 where s1: "on_disk (hd_read dev irq 0 1 ?b) s = Inr s1"
    "fs_sees dev irq d s s1 st (put_bytes m ?b (st 0))"
    using fs.rd_sees [OF fs_sees_self [OF sees], of 0 ?b] by (auto simp: lba28_def elim: givesE)
  note e = boot_record_entries [OF mbr fs_sees_mem [OF s1(2)] fs.sector_length [OF s1(2)]]
  let ?s2 = "s1\<lparr>primary := overlay (primary s) 0 ps, logical := x\<rparr>"
  have fields: "primary s1 = primary s" "logical s1 = logical s"
    using fs_sees_fields [OF s1(2)] by simp_all
  have "length (filter is_extended ps) \<le> 3"
    using mbr le_trans [OF length_filter_le] by (auto simp: boot_record_def)
  then have "primary_loop ?b PART_TABLE_OFFSET 0 0 s1 = primary_loop ?b (PART_TABLE_OFFSET + 16 * length ps)
      (0 + length ps) (0 + length (filter is_extended ps)) ?s2"
    unfolding x_def fields [symmetric]
    using mbr e len fields by (intro primary_loop_entries) (auto simp: boot_record_def layout)
  also have "\<dots> = Inr (0 + length (filter is_extended ps), ?s2)"
  proof (rule primary_loop_empty)
    show "table_at (mem ?s2) ?b (PART_TABLE_OFFSET + 16 * length ps)
        = Inr (part_in (st 0) (PART_TABLE_OFFSET + 16 * length ps))"
      using e(2) by simp
    show "system_id (part_in (st 0) (PART_TABLE_OFFSET + 16 * length ps)) = PART_EMPTY"
      using mbr by (simp only: boot_record_def)
  qed
  finally have "primary_loop ?b PART_TABLE_OFFSET 0 0 s1 = Inr (0 + length (filter is_extended ps), ?s2)" .
  moreover have "hd_sees dev irq d (disk ?s2) st (put_bytes m ?b (st 0))"
    using s1(2) by (simp add: fs_sees_def)
  from fs.rd_sees [OF fs_sees_self [OF this], of "first_LBA (x ! 0)" ?b] obtain s'
    where "on_disk (hd_read dev irq (first_LBA (x ! 0)) 1 ?b) ?s2 = Inr s'"
      and s': "fs_sees dev irq d ?s2 s' st (put_bytes (put_bytes m ?b (st 0)) ?b (st (lba28 (first_LBA (x ! 0)))))"
    by (rule givesE)
  ultimately show ?thesis
    using s1(1) fs_sees_fields [OF s'] s'
      same_but_put_bytes [OF same_but_refl fs.sector_length [OF s1(2)]]
    by (intro exI [of _ s'] exI [of _ "put_bytes m ?b (st 0)"]) (simp add: get_part_information_def fs_sees_def)
qed

section \<open>Where the partition is\<close>

text \<open>
  The first Finux partition of a chain whose first table is in sector \<^verbatim>\<open>a\<close>: its entry and its
  sector, which an entry counts from the table it stands in.
\<close>

fun finux_at :: "u32 \<Rightarrow> u32 \<Rightarrow> part_table list \<Rightarrow> (part_table \<times> u32) option" where
  "finux_at e a [] = None"
| "finux_at e a [t] = (if system_id t = FINUX_SYSID then Some (t, a + first_LBA t) else None)"
| "finux_at e a (t # l # ts) =
     (if system_id t = FINUX_SYSID then Some (t, a + first_LBA t) else finux_at e (first_LBA l + e) ts)"

text \<open>Every second entry is a link.\<close>

fun links_extended :: "part_table list \<Rightarrow> bool" where
  "links_extended (t # l # ts) \<longleftrightarrow> is_extended l \<and> links_extended ts"
| "links_extended _ \<longleftrightarrow> True"

lemma finux_index_Cons:
  "finux_index (t # ts) = (if system_id t = FINUX_SYSID then 0 else Suc (finux_index ts))"
  by (simp add: finux_index_def)

lemma finux_index_none: "(\<And>t. t \<in> set ts \<Longrightarrow> system_id t \<noteq> FINUX_SYSID) \<Longrightarrow> finux_index ts = length ts"
  unfolding finux_index_def by (rule arg_cong [where f = length]) (simp add: takeWhile_eq_all_conv)

lemma finux_index_append:
  "finux_index ts < length ts \<Longrightarrow> finux_index (ts @ us) = finux_index ts"
  "finux_index ts = length ts \<Longrightarrow> finux_index (ts @ us) = length ts + finux_index us"
  by (induction ts) (auto simp: finux_index_Cons split: if_splits)

lemma finux_at_index:
  assumes "links_extended ts"
  shows "(finux_at e a ts = None \<longrightarrow> finux_index ts = length ts)
    \<and> (\<forall>t r. finux_at e a ts = Some (t, r) \<longrightarrow> (let i = finux_index ts in
         i < length ts \<and> ts ! i = t \<and> (i = 0 \<longrightarrow> r = a + first_LBA t)
         \<and> (0 < i \<longrightarrow> is_extended (ts ! (i - 1)) \<and> r = first_LBA (ts ! (i - 1)) + e + first_LBA t)))"
  using assms
proof (induction e a ts rule: finux_at.induct)
  case (1 e a)
  then show ?case by (simp add: finux_index_def)
next
  case (2 e a t)
  then show ?case by (auto simp: finux_index_def)
next
  case (3 e a t l ts)
  have l: "is_extended l" "system_id l \<noteq> FINUX_SYSID"
    using 3 by (simp_all add: is_extended_def layout)
  show ?case
  proof (cases "system_id t = FINUX_SYSID")
    case True
    then show ?thesis by (simp add: finux_index_Cons)
  next
    case False
    with 3 l show ?thesis
      by (cases "finux_index ts") (auto simp: finux_index_Cons Let_def)
  qed
qed

lemma find_partition_chain:
  assumes "\<And>t. t \<in> set (primary s) \<Longrightarrow> system_id t \<noteq> FINUX_SYSID" and "length (primary s) = PRIMARY_MAX_CNT"
    and "logical s = x # ts @ us" and "is_extended x" and "links_extended ts" and "length (logical s) = LOGIC_MAX_CNT"
    and "\<And>t. t \<in> set us \<Longrightarrow> system_id t \<noteq> FINUX_SYSID"
  shows "case finux_at (first_LBA x) (first_LBA x) ts of
      None \<Rightarrow> find_partition s = Inl (Panic ''there is no partation for Finux filesystem.'')
    | Some (t, r) \<Rightarrow> gives (find_partition s) (\<lambda>(t', s'). t' = t \<and> first_LBA t + base_sector s' = r)"
proof -
  have none: "finux_index (primary s) = 4"
    using finux_index_none [of "primary s"] assms(1,2) by (simp add: layout)
  have x: "system_id x \<noteq> FINUX_SYSID" "system_id x \<noteq> 0" "system_id x = PART_EXTENDED"
    using assms(4) by (simp_all add: is_extended_def layout)
  have us: "finux_index us = length us"
    using assms(7) by (rule finux_index_none)
  show ?thesis
  proof (cases "finux_at (first_LBA x) (first_LBA x) ts")
    case None
    then have "finux_index (logical s) = 10"
      using finux_at_index [OF assms(5)] finux_index_append(2) [of ts us] us assms(3,6) x
      by (simp add: finux_index_Cons layout)
    then show ?thesis
      using None none x assms(3) by (simp add: find_partition_def layout)
  next
    case (Some tr)
    obtain t r where tr: "tr = (t, r)" by (cases tr)
    let ?i = "finux_index ts"
    have i: "?i < length ts" "ts ! ?i = t" "?i = 0 \<Longrightarrow> r = first_LBA x + first_LBA t"
      "0 < ?i \<Longrightarrow> is_extended (ts ! (?i - 1)) \<and> r = first_LBA (ts ! (?i - 1)) + first_LBA x + first_LBA t"
      using finux_at_index [OF assms(5), of "first_LBA x" "first_LBA x"] Some tr by (auto simp: Let_def)
    have idx: "finux_index (logical s) = Suc ?i" "Suc ?i < 10"
      using finux_index_append(1) [of ts us] i(1) assms(3,6) x by (simp_all add: finux_index_Cons layout)
    have "logical s ! Suc ?i = t"
      using i(1,2) assms(3) by (simp add: nth_append)
    moreover have "logical s ! ?i = (if ?i = 0 then x else ts ! (?i - 1))"
      using i(1) assms(3) by (cases ?i) (simp_all add: nth_append)
    ultimately show ?thesis
      using none x idx i(3,4) Some tr assms(3)
      by (cases "?i = 0") (simp_all add: find_partition_def layout is_extended_def Let_def)
  qed
qed

section \<open>Properties\<close>

text \<open>The arrays before the loader has filled them.\<close>

definition no_part :: part_table where
  "no_part = \<lparr>status = 0, first_head_num = 0, first_sector_num = 0, first_cylinder_low = 0,
     system_id = 0, end_head_num = 0, end_sector_num = 0, end_cylinder_low = 0,
     first_LBA = 0, sector_cnt = 0\<rparr>"

definition tables_clear :: "fs_state \<Rightarrow> bool" where
  "tables_clear s \<longleftrightarrow> primary s = replicate PRIMARY_MAX_CNT no_part
     \<and> logical s = replicate LOGIC_MAX_CNT no_part"

lemma partition_run:
  assumes "hd_sees dev irq d (disk s) st m" and "tables_clear s" and "boot_record (st 0) ps"
    and "\<And>t. t \<in> set ps \<Longrightarrow> system_id t \<noteq> FINUX_SYSID" and "filter is_extended ps = [x]"
    and "ebr_chain st (first_LBA x) (first_LBA x) ts" and "links_extended ts" and "length ts \<le> 9"
  shows "gives (get_part_information dev irq L s) (\<lambda>s'.
    (\<exists>m'. hd_sees dev irq d (disk s') st m' \<and> same_but (local_buf L) m m')
    \<and> (case finux_at (first_LBA x) (first_LBA x) ts of
      None \<Rightarrow> find_partition s' = Inl (Panic ''there is no partation for Finux filesystem.'')
    | Some (t, r) \<Rightarrow> gives (find_partition s') (\<lambda>(t', s''). t' = t \<and> first_LBA t + base_sector s'' = r)))"
proof -
  let ?z = "replicate 9 no_part"
  have ovl: "overlay (logical s) 0 [x] = x # ?z"
    using assms(2) by (simp add: overlay_def tables_clear_def layout eval_nat_numeral)
  have len: "length (primary s) = PRIMARY_MAX_CNT" "length (logical s) = LOGIC_MAX_CNT"
    using assms(2) by (simp_all add: tables_clear_def)
  obtain s1 m1 where s1: "hd_sees dev irq d (disk s1) st (put_bytes m1 (local_buf L) (st (lba28 (first_LBA x))))"
    "same_but (local_buf L) m m1" "primary s1 = overlay (primary s) 0 ps" "logical s1 = x # ?z"
    and run: "get_part_information dev irq L s = logical_loop dev irq (local_buf L) 1 s1"
    using get_part_information_run [OF assms(1) len assms(3), of L] unfolding assms(5) ovl by auto
  have "gives (logical_loop dev irq (local_buf L) 1 s1) (\<lambda>s'. primary s' = primary s1
      \<and> logical s' = overlay (logical s1) 1 ts
      \<and> (\<exists>m'. hd_sees dev irq d (disk s') st m' \<and> same_but (local_buf L) m1 m'))"
    using logical_loop_run [OF assms(6) s1(1), of 1] s1(4) assms(8) by simp
  then show ?thesis
    unfolding run
  proof (rule gives_mono)
    fix s' :: fs_state
    assume "primary s' = primary s1 \<and> logical s' = overlay (logical s1) 1 ts
      \<and> (\<exists>m'. hd_sees dev irq d (disk s') st m' \<and> same_but (local_buf L) m1 m')"
    then have s': "primary s' = ps @ drop (length ps) (primary s)" "logical s' = x # ts @ drop (length ts) ?z"
      and mem: "\<exists>m'. hd_sees dev irq d (disk s') st m' \<and> same_but (local_buf L) m1 m'"
      using s1 by (simp_all add: overlay_def)
    have "is_extended x"
      using arg_cong [OF assms(5), of set] by auto
    moreover have "t \<in> set (primary s') \<Longrightarrow> system_id t \<noteq> FINUX_SYSID" for t
      using s'(1) assms(2,4) by (auto simp: tables_clear_def no_part_def layout)
    moreover have "length (primary s') = PRIMARY_MAX_CNT"
      using s'(1) len assms(3) by (simp add: boot_record_def layout)
    moreover have "t \<in> set (drop (length ts) ?z) \<Longrightarrow> system_id t \<noteq> FINUX_SYSID" for t
      by (auto simp: no_part_def layout)
    ultimately have "case finux_at (first_LBA x) (first_LBA x) ts of
      None \<Rightarrow> find_partition s' = Inl (Panic ''there is no partation for Finux filesystem.'')
    | Some (t, r) \<Rightarrow> gives (find_partition s') (\<lambda>(t', s''). t' = t \<and> first_LBA t + base_sector s'' = r)"
      using assms(7,8) s'(2) by (intro find_partition_chain) (auto simp: layout split: if_splits)
    moreover have "\<exists>m'. hd_sees dev irq d (disk s') st m' \<and> same_but (local_buf L) m m'"
      using mem s1(2) by (auto simp: same_but_def)
    ultimately show "(\<exists>m'. hd_sees dev irq d (disk s') st m' \<and> same_but (local_buf L) m m')
      \<and> (case finux_at (first_LBA x) (first_LBA x) ts of
        None \<Rightarrow> find_partition s' = Inl (Panic ''there is no partation for Finux filesystem.'')
      | Some (t, r) \<Rightarrow> gives (find_partition s') (\<lambda>(t', s''). t' = t \<and> first_LBA t + base_sector s'' = r))"
      by blast
  qed
qed

text \<open>
  C21. On a disk whose boot record has at most three partitions, one of them extended and none a
  Finux partition, and whose chain of extended tables has at most nine entries, the tables are
  read, and the search finds the first Finux partition of the chain and its true first sector:
  its entry's address counted from the table that holds the entry. Without one it panics.
\<close>

theorem partition_located:
  assumes "hd_sees dev irq d (disk s) st m" and "tables_clear s" and "boot_record (st 0) ps"
    and "\<And>t. t \<in> set ps \<Longrightarrow> system_id t \<noteq> FINUX_SYSID" and "filter is_extended ps = [x]"
    and "ebr_chain st (first_LBA x) (first_LBA x) ts" and "links_extended ts" and "length ts \<le> 9"
  shows "gives (get_part_information dev irq L s) (\<lambda>s'.
    case finux_at (first_LBA x) (first_LBA x) ts of
      None \<Rightarrow> find_partition s' = Inl (Panic ''there is no partation for Finux filesystem.'')
    | Some (t, r) \<Rightarrow> gives (find_partition s') (\<lambda>(t', s''). t' = t \<and> first_LBA t + base_sector s'' = r))"
  by (rule gives_mono [OF partition_run [OF assms]]) (auto split: option.splits)

text \<open>
  C38. The array of ten entries takes both entries of every table of the chain: a chain of ten
  entries or more, six logical partitions instead of ten, runs past its end.
\<close>

theorem logical_partitions_overrun:
  assumes "hd_sees dev irq d (disk s) st m" and "tables_clear s" and "boot_record (st 0) ps"
    and "filter is_extended ps = [x]" and "ebr_chain st (first_LBA x) (first_LBA x) ts"
    and "9 < length ts"
  shows "get_part_information dev irq L s = Inl Out_Of_Bounds"
proof -
  have ovl: "overlay (logical s) 0 [x] = x # replicate 9 no_part"
    using assms(2) by (simp add: overlay_def tables_clear_def layout eval_nat_numeral)
  have len: "length (primary s) = PRIMARY_MAX_CNT" "length (logical s) = LOGIC_MAX_CNT"
    using assms(2) by (simp_all add: tables_clear_def)
  obtain s1 m' where s1: "hd_sees dev irq d (disk s1) st (put_bytes m' (local_buf L) (st (lba28 (first_LBA x))))"
    "logical s1 = x # replicate 9 no_part"
    and run: "get_part_information dev irq L s = logical_loop dev irq (local_buf L) 1 s1"
    using get_part_information_run [OF assms(1) len assms(3), of L] unfolding assms(4) ovl by auto
  show ?thesis
    using logical_loop_run [OF assms(5) s1(1), of 1] s1(2) assms(6) unfolding run by simp
qed

text \<open>
  With four used entries in the boot record the loop reads a fifth, which lies past the
  sector buffer: the entry is read before the offset is tested, and the end of the table is
  taken to be the end of the sector.
\<close>

lemma four_partitions_overread:
  assumes "hd_sees dev irq d (disk s) st m" and "tables_clear s"
    and "\<And>i. i < 4 \<Longrightarrow> system_id (part_in (st 0) (PART_TABLE_OFFSET + 16 * i)) \<noteq> PART_EMPTY"
  shows "get_part_information dev irq L s = Inl Out_Of_Bounds"
proof -
  let ?b = "local_buf L" and ?ps = "map (\<lambda>i. part_in (st 0) (PART_TABLE_OFFSET + 16 * i)) [0..<4]"
  obtain s1 where s1: "on_disk (hd_read dev irq 0 1 ?b) s = Inr s1"
    "fs_sees dev irq d s s1 st (put_bytes m ?b (st 0))"
    using fs.rd_sees [OF fs_sees_self [OF assms(1)], of 0 ?b] by (auto simp: lba28_def elim: givesE)
  have t: "table_at (mem s1) ?b (PART_TABLE_OFFSET + 16 * i) = Inr (part_in (st 0) (PART_TABLE_OFFSET + 16 * i))"
    if "i < 4" for i
    using that by (intro table_at_sector [OF fs_sees_mem [OF s1(2)] fs.sector_length [OF s1(2)]])
      (simp add: layout)
  have "length (filter is_extended ?ps) \<le> 4"
    using length_filter_le [of is_extended ?ps] by simp
  then have "primary_loop ?b PART_TABLE_OFFSET 0 0 s1 = primary_loop ?b (PART_TABLE_OFFSET + 16 * length ?ps)
    (0 + length ?ps) (0 + length (filter is_extended ?ps)) (s1\<lparr>primary := overlay (primary s1) 0 ?ps,
      logical := overlay (logical s1) 0 (filter is_extended ?ps)\<rparr>)"
    using assms(2,3) t fs_sees_fields [OF s1(2)]
    by (intro primary_loop_entries) (auto simp: tables_clear_def PRIMARY_MAX_CNT_def LOGIC_MAX_CNT_def simp del: upt_Suc)
  also have "\<dots> = Inl Out_Of_Bounds"
    by (rule primary_loop_fails) (simp add: table_at_def layout)
  finally have "primary_loop ?b PART_TABLE_OFFSET 0 0 s1 = Inl Out_Of_Bounds" .
  with s1(1) show ?thesis
    by (simp add: get_part_information_def)
qed

text \<open>
  A Finux partition that is the only entry of the boot record is placed at twice its
  address: without an extended partition the boot record is read again as its first table, and
  the address of that table's first partition is added to the partition's own.
\<close>

lemma lone_partition_misplaced:
  assumes "hd_sees dev irq d (disk s) st m" and "tables_clear s" and "boot_record (st 0) [t]"
    and "system_id t = FINUX_SYSID"
  shows "gives (get_part_information dev irq L s) (\<lambda>s'. gives (find_partition s') (\<lambda>(t', s'').
    t' = t \<and> first_LBA t + base_sector s'' = 2 * first_LBA t))"
proof -
  have ext: "filter is_extended [t] = []"
    using assms(4) by (simp add: is_extended_def layout)
  have len: "length (primary s) = PRIMARY_MAX_CNT" "length (logical s) = LOGIC_MAX_CNT"
    using assms(2) by (simp_all add: tables_clear_def)
  have z: "first_LBA (logical s ! 0) = 0"
    using assms(2) by (simp add: tables_clear_def no_part_def layout)
  obtain s1 m' where s1: "hd_sees dev irq d (disk s1) st (put_bytes m' (local_buf L) (st (lba28 0)))"
    "primary s1 = overlay (primary s) 0 [t]" "logical s1 = logical s"
    and run: "get_part_information dev irq L s = logical_loop dev irq (local_buf L) 0 s1"
    using get_part_information_run [OF assms(1) len assms(3), of L] unfolding ext overlay_Nil z by auto
  have "part_in (st 0) 0x1be = t" "system_id (part_in (st 0) 0x1ce) = 0"
    using assms(3) by (simp_all add: boot_record_def layout)
  then have "get_part_information dev irq L s = Inr (s1\<lparr>logical := (logical s)[0 := t]\<rparr>)"
    using assms(4) s1(3) len unfolding run logical_loop_step [OF s1(1)]
    by (simp add: lba28_def set_at_def layout Let_def)
  moreover have "primary s1 = t # drop 1 (primary s)"
    using s1(2) by (simp add: overlay_def)
  ultimately show ?thesis
    using assms(4) len by (simp add: find_partition_def finux_index_def layout Let_def)
qed

section \<open>Disks with partitions\<close>

definition part_bytes :: "part_table \<Rightarrow> u8 list" where
  "part_bytes t = [status t, first_head_num t, first_sector_num t, first_cylinder_low t, system_id t,
     end_head_num t, end_sector_num t, end_cylinder_low t] @ word_bytes (first_LBA t) @ word_bytes (sector_cnt t)"

definition part_sector :: "part_table list \<Rightarrow> u8 list" where
  "part_sector ts = replicate 446 0 @ concat (map part_bytes ts) @ replicate (66 - 16 * length ts) 0"

lemma length_part_bytes [simp]: "length (part_bytes t) = 16"
  by (simp add: part_bytes_def word_bytes_def)

lemma length_part_entries [simp]: "length (concat (map part_bytes ts)) = 16 * length ts"
  by (induction ts) simp_all

lemma length_part_sector [simp]: "length ts \<le> 4 \<Longrightarrow> length (part_sector ts) = 512"
  by (simp add: part_sector_def)

lemma part_in_shift: "length xs = n \<Longrightarrow> part_in (xs @ ys) (n + k) = part_in ys k"
  by (simp add: part_in_def sector32_def nth_append add.assoc)

lemma part_in_bytes: "part_in (part_bytes t @ xs) 0 = t"
  by (cases t) (simp add: part_in_def part_bytes_def sector32_def word_bytes_def bytes_of_u32)

lemma part_in_entries: "k < length ts \<Longrightarrow> part_in (concat (map part_bytes ts) @ xs) (16 * k) = ts ! k"
proof (induction ts arbitrary: k)
  case Nil
  then show ?case by simp
next
  case (Cons t ts)
  show ?case
  proof (cases k)
    case 0
    then show ?thesis by (simp add: part_in_bytes)
  next
    case (Suc j)
    with Cons part_in_shift [of "part_bytes t" 16 "concat (map part_bytes ts) @ xs" "16 * j"]
    show ?thesis by simp
  qed
qed

lemma part_in_sector:
  "k < length ts \<Longrightarrow> part_in (part_sector ts) (446 + 16 * k) = ts ! k"
  "length ts \<le> 3 \<Longrightarrow> system_id (part_in (part_sector ts) (446 + 16 * length ts)) = 0"
proof -
  have sh: "part_in (part_sector ts) (446 + 16 * k) = part_in (concat (map part_bytes ts) @ replicate (66 - 16 * length ts) 0) (16 * k)" for k
    unfolding part_sector_def by (rule part_in_shift) simp
  show "k < length ts \<Longrightarrow> part_in (part_sector ts) (446 + 16 * k) = ts ! k"
    unfolding sh by (rule part_in_entries)
  show "length ts \<le> 3 \<Longrightarrow> system_id (part_in (part_sector ts) (446 + 16 * length ts)) = 0"
    unfolding sh by (simp add: part_in_def nth_append)
qed

lemma boot_record_sector:
  "length ts \<le> 3 \<Longrightarrow> (\<And>t. t \<in> set ts \<Longrightarrow> system_id t \<noteq> 0) \<Longrightarrow> boot_record (part_sector ts) ts"
  by (simp add: boot_record_def part_in_sector layout)

lemma part_sector_entries:
  "part_in (part_sector (t # ts)) 0x1be = t"
  "part_in (part_sector (t # l # ts)) 0x1ce = l"
  "system_id (part_in (part_sector []) 0x1be) = 0"
  "system_id (part_in (part_sector [t]) 0x1ce) = 0"
  using part_in_sector(1) [of 0 "t # ts"] part_in_sector(1) [of 1 "t # l # ts"]
    part_in_sector(2) [of "[]"] part_in_sector(2) [of "[t]"] by simp_all

definition sample_clear :: fs_state where
  "sample_clear = (sample_fs (\<lambda>x. 0))\<lparr>primary := replicate 4 no_part, logical := replicate 10 no_part\<rparr>"

lemma sample_clear_sees:
  "(\<And>k. length (d k) = 512) \<Longrightarrow> hd_sees (sample_dev d) (\<lambda>h. True) d (disk sample_clear) d (\<lambda>x. 0)"
  by (simp add: sample_clear_def sample_fs_def hd_sees_sample)

lemma sample_clear_tables: "tables_clear sample_clear"
  by (simp add: sample_clear_def tables_clear_def layout)

text \<open>An extended partition at sector 100 with a Finux partition in it, 101 sectors into the disk.\<close>

definition sample_chain :: "nat \<Rightarrow> u8 list" where
  "sample_chain k = part_sector (if k = 0 then [sample_part 5 100 9000]
     else if k = 100 then [sample_part 0xd 1 8192] else [])"

theorem partition_located_witness:
  "gives (get_part_information (sample_dev sample_chain) (\<lambda>h. True) sample_addrs sample_clear) (\<lambda>s.
     gives (find_partition s) (\<lambda>(t, s'). t = sample_part 0xd 1 8192 \<and> 1 + base_sector s' = 101))"
proof -
  have "length (sample_chain k) = 512" for k
    by (simp add: sample_chain_def)
  note sees = sample_clear_sees [of sample_chain, OF this]
  have "boot_record (sample_chain 0) [sample_part 5 100 9000]"
    unfolding sample_chain_def by (simp, rule boot_record_sector) auto
  moreover have "ebr_chain sample_chain 100 100 [sample_part 0xd 1 8192]"
    by (simp add: sample_chain_def lba28_def part_sector_entries [simplified] layout)
  ultimately show ?thesis
    using partition_located [OF sees sample_clear_tables, of "[sample_part 5 100 9000]" "sample_part 5 100 9000"
        "[sample_part 0xd 1 8192]" sample_addrs]
    by (simp add: layout is_extended_def)
qed

text \<open>Six tables one behind the other.\<close>

definition long_chain :: "nat \<Rightarrow> u8 list" where
  "long_chain k = part_sector (if k = 0 then [sample_part 5 100 9000]
     else if k < 150 then [sample_part 1 1 9, sample_part 5 (of_nat (k - 90)) 10] else [sample_part 1 1 9])"

theorem logical_partitions_overrun_witness:
  "get_part_information (sample_dev long_chain) (\<lambda>h. True) sample_addrs sample_clear = Inl Out_Of_Bounds"
proof (rule logical_partitions_overrun)
  have "length (long_chain k) = 512" for k
    by (simp add: long_chain_def)
  note sees = sample_clear_sees [of long_chain, OF this]
  show "hd_sees (sample_dev long_chain) (\<lambda>h. True) long_chain (disk sample_clear) long_chain (\<lambda>x. 0)"
    by (rule sees)
  show "boot_record (long_chain 0) [sample_part 5 100 9000]"
    unfolding long_chain_def by (simp, rule boot_record_sector) auto
  show "filter is_extended [sample_part 5 100 9000] = [sample_part 5 100 9000]"
    by (simp add: is_extended_def layout)
  let ?p = "sample_part 1 1 9" and ?l = "\<lambda>a. sample_part 5 a 10"
  show "ebr_chain long_chain (first_LBA (sample_part 5 100 9000)) (first_LBA (sample_part 5 100 9000))
      [?p, ?l 10, ?p, ?l 20, ?p, ?l 30, ?p, ?l 40, ?p, ?l 50, ?p]"
    by (simp add: long_chain_def lba28_def part_sector_entries [simplified] layout)
qed (simp_all add: sample_clear_tables)

end
