(* ===== verification/FsLoad.thy ===== *)
theory FsLoad
  imports FsMake
begin

text \<open>
  Reading a file system back and loading the kernel: \<^verbatim>\<open>get_inode_array\<close>, \<^verbatim>\<open>get_root_area\<close>,
  \<^verbatim>\<open>find_file_in_root\<close> and \<^verbatim>\<open>loader_kernel\<close>, and what the kernel finds in memory when it
  starts.
\<close>

section \<open>The dots on the screen\<close>

lemma show_dot_sees:
  assumes "fs_sees dev irq d s0 s st m" and "cstr m (dot_str L) [c]"
    and "unat (row * 160 + i * 2) \<le> 0xfffe"
  shows "gives (show_dot L row i s) (\<lambda>s'. \<exists>m'. fs_sees dev irq d s0 s' st m'
    \<and> (\<forall>x. off_screen x \<longrightarrow> m' x = m x))"
proof -
  let ?loc = "row * 160 + i * 2"
  let ?m = "m(SCREEN + ?loc := m (dot_str L), SCREEN + ?loc + 1 := 0xc)"
  have loc: "?loc \<le> 0xfffe"
    using assms(3) by (simp add: word_le_nat_alt)
  have "strlen m (dot_str L) = Some 1"
    using strlen_cstr [OF assms(2)] by simp
  then have "dis_str m (dot_str L) 0xc row i = Inr (1, ?m)"
    using loc by (simp add: dis_str_def gs_store_def Let_def eval_nat_numeral)
  moreover have "fs_sees dev irq d s0 (set_mem (\<lambda>_. ?m) s) st ?m"
    by (rule fs_sees_set_mem [OF assms(1)])
  moreover have "?m x = m x" if "off_screen x" for x
  proof -
    have "x \<noteq> SCREEN + ?loc" 
      using that assms(3) by (auto simp: off_screen_def)
    moreover have "unat (?loc + 1) = unat ?loc + 1"
      using assms(3) unat_add_no_wrap [of ?loc 1] by simp
    then have "x \<noteq> SCREEN + ?loc + 1"
      using that assms(3) by (auto simp: off_screen_def add.assoc)
    ultimately show ?thesis by simp
  qed
  ultimately show ?thesis
    using fs_sees_mem [OF assms(1)] by (auto simp: show_dot_def)
qed

section \<open>The inode array\<close>

lemma inode_sector_step:
  assumes "\<exists>m. hd_sees dev irq d (disk s) st m" and "length (inode_array s) = 100"
    and "super_block s = b"
  shows "k < 3 \<Longrightarrow> gives (inode_sector dev irq L (of_nat k) s) (\<lambda>s'.
      (\<exists>m. hd_sees dev irq d (disk s') st m) \<and> length (inode_array s') = 100 \<and> super_block s' = b)"
    and "inode_sector dev irq L 3 s = Inl Out_Of_Bounds"
proof -
  obtain m where "hd_sees dev irq d (disk s) st m"
    using assms(1) by blast
  note rd = fs.rd_sees [OF fs_sees_self [OF this]]
  have reads: "\<exists>s' m'. on_disk (hd_read dev irq a 1 c) s = Inr s' \<and> fs_sees dev irq d s s' st m'" for a c
    using rd [of a c] by (auto simp: gives_def)
  then obtain s' m' where "on_disk (hd_read dev irq (inode_array_start b + of_nat k) 1 (tmp_buf L)) s = Inr s'"
    and s': "fs_sees dev irq d s s' st m'"
    using reads by blast
  then show "k < 3 \<Longrightarrow> gives (inode_sector dev irq L (of_nat k) s) (\<lambda>s'.
      (\<exists>m. hd_sees dev irq d (disk s') st m) \<and> length (inode_array s') = 100 \<and> super_block s' = b)"
    using fs_sees_fields [OF s'] assms(2,3) by (auto simp: inode_sector_def get_sector_def fs_sees_def)
  obtain s' m' where "on_disk (hd_read dev irq (inode_array_start b + 3) 1 (tmp_buf L)) s = Inr s'"
    and s': "fs_sees dev irq d s s' st m'"
    using reads by blast
  then show "inode_sector dev irq L 3 s = Inl Out_Of_Bounds"
    using fs_sees_fields [OF s'] assms(2,3) by (auto simp: inode_sector_def get_sector_def fs_sees_def)
qed

lemma get_inode_array_fails:
  assumes "hd_sees dev irq d (disk s) st m" and "length (inode_array s) = 100"
    and "super_block s = new_super base t"
  shows "get_inode_array dev irq L s = Inl Out_Of_Bounds"
  unfolding get_inode_array_def
proof (rule for_up_fails [where j = 3 and P = "\<lambda>k s'. (\<exists>m. hd_sees dev irq d (disk s') st m)
    \<and> length (inode_array s') = 100 \<and> super_block s' = new_super base t"])
  show "(\<exists>m. hd_sees dev irq d (disk s) st m) \<and> length (inode_array s) = 100 \<and> super_block s = new_super base t"
    using assms by blast
  show "3 < unat (inode_sectors (super_block s))"
    using assms(3) by simp
qed (use inode_sector_step [of dev irq d _ st] in auto)

text \<open>
  C37. The inode array of a file system that \<^verbatim>\<open>make_fs\<close> made takes four sectors, 128 inodes:
  \<^verbatim>\<open>get_inode_array\<close> copies them over the end of an array of 100.
\<close>

theorem get_inode_array_overruns:
  assumes "hd_sees dev irq d (disk s) st m" and "length (inode_array s) = 100"
    and "super_block s = new_super base t"
  shows "get_inode_array dev irq L s = Inl Out_Of_Bounds"
  using assms by (rule get_inode_array_fails)

theorem get_inode_array_overruns_witness:
  "get_inode_array (sample_dev (\<lambda>k. replicate 512 0)) (\<lambda>h. True) sample_addrs (sample_fs (\<lambda>x. 0)) = Inl Out_Of_Bounds"
  by (rule get_inode_array_overruns [where d = "\<lambda>k. replicate 512 0" and st = "\<lambda>k. replicate 512 0" and m = "\<lambda>x. 0"])
    (simp_all add: sample_fs_def hd_sees_sample)

section \<open>The kernel's directory entry\<close>

text \<open>The bytes of \<^verbatim>\<open>vmFinux.core\<close>, which fill the twelve characters of a name.\<close>

definition kernel_name :: "u8 list" where
  "kernel_name = [118, 109, 70, 105, 110, 117, 120, 46, 99, 111, 114, 101]"

text \<open>The character \<^verbatim>\<open>i\<close> of the name of entry \<^verbatim>\<open>k\<close>.\<close>

abbreviation name_char :: "fs_addrs \<Rightarrow> bmem \<Rightarrow> nat \<Rightarrow> nat \<Rightarrow> u8" where
  "name_char L m k i \<equiv> m (root_area L + 16 * of_nat k + OFF_name + of_nat i)"

lemma strcmp_kernel_same:
  assumes "cstr m p kernel_name" and "\<And>i. i < 12 \<Longrightarrow> m (q + of_nat i) = kernel_name ! i"
  shows "strcmp m p q = Some (- sint (m (q + 12)))"
proof -
  have p: "m (p + of_nat i) = kernel_name ! i \<and> kernel_name ! i \<noteq> 0" if "i < 12" for i
    using cstr_nth [OF assms(1), of i] that by (simp add: kernel_name_def)
  have "m (p + of_nat (Suc 11)) = 0"
    using cstr_end [OF assms(1)] by (simp add: kernel_name_def)
  moreover have "m (p + of_nat j) = m (q + of_nat j) \<and> m (p + of_nat (Suc j)) \<noteq> 0" if "j < 11" for j
    using p [of j] p [of "Suc j"] assms(2) [of j] that by (simp del: of_nat_Suc)
  ultimately have "strcmp_loop m p q = Some (char_diff m (p + of_nat (Suc 11)) (q + of_nat (Suc 11)))"
    by (intro strcmp_loop_stops) (simp_all del: of_nat_Suc)
  with \<open>m (p + of_nat (Suc 11)) = 0\<close> show ?thesis
    by (simp add: strcmp_def char_diff_def)
qed

lemma strcmp_kernel_other:
  assumes "cstr m p kernel_name" and "m q \<noteq> 118" and "m (q + 1) \<noteq> 109"
  shows "\<exists>r. strcmp m p q = Some r \<and> r \<noteq> 0"
proof -
  have p: "m p = 118" "m (p + 1) = 109"
    using assms(1) by (simp_all add: kernel_name_def)
  then have "strcmp_loop m p q = Some (char_diff m (p + of_nat (Suc 0)) (q + of_nat (Suc 0)))"
    using assms(2) by (intro strcmp_loop_stops) simp_all
  moreover have "sint (109 :: u8) \<noteq> sint (m (q + 1))"
    using assms(3) by (metis signed_word_eqI)
  ultimately show ?thesis
    using p by (simp add: strcmp_def char_diff_def)
qed

lemma find_loop_kernel:
  assumes "cstr m (name_str L) kernel_name"
    and "\<And>i. i < 12 \<Longrightarrow> name_char L m e i = kernel_name ! i"
    and "\<And>k. k < 100 \<Longrightarrow> k \<noteq> e \<Longrightarrow> name_char L m k 0 \<noteq> 118 \<and> name_char L m k 1 \<noteq> 109"
  shows "k + n \<le> 100 \<Longrightarrow> find_loop n k L m =
    Inr (if k \<le> e \<and> e < k + n \<and> name_char L m e 12 = 0 then Some e else None)"
proof (induction n arbitrary: k)
  case 0
  then show ?case by simp
next
  case (Suc n)
  have IH: "find_loop n (k + 1) L m =
    Inr (if k + 1 \<le> e \<and> e < k + 1 + n \<and> name_char L m e 12 = 0 then Some e else None)"
    using Suc by simp
  show ?case
  proof (cases "k = e")
    case True
    have "strcmp m (name_str L) (root_area L + 16 * of_nat e + OFF_name) = Some (- sint (name_char L m e 12))"
      using strcmp_kernel_same [OF assms(1,2)] by simp
    moreover have "sint (name_char L m e 12) = 0 \<longleftrightarrow> name_char L m e 12 = 0"
      by (metis signed_0 signed_word_eqI)
    ultimately show ?thesis
      using IH True by simp
  next
    case False
    have "k < 100"
      using Suc.prems by simp
    then obtain r where "strcmp m (name_str L) (root_area L + 16 * of_nat k + OFF_name) = Some r" "r \<noteq> 0"
      using strcmp_kernel_other [OF assms(1)] assms(3) [OF _ False] by force
    then show ?thesis
      using IH False by auto
  qed
qed

text \<open>
  C36. The kernel's name fills its entry, so the comparison reads on into the next entry: with
  one entry of that name, and no other entry that shares its first or second character,
  \<^verbatim>\<open>find_file_in_root\<close> finds it if and only if the next byte, the low byte of the following
  entry's inode number, is zero.
\<close>

theorem find_kernel_entry:
  assumes "cstr m (name_str L) kernel_name" and "e < 100"
    and "\<And>i. i < 12 \<Longrightarrow> name_char L m e i = kernel_name ! i"
    and "\<And>k. k < 100 \<Longrightarrow> k \<noteq> e \<Longrightarrow> name_char L m k 0 \<noteq> 118 \<and> name_char L m k 1 \<noteq> 109"
  shows "find_file_in_root L m = Inr (if m (root_area L + 16 * of_nat (e + 1)) = 0 then Some e else None)"
proof -
  have "root_area L + 16 * of_nat e + OFF_name + of_nat 12 = root_area L + 16 * of_nat (e + 1)"
    by (simp add: layout algebra_simps)
  then show ?thesis
    using find_loop_kernel [OF assms(1,3,4), of 0 100] assms(2)
    unfolding find_file_in_root_def MAX_INODE_CNT_def by (simp only:) simp
qed

section \<open>The kernel's sectors\<close>

text \<open>
  Addresses that loading \<^verbatim>\<open>n\<close> sectors leaves alone, and a placement of the loader's data that
  the load does not disturb; 32048 sectors are the most whose dots stay in the screen segment.
\<close>

definition untouched :: "fs_addrs \<Rightarrow> nat \<Rightarrow> u32 \<Rightarrow> bool" where
  "untouched L n x \<longleftrightarrow> 512 \<le> unat (x - tmp_buf L) \<and> off_screen x \<and> 512 * n \<le> unat (x - KERNEL_LOAD_ADDRESS)"

definition load_ok :: "fs_addrs \<Rightarrow> nat \<Rightarrow> bool" where
  "load_ok L n \<longleftrightarrow> n \<le> 32048 \<and> disjoint_spans (tmp_buf L) 512 KERNEL_LOAD_ADDRESS (512 * n)
     \<and> disjoint_spans SCREEN 0x10000 (tmp_buf L) 512 \<and> disjoint_spans (tmp_buf L) 512 MEMORY_MAP_ADDR 100
     \<and> untouched L n (dot_str L) \<and> untouched L n (dot_str L + 1)"

lemma unat_diff_of_nat:
  "j < 4294967296 \<Longrightarrow> c < 4294967296 \<Longrightarrow>
     unat (of_nat j - of_nat c :: u32) = (if c \<le> j then j - c else j + 4294967296 - c)"
  using unat_sub_if_size [of "of_nat j :: u32" "of_nat c"] by (simp add: word_size)

text \<open>The destination of sector \<^verbatim>\<open>k\<close> seen from the start of the kernel.\<close>

lemma kernel_window:
  assumes "j < 4294967296" and "k \<le> 32048"
  shows "unat (KERNEL_LOAD_ADDRESS + of_nat j - (KERNEL_LOAD_ADDRESS + of_nat k * 512)) =
    (if 512 * k \<le> j then j - 512 * k else j + 4294967296 - 512 * k)"
proof -
  have "KERNEL_LOAD_ADDRESS + of_nat j - (KERNEL_LOAD_ADDRESS + of_nat k * 512) = of_nat j - of_nat (512 * k)"
    by simp
  then show ?thesis
    using unat_diff_of_nat [of j "512 * k"] assms by (simp only:)
qed

lemma kernel_off_screen: "j \<le> 16408576 \<Longrightarrow> off_screen (KERNEL_LOAD_ADDRESS + of_nat j)"
proof -
  assume j: "j \<le> 16408576"
  have eq: "KERNEL_LOAD_ADDRESS + of_nat j - SCREEN = 0x148000 + of_nat j"
    by (simp add: layout)
  show ?thesis
    unfolding off_screen_def eq using j unat_add_no_wrap [of "0x148000 :: u32" j] by simp
qed

lemma load_sector_step:
  fixes n :: nat and inode :: inode
  defines "from \<equiv> unat (file_start_sect inode)"
  assumes ok: "load_ok L n" and dot: "cstr m (dot_str L) [c]" and sect: "from + n \<le> 268435456"
    and k: "k < n" and s: "fs_sees dev irq d s0 s st m'"
    and frame: "\<forall>x. untouched L n x \<longrightarrow> m' x = m x"
    and loaded: "\<forall>j < 512 * k. m' (KERNEL_LOAD_ADDRESS + of_nat j) = st (from + j div 512) ! (j mod 512)"
  shows "gives (load_sector dev irq L inode (of_nat k) s) (\<lambda>s'. \<exists>m'. fs_sees dev irq d s0 s' st m'
    \<and> (\<forall>x. untouched L n x \<longrightarrow> m' x = m x)
    \<and> (\<forall>j < 512 * Suc k. m' (KERNEL_LOAD_ADDRESS + of_nat j) = st (from + j div 512) ! (j mod 512)))"
proof -
  let ?bs = "st (from + k)" and ?tmp = "tmp_buf L" and ?K = KERNEL_LOAD_ADDRESS
  let ?m1 = "put_bytes m' ?tmp ?bs"
  have len: "length ?bs = 512"
    by (rule fs.sector_length [OF s])
  have n: "n \<le> 32048"
    using ok by (simp add: load_ok_def)
  have lba: "lba28 (file_start_sect inode + of_nat k) = from + k"
    using lba28_add [of "file_start_sect inode" k] sect k by (simp add: from_def)
  have m1: "?m1 x = m' x" if "512 \<le> unat (x - ?tmp)" for x
    using that len by (simp add: put_bytes_apply)
  obtain s1 where s1: "on_disk (hd_read dev irq (file_start_sect inode + of_nat k) 1 ?tmp) s = Inr s1"
    "fs_sees dev irq d s0 s1 st ?m1"
    using fs.rd_sees [OF s, of "file_start_sect inode + of_nat k" ?tmp] lba by (auto elim: givesE)
  have "cstr ?m1 (dot_str L) [c]"
    using dot ok frame m1 by (auto simp: load_ok_def untouched_def)
  moreover have "unat (9 * 160 + of_nat k * 2 :: u32) \<le> 0xfffe"
  proof -
    have "(9 * 160 + of_nat k * 2 :: u32) = of_nat (1440 + 2 * k)" by simp
    then show ?thesis using n k by (simp only: unat_of_nat_u32)
  qed
  ultimately obtain s2 m2 where s2: "show_dot L 9 (of_nat k) s1 = Inr s2" "fs_sees dev irq d s0 s2 st m2"
    and m2: "\<And>x. off_screen x \<Longrightarrow> m2 x = ?m1 x"
    using show_dot_sees [OF s1(2), of L c 9 "of_nat k"] by (auto elim: givesE)
  let ?m3 = "memcpy m2 (?K + of_nat k * 512) ?tmp 512"
  have "unat (?K + of_nat k * 512 - ?tmp) \<ge> 512"
    using disjoint_spans_outside [of ?tmp 512 ?K "512 * n" "512 * k"] ok k
    by (simp add: load_ok_def mult.commute)
  then have m3: "?m3 x = (if unat (x - (?K + of_nat k * 512)) < 512
      then m2 (?tmp + (x - (?K + of_nat k * 512))) else m2 x)" for x
    by (simp add: memcpy_apply)
  have "?m3 x = m x" if "untouched L n x" for x
  proof -
    have "512 * Suc k \<le> unat (x - ?K)"
      using that k by (auto simp: untouched_def intro: order_trans [rotated])
    then have "\<not> unat (x - (?K + of_nat k * 512)) < 512"
      using kernel_window [of "unat (x - ?K)" k] k n by simp
    then have "?m3 x = m2 x"
      by (simp add: m3)
    also have "\<dots> = m x"
      using m2 m1 frame that by (simp add: untouched_def)
    finally show ?thesis .
  qed
  moreover have "?m3 (?K + of_nat j) = st (from + j div 512) ! (j mod 512)" if j: "j < 512 * Suc k" for j
  proof (cases "512 * k \<le> j")
    case True
    then obtain i where i: "j = 512 * k + i" "i < 512"
      using j le_Suc_ex [OF True] by auto
    have "unat (?K + of_nat j - (?K + of_nat k * 512)) = i"
      using kernel_window [of j k] i k n by simp
    then have "?K + of_nat j - (?K + of_nat k * 512) = of_nat i"
      by (rule word_eq_of_nat)
    then have "?m3 (?K + of_nat j) = m2 (?tmp + of_nat i)"
      using i(2) by (simp add: m3)
    also have "off_screen (?tmp + of_nat i)"
      using ok disjoint_spans_outside [of SCREEN "0x10000" ?tmp 512 i] i(2)
      by (simp add: off_screen_def load_ok_def)
    then have "m2 (?tmp + of_nat i) = ?bs ! i"
      using m2 i(2) len by simp
    finally show ?thesis
      using i by simp
  next
    case False
    then have jn: "j < 512 * n" using k by simp
    have "\<not> j + 4294967296 - 512 * k < 512" and "j < 4294967296"
      using jn k n by linarith+
    then have "?m3 (?K + of_nat j) = m2 (?K + of_nat j)"
      using kernel_window [of j k] False k n by (simp add: m3)
    also have "\<dots> = m' (?K + of_nat j)"
      using m2 [OF kernel_off_screen [of j]] m1 [of "?K + of_nat j"] jn n
        disjoint_spans_outside [of ?tmp 512 ?K "512 * n" j] ok by (simp add: load_ok_def)
    finally show ?thesis
      using loaded False by simp
  qed
  moreover have "fs_sees dev irq d s0 (set_mem (\<lambda>m. memcpy m (?K + of_nat k * 512) ?tmp 512) s2) st ?m3"
    by (rule fs_sees_set_mem [OF s2(2)])
  ultimately show ?thesis
    using s1(1) s2(1) by (auto simp: load_sector_def)
qed

section \<open>What the kernel finds\<close>

lemma write_kernel_info_frame:
  assumes "12 \<le> unat (x - a)"
  shows "write_kernel_info m a k x = m x"
proof -
  have "4 \<le> x - a" "4 \<le> x - (a + 4)" "4 \<le> x - (a + 8)"
    using assms unat_sub [of 4 "x - a"] unat_sub [of 8 "x - a"]
    by (simp_all add: word_le_nat_alt diff_diff_eq [symmetric])
  then show ?thesis
    by (simp add: write_kernel_info_def store32_frame)
qed

lemma memory_map_frame:
  assumes "\<And>i. i < 100 \<Longrightarrow> m' (MEMORY_MAP_ADDR + of_nat i) = m (MEMORY_MAP_ADDR + of_nat i)"
  shows "memory_map (get_memory_info m') = memory_map (get_memory_info m)"
proof -
  have w: "load32 m' (MEMORY_MAP_ADDR + of_nat k) = load32 m (MEMORY_MAP_ADDR + of_nat k)" if "k \<le> 96" for k
  proof (rule load32_cong)
    fix i :: nat assume "i < 4"
    then show "m' (MEMORY_MAP_ADDR + of_nat k + of_nat i) = m (MEMORY_MAP_ADDR + of_nat k + of_nat i)"
      using assms [of "k + i"] that by (simp add: add.assoc)
  qed
  have "read_ARDS m' (MEMORY_MAP_ADDR + 20 * of_nat i) = read_ARDS m (MEMORY_MAP_ADDR + 20 * of_nat i)"
    if "i < 5" for i
    using that w [of "20 * i"] w [of "20 * i + 4"] w [of "20 * i + 8"] w [of "20 * i + 12"] w [of "20 * i + 16"]
    by (simp add: read_ARDS_def add.assoc)
  then show ?thesis
    by (simp add: get_memory_info_def)
qed

text \<open>The loop over the sectors, and what stays in place around the loaded file.\<close>

lemma load_sectors_run:
  assumes "hd_sees dev irq d (disk s) st m" and "cstr m (dot_str L) [c]" and "load_ok L (unat (file_sector_cnt k))"
    and "unat (file_start_sect k) + unat (file_sector_cnt k) \<le> 268435456"
  defines "n \<equiv> unat (file_sector_cnt k)"
  shows "gives (for_up n 0 (load_sector dev irq L k) s) (\<lambda>t. \<exists>m'. fs_sees dev irq d s t st m'
    \<and> (\<forall>x. untouched L n x \<longrightarrow> m' x = m x)
    \<and> (\<forall>j < 512 * n. m' (KERNEL_LOAD_ADDRESS + of_nat j) = st (unat (file_start_sect k) + j div 512) ! (j mod 512)))"
proof -
  let ?P = "\<lambda>i s'. \<exists>m'. fs_sees dev irq d s s' st m' \<and> (\<forall>x. untouched L n x \<longrightarrow> m' x = m x)
    \<and> (\<forall>j < 512 * i. m' (KERNEL_LOAD_ADDRESS + of_nat j) = st (unat (file_start_sect k) + j div 512) ! (j mod 512))"
  show ?thesis
  proof (rule for_up_gives [where P = ?P])
    show "?P 0 s"
      using fs_sees_self [OF assms(1)] by auto
    show "gives (load_sector dev irq L k (0 + of_nat i) t) (?P (Suc i))" if "i < n" "?P i t" for i t
      using that load_sector_step [OF assms(3,2,4), of i dev irq d s t st] by (auto simp: n_def)
  qed
qed

lemma info_below_kernel:
  assumes "j < 16408576"
  shows "12 \<le> unat (KERNEL_LOAD_ADDRESS + of_nat j - KERNEL_INFO_ADDRESS)"
proof -
  have eq: "KERNEL_LOAD_ADDRESS + of_nat j - KERNEL_INFO_ADDRESS = 0x100000 + of_nat j"
    by (simp add: layout)
  show ?thesis
    unfolding eq using assms unat_add_no_wrap [of "0x100000 :: u32" j] by simp
qed

lemma map_untouched:
  assumes "load_ok L n" and "i < 100"
  shows "untouched L n (MEMORY_MAP_ADDR + of_nat i)" and "12 \<le> unat (MEMORY_MAP_ADDR + of_nat i - KERNEL_INFO_ADDRESS)"
proof -
  have unat: "unat (MEMORY_MAP_ADDR + of_nat i - a) = 4294967296 + 0x8000 + i - unat a"
    if "0x9000 \<le> unat a" for a
  proof -
    have "MEMORY_MAP_ADDR + of_nat i - a = of_nat (0x8000 + i) - of_nat (unat a)"
      by (simp add: layout)
    then show ?thesis
      using unat_diff_of_nat [of "0x8000 + i" "unat a"] assms(2) that by (simp only:) simp
  qed
  have n: "n \<le> 32048"
    using assms(1) by (simp add: load_ok_def)
  have places: "unat KERNEL_INFO_ADDRESS = 0x100000" "unat SCREEN = 0xb8000" "unat KERNEL_LOAD_ADDRESS = 0x200000"
    by (simp_all add: layout)
  show "12 \<le> unat (MEMORY_MAP_ADDR + of_nat i - KERNEL_INFO_ADDRESS)"
    by (simp add: unat places)
  have "512 \<le> unat (MEMORY_MAP_ADDR + of_nat i - tmp_buf L)"
    using disjoint_spans_outside [of "tmp_buf L" 512 MEMORY_MAP_ADDR 100 i] assms by (simp add: load_ok_def)
  then show "untouched L n (MEMORY_MAP_ADDR + of_nat i)"
    using n by (simp add: untouched_def off_screen_def unat places)
qed

text \<open>
  C14. \<^verbatim>\<open>loader_kernel\<close> hands the kernel what it expects: the file's sectors one after the other
  from 2 MB, the file's size, the load address and the count of memory ranges where
  \<^verbatim>\<open>get_memory_info\<close> reads them, and the memory map of the BIOS undisturbed. The disk is left
  as it was.
\<close>

theorem loader_kernel_loads:
  assumes "hd_sees dev irq d (disk s) st m" and "find_file_in_root L m = Inr (Some e)"
    and "inode_at (inode_array s) (load32 m (root_area L + 16 * of_nat e)) = Inr k"
    and "cstr m (dot_str L) [c]" and "load_ok L (unat (file_sector_cnt k))"
    and "unat (file_start_sect k) + unat (file_sector_cnt k) \<le> 268435456"
  shows "gives (loader_kernel dev irq L cnt s) (\<lambda>s'.
     (\<forall>j < 512 * unat (file_sector_cnt k). mem s' (KERNEL_LOAD_ADDRESS + of_nat j)
        = st (unat (file_start_sect k) + j div 512) ! (j mod 512))
   \<and> kernel_info (get_memory_info (mem s'))
        = \<lparr>ki_size = file_size k, ki_start = KERNEL_LOAD_ADDRESS, memory_map_cnt = cnt\<rparr>
   \<and> memory_map (get_memory_info (mem s')) = memory_map (get_memory_info m)
   \<and> hd_sees dev irq d (disk s') st (mem s'))"
proof -
  let ?n = "unat (file_sector_cnt k)" and ?K = KERNEL_LOAD_ADDRESS
  let ?info = "\<lparr>ki_size = file_size k, ki_start = ?K, memory_map_cnt = cnt\<rparr>"
  have n: "?n \<le> 32048"
    using assms(5) by (simp add: load_ok_def)
  have mem: "mem s = m"
    using assms(1) by (simp add: hd_sees_def)
  obtain t m' where t: "for_up ?n 0 (load_sector dev irq L k) s = Inr t" "fs_sees dev irq d s t st m'"
    and frame: "\<And>x. untouched L ?n x \<Longrightarrow> m' x = m x"
    and loaded: "\<And>j. j < 512 * ?n \<Longrightarrow> m' (?K + of_nat j) = st (unat (file_start_sect k) + j div 512) ! (j mod 512)"
    using load_sectors_run [OF assms(1,4,5,6)] by (auto elim: givesE)
  let ?m = "write_kernel_info m' KERNEL_INFO_ADDRESS ?info"
  have run: "loader_kernel dev irq L cnt s = Inr (set_mem (\<lambda>m. write_kernel_info m KERNEL_INFO_ADDRESS ?info) t)"
    using assms(2,3) t(1) mem by (simp add: loader_kernel_def)
  have t': "fs_sees dev irq d s (set_mem (\<lambda>m. write_kernel_info m KERNEL_INFO_ADDRESS ?info) t) st ?m"
    by (rule fs_sees_set_mem [OF t(2)])
  have "?m (?K + of_nat j) = st (unat (file_start_sect k) + j div 512) ! (j mod 512)" if "j < 512 * ?n" for j
    using that n loaded [OF that] info_below_kernel [of j] by (simp add: write_kernel_info_frame)
  moreover have "?m (MEMORY_MAP_ADDR + of_nat i) = m (MEMORY_MAP_ADDR + of_nat i)" if "i < 100" for i
    using frame map_untouched [OF assms(5) that] by (simp add: write_kernel_info_frame)
  then have "memory_map (get_memory_info ?m) = memory_map (get_memory_info m)"
    by (rule memory_map_frame)
  moreover have "kernel_info (get_memory_info ?m) = ?info"
    by (simp add: get_memory_info_def read_write_kernel_info)
  ultimately show ?thesis
    using run t' fs_sees_mem [OF t'] by (simp add: fs_sees_def)
qed

section \<open>A memory with the kernel's entry\<close>

text \<open>The kernel is the first entry; \<^verbatim>\<open>b\<close> is the low byte of the second entry's inode number.\<close>

definition sample_root :: "u8 \<Rightarrow> bmem" where
  "sample_root b = put_bytes (put_bytes (put_bytes ((\<lambda>x. 0)(0x11010 := b)) 0x12000 [46])
     0x11004 kernel_name) 0x12100 kernel_name"

lemma length_kernel_name [simp]: "length kernel_name = 12"
  by (simp add: kernel_name_def)

lemma sample_root_apply:
  "sample_root b x = (if unat (x - 0x12100) < 12 then kernel_name ! unat (x - 0x12100)
     else if unat (x - 0x11004) < 12 then kernel_name ! unat (x - 0x11004)
     else if x = 0x12000 then 46
     else if x = 0x11010 then b else 0)"
  by (simp add: sample_root_def put_bytes_apply)

lemma sample_root_names:
  "cstr (sample_root b) (name_str sample_addrs) kernel_name"
  "i < 12 \<Longrightarrow> name_char sample_addrs (sample_root b) 0 i = kernel_name ! i"
  "k < 100 \<Longrightarrow> k \<noteq> 0 \<Longrightarrow> name_char sample_addrs (sample_root b) k 0 \<noteq> 118
     \<and> name_char sample_addrs (sample_root b) k 1 \<noteq> 109"
  "cstr (sample_root b) (dot_str sample_addrs) [46]"
  "sample_root b (root_area sample_addrs + 16 * of_nat (0 + 1)) = b"
proof -
  have "sample_root b (0x12100 + of_nat j) = kernel_name ! j" if "j < 12" for j
    using that by (simp add: sample_root_apply)
  note c = this [of 0] this [of 1] this [of 2] this [of 3] this [of 4] this [of 5] this [of 6]
    this [of 7] this [of 8] this [of 9] this [of 10] this [of 11]
  have "sample_root b 0x1210c = 0"
    by (simp add: sample_root_apply)
  with c show "cstr (sample_root b) (name_str sample_addrs) kernel_name"
    by (simp add: sample_addrs_def kernel_name_def)
  show "cstr (sample_root b) (dot_str sample_addrs) [46]"
    by (simp add: sample_addrs_def sample_root_apply)
  show "sample_root b (root_area sample_addrs + 16 * of_nat (0 + 1)) = b"
    by (simp add: sample_addrs_def sample_root_apply)
  have name: "name_char sample_addrs (sample_root b) k i = sample_root b (of_nat (0x11004 + 16 * k + i))" for k i
    by (simp add: sample_addrs_def layout)
  have near: "sample_root b (of_nat (0x11004 + j)) = (if j < 12 then kernel_name ! j else if j = 12 then b else 0)"
    if "j < 2000" for j
  proof -
    have "unat (of_nat (0x11004 + j) - 0x12100 :: u32) = j + 4294967296 - 0x10fc"
      "unat (of_nat (0x11004 + j) - 0x11004 :: u32) = j"
      using unat_diff_of_nat [of "0x11004 + j" "0x12100"] unat_diff_of_nat [of "0x11004 + j" "0x11004"] that
      by simp_all
    moreover have "(of_nat (0x11004 + j) :: u32) \<noteq> 0x12000"
      using of_nat_inj_below [of "0x11004 + j" "0x12000", where 'a = 32] that by simp
    moreover have "(of_nat (0x11004 + j) :: u32) = 0x11010 \<longleftrightarrow> j = 12"
      using of_nat_inj_below [of "0x11004 + j" "0x11010", where 'a = 32] that by simp
    ultimately show ?thesis
      using that by (simp add: sample_root_apply del: of_nat_add)
  qed
  show "i < 12 \<Longrightarrow> name_char sample_addrs (sample_root b) 0 i = kernel_name ! i"
    unfolding name using near [of i] by simp
  show "k < 100 \<Longrightarrow> k \<noteq> 0 \<Longrightarrow> name_char sample_addrs (sample_root b) k 0 \<noteq> 118
     \<and> name_char sample_addrs (sample_root b) k 1 \<noteq> 109"
    unfolding name using near [of "16 * k"] near [of "16 * k + 1"] by (simp add: add.assoc)
qed

theorem find_kernel_entry_witness:
  "find_file_in_root sample_addrs (sample_root 1) = Inr None"
  using find_kernel_entry [OF sample_root_names(1) _ sample_root_names(2,3), of 1]
    sample_root_names(5) [of 1] by simp

theorem loader_kernel_loads_witness:
  "gives (loader_kernel (sample_dev (\<lambda>k. replicate 512 (of_nat k))) (\<lambda>h. True) sample_addrs 4
      ((sample_fs (sample_root 0))\<lparr>inode_array := replicate 100
        \<lparr>mode = 2, file_size = 600, file_start_sect = 5, file_sector_cnt = 2\<rparr>\<rparr>))
    (\<lambda>s. mem s 0x200001 = 5 \<and> mem s 0x200201 = 6 \<and> ki_size (kernel_info (get_memory_info (mem s))) = 600)"
proof -
  let ?d = "\<lambda>k. replicate 512 (of_nat k) :: u8 list"
  let ?k = "\<lparr>mode = 2, file_size = 600, file_start_sect = 5, file_sector_cnt = 2\<rparr> :: inode"
  let ?s = "(sample_fs (sample_root 0))\<lparr>inode_array := replicate 100 ?k\<rparr>"
  have sees: "hd_sees (sample_dev ?d) (\<lambda>h. True) ?d (disk ?s) ?d (sample_root 0)"
    by (simp add: sample_fs_def hd_sees_sample)
  have find: "find_file_in_root sample_addrs (sample_root 0) = Inr (Some 0)"
    using find_loop_kernel [OF sample_root_names(1-3), of 0 100] sample_root_names(5) [of 0]
    by (simp add: find_file_in_root_def layout add.commute)
  have inode: "inode_at (inode_array ?s) (load32 (sample_root 0) (root_area sample_addrs + 16 * of_nat 0)) = Inr ?k"
    by (simp add: inode_at_def load32_def sample_addrs_def sample_root_apply
        unsigned_minus_1_eq_mask mask_eq_exp_minus_1)
  have ok: "load_ok sample_addrs (unat (file_sector_cnt ?k))"
    by (simp add: load_ok_def disjoint_spans_def untouched_def off_screen_def sample_addrs_def layout)
  show ?thesis
    by (rule gives_mono [OF loader_kernel_loads [OF sees find inode sample_root_names(4) ok]])
      (auto simp: layout dest: spec [of _ 1] spec [of _ 513])
qed

end
