(* ===== verification/FsType.thy ===== *)
theory FsType
  imports FsMake
begin

text \<open>
  The shape of the loader's state: the reading of the partition tables leaves the lists that stand
  for fixed arrays at their lengths, which \<^verbatim>\<open>Loader\<close> needs. C's arrays cannot do otherwise: it is
  a fact about the representation.
\<close>

definition wf_fs :: "fs_state \<Rightarrow> bool" where
  "wf_fs s \<longleftrightarrow> length (primary s) = PRIMARY_MAX_CNT \<and> length (logical s) = LOGIC_MAX_CNT
     \<and> length (inode_array s) = MAX_INODE_CNT \<and> length (hdbuf (HD (disk s))) = HDBUF_SIZE"

text \<open>Every result of the operation satisfies the predicate if its argument does.\<close>

definition keeps :: "('s \<Rightarrow> bool) \<Rightarrow> ('s \<Rightarrow> 's outcome) \<Rightarrow> bool" where
  "keeps P f \<longleftrightarrow> (\<forall>s s'. P s \<longrightarrow> f s = Inr s' \<longrightarrow> P s')"

lemma keepsD: "keeps P f \<Longrightarrow> f s = Inr s' \<Longrightarrow> P s \<Longrightarrow> P s'"
  by (auto simp: keeps_def)

section \<open>The driver's buffer\<close>

definition buffer_ok :: "hd_state \<Rightarrow> bool" where
  "buffer_ok s \<longleftrightarrow> length (hdbuf (HD s)) = HDBUF_SIZE"

lemma port_read_length:
  "port_read dev b p n w = Inr (b', w') \<Longrightarrow> length b' = length b"
  using insw_any [of "unat (drop_bit 1 n)" dev "ucast p" w]
  by (auto simp: port_read_def Let_def split: if_splits)

lemma irq14_handler_keeps: "keeps buffer_ok (irq14_handler dev)"
  by (auto simp: keeps_def buffer_ok_def irq14_handler_def hd_handler_def bind_outcome_Inr
      dest!: port_read_length split: if_splits)

lemma await_keeps: "keeps buffer_ok (await dev irq c)"
  using irq14_handler_keeps unfolding keeps_def await_def by (auto split: if_splits)

lemma hd_read_keeps: "keeps buffer_ok (hd_read dev irq a n b)"
proof -
  have "buffer_ok s'" if ok: "buffer_ok s" and run: "hd_read dev irq a n b s = Inr s'" for s s'
  proof -
    from run obtain w t where
      await: "await dev irq (command (lba_cmd a n ATA_read)) (s\<lparr>HD := (HD s)\<lparr>buf := b,
          cmdnow := ucast (command (lba_cmd a n ATA_read)), handler := ''port_read'', sectorcnt := n,
          port := ucast COM_Data, bufsize := n * 512\<rparr>, wire := w\<rparr>) = Inr t"
      and copy: "copy_hdbuf t b = Inr s'"
      by (auto simp: hd_read_def bind_outcome_Inr Let_def)
    have "buffer_ok t"
      by (rule keepsD [OF await_keeps await]) (use ok in \<open>simp add: buffer_ok_def\<close>)
    with copy show ?thesis
      by (auto simp: copy_hdbuf_def buffer_ok_def split: if_splits)
  qed
  then show ?thesis by (simp add: keeps_def)
qed

section \<open>The file system's arrays\<close>

lemma on_disk_keeps: "keeps buffer_ok f \<Longrightarrow> keeps wf_fs (on_disk f)"
  by (auto simp: keeps_def on_disk_def bind_outcome_Inr wf_fs_def buffer_ok_def)

lemma disk_keeps: "keeps wf_fs (on_disk (hd_read dev irq a n b))"
  by (rule on_disk_keeps [OF hd_read_keeps])

lemma wf_set_mem [simp]: "wf_fs (set_mem f s) \<longleftrightarrow> wf_fs s"
  by (simp add: wf_fs_def set_mem_def)

lemma wf_update [simp]:
  "wf_fs (s\<lparr>base_sector := b\<rparr>) \<longleftrightarrow> wf_fs s" "wf_fs (s\<lparr>super_block := c\<rparr>) \<longleftrightarrow> wf_fs s"
  by (simp_all add: wf_fs_def)

lemma set_at_length: "set_at xs i x = Inr ys \<Longrightarrow> length ys = length xs"
  by (auto simp: set_at_def split: if_splits)

lemma primary_loop_keeps: "primary_loop b off prim logic s = Inr (n, s') \<Longrightarrow> wf_fs s \<Longrightarrow> wf_fs s'"
proof (induction b off prim logic s rule: primary_loop.induct)
  case (1 b off prim logic s)
  from "1.prems"(1) obtain t where t: "table_at (mem s) b off = Inr t"
    by (subst (asm) primary_loop.simps) (auto simp: bind_outcome_Inr)
  show ?case
  proof (cases "system_id t \<noteq> PART_EMPTY \<and> off < PART_TABLE_END")
    case False
    then show ?thesis
      using "1.prems" t by (subst (asm) primary_loop.simps) auto
  next
    case True
    define r where "r = (if system_id t = PART_EXTENDED
        then bind_outcome (set_at (logical s) logic t) (\<lambda>l. Inr (logic + 1, s\<lparr>logical := l\<rparr>))
        else Inr (logic, s))"
    from "1.prems"(1) t True obtain k u p where r: "r = Inr (k, u)" and p: "set_at (primary u) prim t = Inr p"
      and rest: "primary_loop b (off + 16) (prim + 1) k (u\<lparr>primary := p\<rparr>) = Inr (n, s')"
      by (subst (asm) primary_loop.simps) (auto simp: bind_outcome_Inr r_def)
    have "wf_fs u"
      using r "1.prems"(2) by (auto simp: r_def wf_fs_def bind_outcome_Inr dest: set_at_length split: if_splits)
    then have "wf_fs (u\<lparr>primary := p\<rparr>)"
      using set_at_length [OF p] by (simp add: wf_fs_def)
    with "1.IH" [OF t True r [unfolded r_def] refl p rest] show ?thesis .
  qed
qed

lemma logical_loop_keeps: "logical_loop dev irq b logic s = Inr s' \<Longrightarrow> wf_fs s \<Longrightarrow> wf_fs s'"
proof (induction dev irq b logic s rule: logical_loop.induct)
  case (1 dev irq b logic s)
  define table where "table = read_part (mem s) (b + of_nat PART_TABLE_OFFSET)"
  define link where "link = read_part (mem s) (b + of_nat (PART_TABLE_OFFSET + 0x10))"
  show ?case
  proof (cases "system_id table \<noteq> PART_EMPTY")
    case False
    with "1.prems" show ?thesis
      by (subst (asm) logical_loop.simps) (simp add: table_def Let_def)
  next
    case True
    with "1.prems"(1) obtain l where l: "set_at (logical s) logic table = Inr l"
      by (subst (asm) logical_loop.simps) (auto simp: table_def Let_def bind_outcome_Inr)
    have wf: "wf_fs (s\<lparr>logical := l'\<rparr>)" if "length l' = length (logical s)" for l'
      using "1.prems"(2) that by (simp add: wf_fs_def)
    show ?thesis
    proof (cases "system_id link \<noteq> PART_EMPTY")
      case False
      with True l "1.prems"(1) have "s' = s\<lparr>logical := l\<rparr>"
        by (subst (asm) logical_loop.simps) (auto simp: table_def link_def Let_def)
      then show ?thesis
        using wf set_at_length [OF l] by simp
    next
      case link: True
      with True l "1.prems"(1) obtain l' t where l': "set_at l (logic + 1) link = Inr l'"
        and read: "on_disk (hd_read dev irq (first_LBA link + first_LBA (l' ! 0)) 1 b) (s\<lparr>logical := l'\<rparr>) = Inr t"
        and rest: "logical_loop dev irq b (logic + 2) t = Inr s'"
        by (subst (asm) logical_loop.simps) (auto simp: table_def link_def Let_def bind_outcome_Inr)
      have "wf_fs t"
        by (rule keepsD [OF disk_keeps read]) (use wf set_at_length [OF l] set_at_length [OF l'] in simp)
      with "1.IH" [OF refl refl _ l [unfolded table_def] _ l' [unfolded link_def] read [unfolded link_def] rest]
      show ?thesis
        using True link by (simp add: table_def link_def)
    qed
  qed
qed

lemma get_part_information_keeps: "keeps wf_fs (get_part_information dev irq L)"
proof -
  have "wf_fs s'" if "wf_fs s" and run: "get_part_information dev irq L s = Inr s'" for s s'
  proof -
    from run obtain a n b c where "on_disk (hd_read dev irq 0 1 (local_buf L)) s = Inr a"
      and "primary_loop (local_buf L) PART_TABLE_OFFSET 0 0 a = Inr (n, b)"
      and "on_disk (hd_read dev irq (first_LBA (logical b ! 0)) 1 (local_buf L)) b = Inr c"
      and "logical_loop dev irq (local_buf L) n c = Inr s'"
      by (auto simp: get_part_information_def bind_outcome_Inr)
    with that(1) show ?thesis
      using keepsD [OF disk_keeps] primary_loop_keeps logical_loop_keeps by meson
  qed
  then show ?thesis by (simp add: keeps_def)
qed

lemma find_partition_keeps: "find_partition s = Inr (t, s') \<Longrightarrow> wf_fs s \<Longrightarrow> wf_fs s'"
  by (auto simp: find_partition_def Let_def split: if_splits)

end
