(* ===== verification/Loader.thy ===== *)
theory Loader
  imports FsParts FsLoad FsType
begin

text \<open>
  The loader's main function, \<^verbatim>\<open>Cstart\<close> of \<^verbatim>\<open>src/boot/loader.c\<close>, which calls every other
  part of it in order, and its timer interrupt, \<^verbatim>\<open>src/boot/timer.c\<close>. The timer's interrupts
  between the statements of \<^verbatim>\<open>Cstart\<close> touch one cell of the screen and \<^verbatim>\<open>ticks\<close>, and are
  treated on their own.
\<close>

section \<open>timer.c\<close>

text \<open>\<^verbatim>\<open>ticks\<close> starts at \<^verbatim>\<open>'A'\<close>; the handler shows it in the first cell of the last line.\<close>

record tick_state =
  ticks :: u8
  tick_mem :: bmem
  tick_io :: io

definition timer_handler_boot :: "tick_state \<Rightarrow> tick_state outcome" where
  "timer_handler_boot s =
     (let s = (if ticks s = 122 then s\<lparr>ticks := 65\<rparr> else s) in
      bind_outcome (gs_store (tick_mem s) (24 * 160) (ticks s) 0xc) (\<lambda>m.
      Inr (s\<lparr>ticks := ticks s + 1, tick_mem := m, tick_io := outb 0x20 0x20 (tick_io s)\<rparr>)))"

text \<open>The stub around it, \<^verbatim>\<open>interrupt_master(0)\<close>.\<close>

definition irq00_handler_boot :: "device \<Rightarrow> tick_state \<Rightarrow> tick_state outcome" where
  "irq00_handler_boot dev s =
     bind_outcome (timer_handler_boot (s\<lparr>tick_io := interrupt_enter dev 0 (tick_io s)\<rparr>))
       (\<lambda>s. Inr (s\<lparr>tick_io := interrupt_leave dev 0 (tick_io s)\<rparr>))"

primrec tick_times :: "nat \<Rightarrow> device \<Rightarrow> tick_state \<Rightarrow> tick_state outcome" where
  "tick_times 0 dev s = Inr s"
| "tick_times (Suc n) dev s = bind_outcome (tick_times n dev s) (irq00_handler_boot dev)"

section \<open>loader.c\<close>

record loader_state =
  fs :: fs_state
  tables :: idt_state

text \<open>The two parts share the ports.\<close>

definition on_tables :: "(idt_state \<Rightarrow> idt_state outcome) \<Rightarrow> loader_state \<Rightarrow> loader_state outcome" where
  "on_tables f s =
     bind_outcome (f ((tables s)\<lparr>ports := wire (disk (fs s))\<rparr>)) (\<lambda>k.
       Inr (s\<lparr>tables := k, fs := (fs s)\<lparr>disk := (disk (fs s))\<lparr>wire := ports k\<rparr>\<rparr>\<rparr>))"

definition on_fs :: "(fs_state \<Rightarrow> fs_state outcome) \<Rightarrow> loader_state \<Rightarrow> loader_state outcome" where
  "on_fs f s = bind_outcome (f (fs s)) (\<lambda>t. Inr (s\<lparr>fs := t\<rparr>))"

text \<open>\<^verbatim>\<open>dis_str(str, 0xc, row, 0)\<close>.\<close>

definition say :: "u32 \<Rightarrow> u32 \<Rightarrow> loader_state \<Rightarrow> loader_state outcome" where
  "say str row s =
     bind_outcome (dis_str (mem (fs s)) str 0xc row 0) (\<lambda>(n, m).
       Inr (s\<lparr>fs := set_mem (\<lambda>_. m) (fs s)\<rparr>))"

text \<open>
  \<^verbatim>\<open>msg\<close> gives the addresses of the messages in their order, \<^verbatim>\<open>stack\<close> what the stack holds
  where \<^verbatim>\<open>hd_identify\<close> puts its command. A result is the state at the jump to the kernel.
\<close>

definition Cstart_devices :: "(string \<Rightarrow> u32) \<Rightarrow> u32 \<Rightarrow> device \<Rightarrow> (nat \<Rightarrow> u32) \<Rightarrow>
    loader_state \<Rightarrow> loader_state outcome" where
  "Cstart_devices addr_of idt_addr dev msg s =
     bind_outcome (say (msg 0) 0 s) (\<lambda>s.
     bind_outcome (on_tables (\<lambda>k. Inr (map_ports Init_8259A k)) s) (\<lambda>s.
     bind_outcome (say (msg 1) 1 s) (\<lambda>s.
     bind_outcome (on_tables (\<lambda>k. Inr (init_idt idt_addr k)) s) (\<lambda>s.
     bind_outcome (say (msg 2) 2 s) (\<lambda>s.
     bind_outcome (on_tables (init_timer_boot addr_of dev) s) (\<lambda>s.
     bind_outcome (say (msg 3) 3 s) (\<lambda>s.
     on_tables (init_hd addr_of dev) s)))))))"

definition Cstart_load :: "device \<Rightarrow> (history \<Rightarrow> bool) \<Rightarrow> fs_addrs \<Rightarrow> (nat \<Rightarrow> u32) \<Rightarrow> u32 \<Rightarrow>
    loader_state \<Rightarrow> loader_state outcome" where
  "Cstart_load dev irq L msg DetectCount s =
     bind_outcome (say (msg 4) 4 s) (\<lambda>s.
     bind_outcome (on_fs (get_super_block dev irq L) s) (\<lambda>s.
     bind_outcome (say (msg 5) 5 s) (\<lambda>s.
     bind_outcome (on_fs (get_inode_array dev irq L) s) (\<lambda>s.
     bind_outcome (say (msg 6) 6 s) (\<lambda>s.
     bind_outcome (on_fs (get_root_area dev irq L) s) (\<lambda>s.
     bind_outcome (say (msg 7) 8 s) (\<lambda>s.
     bind_outcome (on_fs (loader_kernel dev irq L DetectCount) s) (\<lambda>s.
     on_tables (\<lambda>k. Inr (map_ports cli k)) s))))))))"

definition Cstart :: "(string \<Rightarrow> u32) \<Rightarrow> u32 \<Rightarrow> device \<Rightarrow> (history \<Rightarrow> bool) \<Rightarrow> fs_addrs \<Rightarrow> (nat \<Rightarrow> u32) \<Rightarrow>
    hd_cmd \<Rightarrow> u32 \<Rightarrow> loader_state \<Rightarrow> loader_state outcome" where
  "Cstart addr_of idt_addr dev irq L msg stack DetectCount s =
     bind_outcome (Cstart_devices addr_of idt_addr dev msg s) (\<lambda>s.
     bind_outcome (on_fs (on_disk (hd_identify dev irq stack (local_buf L))) s) (\<lambda>s.
     bind_outcome (on_fs (get_part_information dev irq L) s) (\<lambda>s.
     bind_outcome (make_fs dev irq L (fs s)) (\<lambda>(made, t).
       if made \<noteq> 0
       then Inl (Panic ''make Finuxfs compelet, please loader the kernel in the root dir.'')
       else Cstart_load dev irq L msg DetectCount (s\<lparr>fs := t\<rparr>)))))"

section \<open>The ticks\<close>

lemma irq00_handler_boot_run:
  "gives (irq00_handler_boot dev s) (\<lambda>s'. ticks s' = (if ticks s = 122 then 66 else ticks s + 1)
    \<and> tick_mem s' = (tick_mem s)(SCREEN + 3840 := (if ticks s = 122 then 65 else ticks s), SCREEN + 3841 := 0xc)
    \<and> int_flag (tick_io s'))"
  by (simp add: irq00_handler_boot_def timer_handler_boot_def gs_store_def interrupt_frame add.commute [of 3841] Let_def)

section \<open>The start of the loader\<close>

text \<open>
  Addresses the loader's start leaves alone, and a message that stands there; \<^verbatim>\<open>booting\<close>
  is what every step of \<^verbatim>\<open>Cstart\<close> keeps until the disk is written.
\<close>

definition kept :: "fs_addrs \<Rightarrow> u32 \<Rightarrow> bool" where
  "kept L x \<longleftrightarrow> off_screen x \<and> 512 \<le> unat (x - local_buf L) \<and> 512 \<le> unat (x - tmp_buf L)"

definition readable :: "fs_addrs \<Rightarrow> bmem \<Rightarrow> u32 \<Rightarrow> bool" where
  "readable L m a \<longleftrightarrow> (\<exists>bs. cstr m a bs \<and> length bs \<le> 80 \<and> (\<forall>i \<le> length bs. kept L (a + of_nat i)))"

definition booting :: "device \<Rightarrow> (history \<Rightarrow> bool) \<Rightarrow> (nat \<Rightarrow> u8 list) \<Rightarrow> fs_addrs \<Rightarrow>
    (nat \<Rightarrow> u8 list) \<Rightarrow> bmem \<Rightarrow> fs_state \<Rightarrow> bool" where
  "booting dev irq d L st m0 s \<longleftrightarrow> ata_disk dev irq d \<and> length (hdbuf (HD (disk s))) = HDBUF_SIZE
     \<and> ata_contents d (history (wire (disk s))) = st \<and> (\<forall>x. kept L x \<longrightarrow> mem s x = m0 x)"

lemma booting_sees:
  "booting dev irq d L st m0 s \<Longrightarrow> int_flag (wire (disk s)) \<Longrightarrow> hd_sees dev irq d (disk s) st (mem s)"
  by (simp add: booting_def hd_sees_def)

lemma sees_booting:
  "hd_sees dev irq d (disk s) st m \<Longrightarrow> (\<And>x. kept L x \<Longrightarrow> m x = m0 x) \<Longrightarrow>
     booting dev irq d L st m0 s \<and> int_flag (wire (disk s))"
  by (simp add: booting_def hd_sees_def)

lemma readable_agrees:
  assumes "readable L m a" and "\<And>x. kept L x \<Longrightarrow> m' x = m x"
  shows "readable L m' a"
proof -
  from assms(1) obtain bs where bs: "cstr m a bs" "length bs \<le> 80" "\<And>i. i \<le> length bs \<Longrightarrow> kept L (a + of_nat i)"
    by (auto simp: readable_def)
  have "cstr m' a bs"
    by (rule cstr_cong [OF bs(1)]) (use assms(2) bs(3) in simp)
  with bs show ?thesis
    by (auto simp: readable_def)
qed

lemma say_boots:
  assumes "booting dev irq d L st m0 (fs s)" and "readable L m0 a" and "unat (row * 160) \<le> 3840"
  shows "gives (say a row s) (\<lambda>s'. booting dev irq d L st m0 (fs s')
    \<and> wire (disk (fs s')) = wire (disk (fs s)) \<and> fs_vars (fs s') = fs_vars (fs s) \<and> tables s' = tables s)"
proof -
  have "readable L (mem (fs s)) a"
    using readable_agrees [OF assms(2)] assms(1) by (simp add: booting_def)
  then obtain bs where "cstr (mem (fs s)) a bs" "length bs \<le> 80" "\<And>i. i \<le> length bs \<Longrightarrow> kept L (a + of_nat i)"
    by (auto simp: readable_def)
  with assms(3) have "dis_str (mem (fs s)) a 0xc row 0 = Inr (int (length bs), shown (row * 160) 0xc bs (mem (fs s)))"
    and "\<And>x. off_screen x \<Longrightarrow> shown (row * 160) 0xc bs (mem (fs s)) x = mem (fs s) x"
    using dis_str_off_screen [of "mem (fs s)" a bs row 0] by (auto simp: kept_def)
  then show ?thesis
    using assms(1) by (simp add: say_def booting_def set_mem_def fs_vars_def kept_def)
qed

lemma tables_boot:
  assumes "booting dev irq d L st m0 (fs s)"
    and "gives (f ((tables s)\<lparr>ports := wire (disk (fs s))\<rparr>))
      (\<lambda>k. ata_contents d (history (ports k)) = st \<and> (e \<longrightarrow> int_flag (ports k)))"
  shows "gives (on_tables f s) (\<lambda>s'. booting dev irq d L st m0 (fs s')
    \<and> (e \<longrightarrow> int_flag (wire (disk (fs s')))) \<and> fs_vars (fs s') = fs_vars (fs s))"
  using assms by (auto simp: gives_def on_tables_def booting_def fs_vars_def)

lemma enable_irq_contents [simp]:
  "ata_contents d (history (enable_irq dev i w)) = ata_contents d (history w)"
  "int_flag (enable_irq dev i w)"
  by (simp_all add: enable_irq_def port_defs Let_def)

lemma Init_8259A_contents [simp]:
  "ata_contents d (history (Init_8259A w)) = ata_contents d (history w)"
  by (simp add: Init_8259A_def port_defs Let_def)

lemma boot_drivers:
  "gives (init_timer_boot a dev k) (\<lambda>k'. ata_contents d (history (ports k')) = ata_contents d (history (ports k))
     \<and> int_flag (ports k'))"
  "gives (init_hd a dev k) (\<lambda>k'. ata_contents d (history (ports k')) = ata_contents d (history (ports k))
     \<and> int_flag (ports k'))"
  by (simp_all add: init_timer_boot_def init_hd_def set_intr_gate_boot_def intr_gate_def layout Let_def)

lemma Cstart_devices_boots:
  assumes "booting dev irq d L st m0 (fs s)" and "\<And>k. k < 4 \<Longrightarrow> readable L m0 (msg k)"
  shows "gives (Cstart_devices a i dev msg s) (\<lambda>s'. booting dev irq d L st m0 (fs s')
    \<and> int_flag (wire (disk (fs s'))) \<and> fs_vars (fs s') = fs_vars (fs s))"
proof -
  let ?P = "\<lambda>s'. booting dev irq d L st m0 (fs s') \<and> fs_vars (fs s') = fs_vars (fs s)"
  have message: "gives (bind_outcome (say (msg k) (of_nat k) s') f) Q"
    if "?P s'" "k < 4" "\<And>s'. ?P s' \<Longrightarrow> gives (f s') Q" for k s' f Q
  proof (rule gives_bind [OF say_boots])
    have "of_nat k * 160 = (of_nat (k * 160) :: u32)" by simp
    then show "unat (of_nat k * 160 :: u32) \<le> 3840"
      using that(2) by (simp only: unat_of_nat_u32)
  qed (use that assms(2) in auto)
  have tables: "gives (bind_outcome (on_tables g s') f) Q"
    if "?P s'" "\<And>k. gives (g k) (\<lambda>k'. ata_contents d (history (ports k')) = ata_contents d (history (ports k)))"
      "\<And>s'. ?P s' \<Longrightarrow> gives (f s') Q" for g s' f Q
  proof (rule gives_bind [OF tables_boot [where f = g and e = False]])
    show "gives (g ((tables s')\<lparr>ports := wire (disk (fs s'))\<rparr>))
        (\<lambda>k. ata_contents d (history (ports k)) = st \<and> (False \<longrightarrow> int_flag (ports k)))"
      using that(2) [of "(tables s')\<lparr>ports := wire (disk (fs s'))\<rparr>"] that(1) by (simp add: booting_def)
  qed (use that in auto)
  have last: "gives (on_tables (init_hd a dev) s') (\<lambda>s'. booting dev irq d L st m0 (fs s')
      \<and> int_flag (wire (disk (fs s'))) \<and> fs_vars (fs s') = fs_vars (fs s))" if "?P s'" for s'
  proof -
    have "gives (init_hd a dev ((tables s')\<lparr>ports := wire (disk (fs s'))\<rparr>))
        (\<lambda>k. ata_contents d (history (ports k)) = st \<and> (True \<longrightarrow> int_flag (ports k)))"
      using boot_drivers(2) [of a dev "(tables s')\<lparr>ports := wire (disk (fs s'))\<rparr>" d] that
      by (simp add: booting_def)
    from tables_boot [where f = "init_hd a dev" and e = True, OF _ this] that show ?thesis
      by (auto elim!: gives_mono)
  qed
  note says = message [of _ 0, simplified] message [of _ 1, simplified]
    message [of _ 2, simplified] message [of _ 3, simplified]
  show ?thesis
    unfolding Cstart_devices_def
    apply (rule says(1), simp add: assms(1))
    apply (rule tables, assumption, simp)
    apply (rule says(2) [unfolded One_nat_def [symmetric]], assumption)
    apply (rule tables, assumption, simp add: init_idt_def lidt_def map_ports_def cli_def sti_def)
    apply (rule says(3), assumption)
    apply (rule tables, assumption, rule gives_mono [OF boot_drivers(1) [where d = d]], simp)
    apply (rule says(4), assumption)
    apply (erule last)
    done
qed

section \<open>Properties\<close>

text \<open>
  The state of the loader when the tables have been read, on a disk whose chain of extended
  tables holds a Finux partition.
\<close>

lemma Cstart_until_make_fs:
  assumes start: "booting dev irq d L st m0 (fs s)" "wf_fs (fs s)" "tables_clear (fs s)"
      "\<And>k. k < 8 \<Longrightarrow> readable L m0 (msg k)"
    and disk: "boot_record (st 0) ps" "\<And>t. t \<in> set ps \<Longrightarrow> system_id t \<noteq> FINUX_SYSID"
      "filter is_extended ps = [x]" "ebr_chain st (first_LBA x) (first_LBA x) ts" "links_extended ts"
      "length ts \<le> 9" "finux_at (first_LBA x) (first_LBA x) ts = Some (t, base)"
  shows "\<exists>s1 t1 t2. Cstart a i dev irq L msg stack n s = bind_outcome (make_fs dev irq L t1) (\<lambda>(made, u).
        if made \<noteq> 0
        then Inl (Panic ''make Finuxfs compelet, please loader the kernel in the root dir.'')
        else Cstart_load dev irq L msg n (s1\<lparr>fs := u\<rparr>))
    \<and> booting dev irq d L st m0 t1 \<and> int_flag (wire (disk t1)) \<and> wf_fs t1
    \<and> find_partition t1 = Inr (t, t2) \<and> base = first_LBA t + base_sector t2"
proof -
  obtain s1 where s1: "Cstart_devices a i dev msg s = Inr s1" "booting dev irq d L st m0 (fs s1)"
    "int_flag (wire (disk (fs s1)))" "fs_vars (fs s1) = fs_vars (fs s)"
    using Cstart_devices_boots [OF start(1), of msg a i] start(4) by (auto elim: givesE)
  have sees: "hd_sees dev irq d (disk (fs s1)) st (mem (fs s1))"
    by (rule booting_sees [OF s1(2,3)])
  from hd_identify_sees [OF this, of stack "local_buf L"] obtain h bs
    where h: "hd_identify dev irq stack (local_buf L) (disk (fs s1)) = Inr h" "length bs = 512"
      "hd_sees dev irq d h st (put_bytes (mem (fs s1)) (local_buf L) bs)"
    by (auto elim!: givesE)
  let ?t = "(fs s1)\<lparr>disk := h\<rparr>"
  have clear: "tables_clear ?t"
    using start(3) s1(4) by (simp add: tables_clear_def fs_vars_def)
  have "hd_sees dev irq d (disk ?t) st (put_bytes (mem (fs s1)) (local_buf L) bs)"
    using h by simp
  from partition_run [OF this clear disk(1) _ disk(3-6), of L] disk(2,7) obtain t1 m1
    where t1: "get_part_information dev irq L ?t = Inr t1"
      "hd_sees dev irq d (disk t1) st m1" "same_but (local_buf L) (put_bytes (mem (fs s1)) (local_buf L) bs) m1"
    and find: "gives (find_partition t1) (\<lambda>(t', s''). t' = t \<and> first_LBA t + base_sector s'' = base)"
    by (auto simp: gives_def)
  obtain t2 where t2: "find_partition t1 = Inr (t, t2)" "base = first_LBA t + base_sector t2"
    using find by (auto elim: givesE)
  have "m1 y = m0 y" if "kept L y" for y
    using that t1(3) h(2) s1(2) by (simp add: same_but_def put_bytes_apply kept_def booting_def)
  then have boot: "booting dev irq d L st m0 t1" "int_flag (wire (disk t1))"
    using sees_booting [OF t1(2)] by blast+
  have "wf_fs ?t"
    using start(2) s1(4) h(3) by (simp add: wf_fs_def fs_vars_def hd_sees_def)
  then have "wf_fs t1"
    by (rule keepsD [OF get_part_information_keeps t1(1)])
  moreover have "Cstart a i dev irq L msg stack n s = bind_outcome (make_fs dev irq L t1) (\<lambda>(made, u).
      if made \<noteq> 0
      then Inl (Panic ''make Finuxfs compelet, please loader the kernel in the root dir.'')
      else Cstart_load dev irq L msg n ((s1\<lparr>fs := t1\<rparr>)\<lparr>fs := u\<rparr>))"
    using s1(1) h(1) t1(1) by (simp add: Cstart_def on_fs_def on_disk_def)
  ultimately show ?thesis
    using boot t2 by blast
qed

text \<open>Behind \<^verbatim>\<open>make_fs\<close>, on a disk with the file system that it makes.\<close>

lemma Cstart_load_fails:
  assumes boot: "booting dev irq d L st m0 (fs s)" "int_flag (wire (disk (fs s)))"
    and vars: "base_sector (fs s) = base" "length (inode_array (fs s)) = 100"
    and msgs: "readable L m0 (msg 4)" "readable L m0 (msg 5)"
    and super: "st (unat base + 1) = words_bytes (super_words (new_super base t)) @ leak" "length leak = 452"
    and small: "unat base + 1 < 268435456"
  shows "Cstart_load dev irq L msg n s = Inl Out_Of_Bounds"
proof -
  obtain s2 where s2: "say (msg 4) 4 s = Inr s2" "booting dev irq d L st m0 (fs s2)"
      "int_flag (wire (disk (fs s2)))" "fs_vars (fs s2) = fs_vars (fs s)"
    using say_boots [OF boot(1) msgs(1), of 4] boot(2) by (auto elim: givesE)
  have base: "base_sector (fs s2) = base" "length (inode_array (fs s2)) = 100"
    using s2(4) vars by (simp_all add: fs_vars_def)
  have at: "lba28 (base + 1) = unat base + 1"
    using lba28_add [of base 1] small by simp
  obtain t3 where t3: "on_disk (hd_read dev irq (base + 1) 1 (tmp_buf L)) (fs s2) = Inr t3"
      "fs_sees dev irq d (fs s2) t3 st (put_bytes (mem (fs s2)) (tmp_buf L) (st (unat base + 1)))"
    using fs.rd_sees [OF fs_sees_self [OF booting_sees [OF s2(2,3)]], of "base + 1" "tmp_buf L"] at
    by (auto elim: givesE)
  let ?t4 = "t3\<lparr>super_block := new_super base t\<rparr>"
  have "read_super (mem t3) (tmp_buf L) = new_super base t"
    using super by (simp add: fs_sees_mem [OF t3(2)] read_super_put_bytes)
  then have load: "on_fs (get_super_block dev irq L) s2 = Inr (s2\<lparr>fs := ?t4\<rparr>)"
    using t3(1) base by (simp add: on_fs_def get_super_block_def get_sector_def)
  have "length (st (unat base + 1)) = 512"
    by (rule fs.sector_length [OF t3(2)])
  then have "booting dev irq d L st m0 ?t4 \<and> int_flag (wire (disk ?t4))"
    using t3(2) s2(2) by (intro sees_booting [where m = "put_bytes (mem (fs s2)) (tmp_buf L) (st (unat base + 1))"])
      (simp_all add: fs_sees_def put_bytes_apply kept_def booting_def)
  then obtain s5 where s5: "say (msg 5) 5 (s2\<lparr>fs := ?t4\<rparr>) = Inr s5" "booting dev irq d L st m0 (fs s5)"
      "int_flag (wire (disk (fs s5)))" "fs_vars (fs s5) = fs_vars ?t4"
    using say_boots [of dev irq d L st m0 "s2\<lparr>fs := ?t4\<rparr>" "msg 5" 5] msgs(2) by (auto elim: givesE)
  have "length (inode_array (fs s5)) = 100" "super_block (fs s5) = new_super base t"
    using s5(4) base(2) fs_sees_fields(4) [OF t3(2)] by (simp_all add: fs_vars_def)
  then have "get_inode_array dev irq L (fs s5) = Inl Out_Of_Bounds"
    by (rule get_inode_array_fails [OF booting_sees [OF s5(2,3)]])
  then show ?thesis
    using s2(1) load s5(1) by (simp add: Cstart_load_def on_fs_def)
qed

text \<open>The loader up to the test of \<^verbatim>\<open>make_fs\<close>, which reads the super block at \<^verbatim>\<open>base\<close>.\<close>

lemma Cstart_meets_make_fs:
  assumes "booting dev irq d L st m0 (fs s)" "wf_fs (fs s)" "tables_clear (fs s)"
    and "\<forall>k<8. readable L m0 (msg k)"
    and "boot_record (st 0) ps" "\<forall>t\<in>set ps. system_id t \<noteq> FINUX_SYSID"
    and "filter is_extended ps = [x]" "ebr_chain st (first_LBA x) (first_LBA x) ts" "links_extended ts"
    and "length ts \<le> 9" "finux_at (first_LBA x) (first_LBA x) ts = Some (t, base)"
    and "unat base + 1 < 268435456"
  shows "\<exists>s1 t1 t2 u. Cstart a i dev irq L msg stack n s = bind_outcome (make_fs dev irq L t1) (\<lambda>(made, u).
        if made \<noteq> 0
        then Inl (Panic ''make Finuxfs compelet, please loader the kernel in the root dir.'')
        else Cstart_load dev irq L msg n (s1\<lparr>fs := u\<rparr>))
    \<and> make_fs dev irq L t1 = (if sector32 (st (unat base + 1)) 0 = FINUX_MAGIC then Inr (0, u)
        else format_part dev irq L base t u)
    \<and> booting dev irq d L st m0 t1 \<and> wf_fs t2
    \<and> fs_sees dev irq d (t2\<lparr>base_sector := base\<rparr>) u st (put_bytes (mem t1) (local_buf L) (st (unat base + 1)))"
proof -
  have "\<exists>s1 t1 t2. Cstart a i dev irq L msg stack n s = bind_outcome (make_fs dev irq L t1) (\<lambda>(made, u).
        if made \<noteq> 0
        then Inl (Panic ''make Finuxfs compelet, please loader the kernel in the root dir.'')
        else Cstart_load dev irq L msg n (s1\<lparr>fs := u\<rparr>))
    \<and> booting dev irq d L st m0 t1 \<and> int_flag (wire (disk t1)) \<and> wf_fs t1
    \<and> find_partition t1 = Inr (t, t2) \<and> base = first_LBA t + base_sector t2"
    by (rule Cstart_until_make_fs [OF assms(1-3) _ assms(5) _ assms(7-11)]) (use assms(4,6) in auto)
  then obtain s1 t1 t2 where run: "Cstart a i dev irq L msg stack n s = bind_outcome (make_fs dev irq L t1) (\<lambda>(made, u).
        if made \<noteq> 0
        then Inl (Panic ''make Finuxfs compelet, please loader the kernel in the root dir.'')
        else Cstart_load dev irq L msg n (s1\<lparr>fs := u\<rparr>))"
    and t1: "booting dev irq d L st m0 t1" "int_flag (wire (disk t1))" "wf_fs t1"
    and find: "find_partition t1 = Inr (t, t2)" "base = first_LBA t + base_sector t2"
    by blast
  have "wf_fs t2"
    by (rule find_partition_keeps [OF find(1) t1(3)])
  then show ?thesis
    using make_fs_run [OF find(1) booting_sees [OF t1(1,2)] find(2) assms(12), of L] run t1(1) by blast
qed

text \<open>
  C25. The loader as a whole, from its first statement. On a disk whose extended partition holds a
  Finux partition without a file system, it sets up the devices, reads the tables, makes the
  file system and stops with the message that says so. On a disk with the file system that
  \<^verbatim>\<open>make_fs\<close> makes, it never reaches the kernel without leaving the defined behaviour of C:
  reading the inode array runs past the array.
\<close>

theorem Cstart_outcomes:
  assumes "booting dev irq d L st m0 (fs s)" "wf_fs (fs s)" "tables_clear (fs s)"
    and "\<And>k. k < 8 \<Longrightarrow> readable L m0 (msg k)"
    and "boot_record (st 0) ps" "\<And>t. t \<in> set ps \<Longrightarrow> system_id t \<noteq> FINUX_SYSID"
    and "filter is_extended ps = [x]" "ebr_chain st (first_LBA x) (first_LBA x) ts" "links_extended ts"
    and "length ts \<le> 9" "finux_at (first_LBA x) (first_LBA x) ts = Some (t, base)"
    and "unat base + 11 + unat (sector_cnt t) div 4096 \<le> 268435456" "locals_apart L"
  shows "(sector32 (st (unat base + 1)) 0 \<noteq> FINUX_MAGIC \<longrightarrow> Cstart a i dev irq L msg stack n s =
      Inl (Panic ''make Finuxfs compelet, please loader the kernel in the root dir.''))
    \<and> (st (unat base + 1) = words_bytes (super_words (new_super base t)) @ leak \<and> length leak = 452 \<longrightarrow>
      Cstart a i dev irq L msg stack n s = Inl Out_Of_Bounds)"
proof -
  have small: "unat base + 1 < 268435456"
    using assms(12) by simp
  have "\<forall>k<8. readable L m0 (msg k)" "\<forall>t\<in>set ps. system_id t \<noteq> FINUX_SYSID"
    using assms(4,6) by blast+
  note reached = Cstart_meets_make_fs [OF assms(1-3) this(1) assms(5) this(2) assms(7-11) small, of a i stack n]
  obtain s1 t1 t2 u where run: "Cstart a i dev irq L msg stack n s = bind_outcome (make_fs dev irq L t1) (\<lambda>(made, u).
        if made \<noteq> 0
        then Inl (Panic ''make Finuxfs compelet, please loader the kernel in the root dir.'')
        else Cstart_load dev irq L msg n (s1\<lparr>fs := u\<rparr>))"
    and made: "make_fs dev irq L t1 = (if sector32 (st (unat base + 1)) 0 = FINUX_MAGIC then Inr (0, u)
        else format_part dev irq L base t u)"
    and t: "booting dev irq d L st m0 t1" "wf_fs t2"
    and u: "fs_sees dev irq d (t2\<lparr>base_sector := base\<rparr>) u st (put_bytes (mem t1) (local_buf L) (st (unat base + 1)))"
    using reached by blast
  show ?thesis
  proof (intro conjI impI)
    assume "sector32 (st (unat base + 1)) 0 \<noteq> FINUX_MAGIC"
    with format_part_run [OF u assms(12,13)] made run
    show "Cstart a i dev irq L msg stack n s =
      Inl (Panic ''make Finuxfs compelet, please loader the kernel in the root dir.'')"
      by (auto elim!: givesE)
  next
    assume super: "st (unat base + 1) = words_bytes (super_words (new_super base t)) @ leak \<and> length leak = 452"
    then have start: "Cstart a i dev irq L msg stack n s = Cstart_load dev irq L msg n (s1\<lparr>fs := u\<rparr>)"
      using run made by (simp add: sector32_super)
    have u': "hd_sees dev irq d (disk u) st (put_bytes (mem t1) (local_buf L) (st (unat base + 1)))"
      using u by (simp add: fs_sees_def)
    have boot: "booting dev irq d L st m0 u \<and> int_flag (wire (disk u))"
      using t(1) hd.sector_length [OF u'] by (intro sees_booting [OF u']) (simp add: put_bytes_apply kept_def booting_def)
    have "length (inode_array u) = 100"
      using fs_sees_fields(4) [OF u] t(2) by (simp add: wf_fs_def layout)
    then show "Cstart a i dev irq L msg stack n s = Inl Out_Of_Bounds"
      unfolding start using super boot assms(4) [of 4] assms(4) [of 5] fs_sees_fields(5) [OF u] small
      by (intro Cstart_load_fails [where base = base and t = t and leak = leak and st = st and d = d]) simp_all
  qed
qed

theorem Cstart_outcomes_witness:
  "Cstart (\<lambda>f. 0) 0 (sample_dev sample_chain) (\<lambda>h. True) sample_addrs (\<lambda>k. 0x13000)
     \<lparr>features = 0, sector_count = 0, LBA_low = 0, LBA_mid = 0, LBA_hig = 0, device_reg = 0, command = 0\<rparr> 3
     \<lparr>fs = sample_clear, tables = cold_idt\<rparr>
   = Inl (Panic ''make Finuxfs compelet, please loader the kernel in the root dir.'')"
proof -
  have len: "length (sample_chain k) = 512" for k
    by (simp add: sample_chain_def)
  let ?s = "\<lparr>fs = sample_clear, tables = cold_idt\<rparr>"
  have "booting (sample_dev sample_chain) (\<lambda>h. True) sample_chain sample_addrs sample_chain (\<lambda>x. 0) (fs ?s)"
    using sees_booting [OF sample_clear_sees [of sample_chain, OF len]] by simp
  moreover have "wf_fs (fs ?s)" "tables_clear (fs ?s)"
    using sample_clear_tables
    by (simp_all add: wf_fs_def sample_clear_def sample_fs_def sample_hd_def layout)
  moreover have "readable sample_addrs (\<lambda>x. 0) 0x13000"
    unfolding readable_def
    by (intro exI [of _ "[]"]) (simp add: kept_def off_screen_def sample_addrs_def layout)
  moreover have "boot_record (sample_chain 0) [sample_part 5 100 9000]"
    unfolding sample_chain_def by (simp, rule boot_record_sector) auto
  moreover have "filter is_extended [sample_part 5 100 9000] = [sample_part 5 100 9000]"
    by (simp add: is_extended_def layout)
  moreover have "ebr_chain sample_chain (first_LBA (sample_part 5 100 9000)) (first_LBA (sample_part 5 100 9000))
      [sample_part 0xd 1 8192]"
    by (simp add: sample_chain_def lba28_def part_sector_entries [simplified] layout)
  moreover have "sector32 (sample_chain (unat (101 :: u32) + 1)) 0 \<noteq> FINUX_MAGIC"
    by (simp add: sample_chain_def part_sector_def sector32_def nth_append layout)
  ultimately show ?thesis
    by (intro Cstart_outcomes [where L = sample_addrs and base = 101 and t = "sample_part 0xd 1 8192"
          and ts = "[sample_part 0xd 1 8192]" and d = sample_chain and st = sample_chain and ?m0.0 = "\<lambda>x. 0"
          and x = "sample_part 5 100 9000" and ps = "[sample_part 5 100 9000]", THEN conjunct1, THEN mp])
      (simp_all add: locals_apart_sample FINUX_SYSID_def)
qed

text \<open>
  C30. The loader's clock: whatever the number of interrupts, the handler returns with
  interrupts on, \<^verbatim>\<open>ticks\<close> stays between \<^verbatim>\<open>'A'\<close> and \<^verbatim>\<open>'z'\<close>, the cell shows the letters from
  \<^verbatim>\<open>'A'\<close> to \<^verbatim>\<open>'y'\<close> in a cycle of 57, and no other byte of the memory changes.
\<close>

theorem loader_ticks_invariant:
  assumes "ticks s = 65"
  shows "gives (tick_times (Suc n) dev s) (\<lambda>s'. 65 < ticks s' \<and> ticks s' \<le> 122
    \<and> ticks s' = of_nat (66 + n mod 57)
    \<and> tick_mem s' (SCREEN + 3840) = of_nat (65 + n mod 57) \<and> tick_mem s' (SCREEN + 3841) = 0xc
    \<and> (\<forall>x. x \<noteq> SCREEN + 3840 \<and> x \<noteq> SCREEN + 3841 \<longrightarrow> tick_mem s' x = tick_mem s x)
    \<and> int_flag (tick_io s'))"
proof (induction n)
  case 0
  show ?case
    by (simp add: assms, rule gives_mono [OF irq00_handler_boot_run]) (simp add: assms)
next
  case (Suc n)
  have small: "n mod 57 < 57" by simp
  then have wrap: "(of_nat (66 + n mod 57) :: u8) = 122 \<longleftrightarrow> n mod 57 = 56"
    using of_nat_inj_below [of "66 + n mod 57" 122, where 'a = 8] by auto
  have next_tick: "Suc n mod 57 = (if n mod 57 = 56 then 0 else Suc (n mod 57))"
    by (simp add: mod_Suc)
  have "unat (of_nat j :: u8) = j" if "j < 256" for j
    using that by (simp add: unsigned_of_nat take_bit_nat_eq_self)
  then have "65 < (of_nat (66 + k) :: u8) \<and> (of_nat (66 + k) :: u8) \<le> 122" if "k < 57" for k
    using that unfolding word_less_nat_alt word_le_nat_alt by (simp del: of_nat_add)
  from this [of "Suc n mod 57"] have range: "65 < (of_nat (66 + Suc n mod 57) :: u8)" "(of_nat (66 + Suc n mod 57) :: u8) \<le> 122"
    by simp_all
  show ?case
    unfolding tick_times.simps(2) [of "Suc n"]
  proof (rule gives_bind [OF Suc.IH], rule gives_mono [OF irq00_handler_boot_run])
    fix a s'
    assume a: "65 < ticks a \<and> ticks a \<le> 122 \<and> ticks a = of_nat (66 + n mod 57)
      \<and> tick_mem a (SCREEN + 3840) = of_nat (65 + n mod 57) \<and> tick_mem a (SCREEN + 3841) = 0xc
      \<and> (\<forall>x. x \<noteq> SCREEN + 3840 \<and> x \<noteq> SCREEN + 3841 \<longrightarrow> tick_mem a x = tick_mem s x) \<and> int_flag (tick_io a)"
      and s': "ticks s' = (if ticks a = 122 then 66 else ticks a + 1)
      \<and> tick_mem s' = (tick_mem a)(SCREEN + 3840 := (if ticks a = 122 then 65 else ticks a), SCREEN + 3841 := 0xc)
      \<and> int_flag (tick_io s')"
    have ta: "ticks a = of_nat (66 + n mod 57)" "ticks a = 122 \<longleftrightarrow> n mod 57 = 56"
      using a wrap by simp_all
    have "ticks s' = of_nat (66 + Suc n mod 57)" "tick_mem s' (SCREEN + 3840) = of_nat (65 + Suc n mod 57)"
      using s' ta next_tick by simp_all
    then show "65 < ticks s' \<and> ticks s' \<le> 122 \<and> ticks s' = of_nat (66 + Suc n mod 57)
      \<and> tick_mem s' (SCREEN + 3840) = of_nat (65 + Suc n mod 57) \<and> tick_mem s' (SCREEN + 3841) = 0xc
      \<and> (\<forall>x. x \<noteq> SCREEN + 3840 \<and> x \<noteq> SCREEN + 3841 \<longrightarrow> tick_mem s' x = tick_mem s x) \<and> int_flag (tick_io s')"
      using range a s' by simp
  qed
qed

theorem loader_ticks_invariant_witness:
  "gives (tick_times 58 (\<lambda>h p. 0) \<lparr>ticks = 65, tick_mem = (\<lambda>x. 0), tick_io = \<lparr>history = [], int_flag = True\<rparr>\<rparr>)
     (\<lambda>s. ticks s = 66)"
  using loader_ticks_invariant [of "\<lparr>ticks = 65, tick_mem = (\<lambda>x. 0), tick_io = \<lparr>history = [], int_flag = True\<rparr>\<rparr>"
      57 "\<lambda>h p. 0"]
  by (auto elim!: gives_mono simp del: tick_times.simps)

end
