(* ===== verification/Cpu.thy ===== *)
theory Cpu
  imports Sched Pic Display
begin

text \<open>
  The processor as far as the kernel's assembly uses it (\<^verbatim>\<open>interrupt.S\<close>, \<^verbatim>\<open>sys_entry.S\<close>,
  \<^verbatim>\<open>switch.S\<close>): the registers, the stack instructions, the entry through an interrupt gate and
  the far return. \<^verbatim>\<open>struct registers\<close> of \<^verbatim>\<open>src/kernel/thread/init.h\<close> is the frame they push
  and pop. The instructions are those of the processor's manual; the functions of the kernel's
  assembly files are in \<^verbatim>\<open>Entry\<close>.
\<close>

section \<open>Registers and machine\<close>

record regs =
  EAX :: u32
  EBX :: u32
  ECX :: u32
  EDX :: u32
  ESI :: u32
  EDI :: u32
  EBP :: u32
  ESP :: u32
  EIP :: u32
  CS :: u16
  DS :: u16
  ES :: u16
  FS :: u16
  GS :: u16

text \<open>The interrupt flag is part of the port state of \<^verbatim>\<open>Pic\<close>, the other flags are \<^verbatim>\<open>eflags\<close>.\<close>

record machine =
  core :: regs
  eflags :: u32
  ram :: bmem
  sc :: sched
  wires :: io

definition IF_BIT :: nat where [layout]: "IF_BIT = 9"

definition flags_word :: "machine \<Rightarrow> u32" where
  "flags_word w = (if int_flag (wires w) then set_bit IF_BIT (eflags w) else unset_bit IF_BIT (eflags w))"

definition set_flags :: "u32 \<Rightarrow> machine \<Rightarrow> machine" where
  "set_flags v w = w\<lparr>eflags := v, wires := (wires w)\<lparr>int_flag := bit v IF_BIT\<rparr>\<rparr>"

section \<open>Instructions\<close>

definition pushl :: "u32 \<Rightarrow> machine \<Rightarrow> machine" where
  "pushl v w = (let sp = ESP (core w) - 4
     in w\<lparr>core := (core w)\<lparr>ESP := sp\<rparr>, ram := store32 (ram w) sp v\<rparr>)"

definition stack_top :: "machine \<Rightarrow> u32" where
  "stack_top w = load32 (ram w) (ESP (core w))"

definition drop_top :: "machine \<Rightarrow> machine" where
  "drop_top w = w\<lparr>core := (core w)\<lparr>ESP := ESP (core w) + 4\<rparr>\<rparr>"

definition popl :: "(u32 \<Rightarrow> regs \<Rightarrow> regs) \<Rightarrow> machine \<Rightarrow> machine" where
  "popl set_reg w = (let v = stack_top w; w = drop_top w in w\<lparr>core := set_reg v (core w)\<rparr>)"

definition pushal :: "machine \<Rightarrow> machine" where
  "pushal w =
     (let r = core w in
      pushl (EDI r) (pushl (ESI r) (pushl (EBP r) (pushl (ESP r)
        (pushl (EBX r) (pushl (EDX r) (pushl (ECX r) (pushl (EAX r) w))))))))"

text \<open>The word of the stack pointer is skipped.\<close>

definition popal :: "machine \<Rightarrow> machine" where
  "popal w =
     (let w = popl (\<lambda>v r. r\<lparr>EDI := v\<rparr>) w;
          w = popl (\<lambda>v r. r\<lparr>ESI := v\<rparr>) w;
          w = popl (\<lambda>v r. r\<lparr>EBP := v\<rparr>) w;
          w = drop_top w;
          w = popl (\<lambda>v r. r\<lparr>EBX := v\<rparr>) w;
          w = popl (\<lambda>v r. r\<lparr>EDX := v\<rparr>) w;
          w = popl (\<lambda>v r. r\<lparr>ECX := v\<rparr>) w
      in popl (\<lambda>v r. r\<lparr>EAX := v\<rparr>) w)"

definition lret :: "machine \<Rightarrow> machine" where
  "lret w = popl (\<lambda>v r. r\<lparr>CS := ucast v\<rparr>) (popl (\<lambda>v r. r\<lparr>EIP := v\<rparr>) w)"

definition popf :: "machine \<Rightarrow> machine" where
  "popf w = set_flags (stack_top w) (drop_top w)"

text \<open>
  Entry through an interrupt gate of the kernel's segment from kernel code: flags, code segment
  and instruction pointer are pushed and interrupts are off.
\<close>

definition enter_gate :: "u16 \<Rightarrow> u32 \<Rightarrow> machine \<Rightarrow> machine" where
  "enter_gate sel entry w =
     (let r = core w;
          w = pushl (EIP r) (pushl (ucast (CS r)) (pushl (flags_word w) w))
      in w\<lparr>core := (core w)\<lparr>CS := sel, EIP := entry\<rparr>, wires := cli (wires w)\<rparr>)"

text \<open>
  A call of a compiled function. The compiler decides what the call leaves below the stack
  pointer (return address, arguments, local variables) and in the flags: parameters. \<^verbatim>\<open>f\<close> is
  the function's effect. The scratch registers it may change are all reloaded by the callers.
\<close>

record compiled =
  below :: "u32 \<Rightarrow> bmem \<Rightarrow> bmem"
  flags_after :: "u32 \<Rightarrow> u32"

definition call_c :: "compiled \<Rightarrow> (machine \<Rightarrow> machine) \<Rightarrow> machine \<Rightarrow> machine" where
  "call_c cc f w =
     (let w = f w
      in w\<lparr>ram := below cc (ESP (core w)) (ram w), eflags := flags_after cc (eflags w)\<rparr>)"

text \<open>A call writes at most \<^verbatim>\<open>n\<close> bytes, all below the stack pointer.\<close>

definition frames_within :: "nat \<Rightarrow> compiled \<Rightarrow> bool" where
  "frames_within n cc \<longleftrightarrow> (\<forall>sp m x. n \<le> unat (sp - 1 - x) \<longrightarrow> below cc sp m x = m x)"

lemma apart_plus_left [simp]: "apart n (x + a) (y + a) \<longleftrightarrow> n \<le> y - x \<and> n \<le> x - y"
  by (simp add: apart_def)

lemma apart_minus [simp]:
  "apart n (a - x) (a - y) \<longleftrightarrow> n \<le> x - y \<and> n \<le> y - x"
  "apart n (a - x) a \<longleftrightarrow> n \<le> x \<and> n \<le> - x"
  "apart n a (a - y) \<longleftrightarrow> n \<le> - y \<and> n \<le> y"
  by (simp_all add: apart_def)

section \<open>The register frame\<close>

text \<open>The sequence \<^verbatim>\<open>pushal; pushl ds, es, fs, gs\<close> and its inverse, which every entry point has.\<close>

definition save_all :: "machine \<Rightarrow> machine" where
  "save_all w =
     (let w = pushal w;
          w = pushl (ucast (DS (core w))) w;
          w = pushl (ucast (ES (core w))) w;
          w = pushl (ucast (FS (core w))) w
      in pushl (ucast (GS (core w))) w)"

definition restore_all :: "machine \<Rightarrow> machine" where
  "restore_all w =
     (let w = popl (\<lambda>v r. r\<lparr>GS := ucast v\<rparr>) w;
          w = popl (\<lambda>v r. r\<lparr>FS := ucast v\<rparr>) w;
          w = popl (\<lambda>v r. r\<lparr>ES := ucast v\<rparr>) w;
          w = popl (\<lambda>v r. r\<lparr>DS := ucast v\<rparr>) w
      in popal w)"

text \<open>The registers a frame at \<^verbatim>\<open>sp\<close> stands for: what \<^verbatim>\<open>restore_all; lret\<close> leaves.\<close>

definition frame_regs :: "bmem \<Rightarrow> u32 \<Rightarrow> regs" where
  "frame_regs m sp =
     \<lparr>EAX = load32 m (sp + 44), EBX = load32 m (sp + 32), ECX = load32 m (sp + 40),
      EDX = load32 m (sp + 36), ESI = load32 m (sp + 20), EDI = load32 m (sp + 16),
      EBP = load32 m (sp + 24), ESP = sp + 56, EIP = load32 m (sp + 48),
      CS = ucast (load32 m (sp + 52)), DS = ucast (load32 m (sp + 12)), ES = ucast (load32 m (sp + 8)),
      FS = ucast (load32 m (sp + 4)), GS = ucast (load32 m sp)\<rparr>"

lemma ESP_frame_regs [simp]: "ESP (frame_regs m sp) = sp + 56"
  by (simp add: frame_regs_def)

lemma lret_restore_all:
  "lret (restore_all w) = w\<lparr>core := frame_regs (ram w) (ESP (core w))\<rparr>"
  by (cases "core w")
    (simp add: lret_def restore_all_def popal_def popl_def stack_top_def drop_top_def frame_regs_def Let_def add_ac)

lemma restore_all_eq:
  "restore_all w = w\<lparr>core := (frame_regs (ram w) (ESP (core w)))
     \<lparr>ESP := ESP (core w) + 48, EIP := EIP (core w), CS := CS (core w)\<rparr>\<rparr>"
  by (cases "core w")
    (simp add: restore_all_def popal_def popl_def stack_top_def drop_top_def frame_regs_def Let_def add_ac)

lemma restore_all_wires [simp]: "wires (restore_all w) = wires w"
  by (simp add: restore_all_eq)

lemma lret_wires [simp]: "lret (w\<lparr>wires := x\<rparr>) = (lret w)\<lparr>wires := x\<rparr>"
  by (simp add: lret_def popl_def drop_top_def stack_top_def Let_def)

lemma ucast_u16_u32 [simp]: "ucast (ucast (x :: u16) :: u32) = x"
  by (rule bit_word_eqI) (auto simp: bit_simps)

text \<open>The stores of a frame, from the top of the stack down.\<close>

definition store_frame :: "bmem \<Rightarrow> u32 \<Rightarrow> regs \<Rightarrow> bmem" where
  "store_frame m sp r = store32 (store32 (store32 (store32 (store32 (store32 (store32 (store32
     (store32 (store32 (store32 (store32 m (sp + 44) (EAX r)) (sp + 40) (ECX r)) (sp + 36) (EDX r))
     (sp + 32) (EBX r)) (sp + 28) (ESP r)) (sp + 24) (EBP r)) (sp + 20) (ESI r)) (sp + 16) (EDI r))
     (sp + 12) (ucast (DS r))) (sp + 8) (ucast (ES r))) (sp + 4) (ucast (FS r))) sp (ucast (GS r))"

lemma store_frame_ignores [simp]:
  "store_frame m sp (r\<lparr>CS := s\<rparr>) = store_frame m sp r"
  "store_frame m sp (r\<lparr>EIP := v\<rparr>) = store_frame m sp r"
  by (simp_all add: store_frame_def)

lemma save_all_eq:
  "save_all w = w\<lparr>core := (core w)\<lparr>ESP := ESP (core w) - 48\<rparr>,
     ram := store_frame (ram w) (ESP (core w) - 48) (core w)\<rparr>"
  by (simp add: save_all_def pushal_def pushl_def store_frame_def Let_def)

lemma frame_regs_store_frame:
  "frame_regs (store_frame m sp r) sp =
     r\<lparr>ESP := sp + 56, EIP := load32 m (sp + 48), CS := ucast (load32 m (sp + 52))\<rparr>"
  by (simp add: frame_regs_def store_frame_def)

section \<open>Regions of memory\<close>

definition fits :: "u32 set \<Rightarrow> u32 \<Rightarrow> nat \<Rightarrow> bool" where
  "fits A a n \<longleftrightarrow> (\<forall>i<n. a + of_nat i \<in> A)"

definition word_at :: "u32 \<Rightarrow> u32 set" where
  "word_at a = {a, a + 1, a + 2, a + 3}"

lemma fits_part:
  assumes "fits A a n" and "i + k \<le> n"
  shows "fits A (a + of_nat i) k"
  unfolding fits_def
proof (intro allI impI)
  fix j assume "j < k"
  then have "i + j < n"
    using assms(2) by simp
  then have "a + of_nat (i + j) \<in> A"
    using assms(1) unfolding fits_def by blast
  then show "a + of_nat i + of_nat j \<in> A"
    by (simp add: add.assoc)
qed

lemma fits_word: "fits A a 4 \<longleftrightarrow> word_at a \<subseteq> A"
  by (auto simp: fits_def word_at_def less_Suc_eq numeral_eq_Suc)

lemma store32_outside: "x \<notin> word_at a \<Longrightarrow> store32 m a v x = m x"
  by (simp add: store32_def word_at_def)

lemma load32_word_at: "(\<And>x. x \<in> word_at a \<Longrightarrow> m' x = m x) \<Longrightarrow> load32 m' a = load32 m a"
  by (simp add: load32_def word_at_def)

lemma load32_fits:
  assumes "fits A a n" and "i + 4 \<le> n" and "\<And>x. x \<in> A \<Longrightarrow> m' x = m x"
  shows "load32 m' (a + of_nat i) = load32 m (a + of_nat i)"
  by (rule load32_word_at) (use fits_part [OF assms(1,2)] assms(3) in \<open>auto simp: fits_word\<close>)

lemma frame_regs_cong:
  assumes "fits A sp 56" and "\<And>x. x \<in> A \<Longrightarrow> m' x = m x"
  shows "frame_regs m' sp = frame_regs m sp"
proof -
  have l: "load32 m' (sp + k) = load32 m (sp + k)" if "unat k \<le> 52" for k
    using load32_fits [OF assms(1), of "unat k" m' m] assms(2) that by simp
  then show ?thesis
    using l [of 0] by (simp add: frame_regs_def)
qed

text \<open>The bytes of a span, and what a compiled call keeps: the span above, and all but a region below.\<close>

definition span :: "u32 \<Rightarrow> nat \<Rightarrow> u32 set" where
  "span a n = {x. unat (x - a) < n}"

lemma fits_span: "n \<le> 4294967296 \<Longrightarrow> fits (span a n) a n"
  by (simp add: fits_def span_def)

lemma fits_span_subset: "fits A a n \<Longrightarrow> span a n \<subseteq> A"
proof
  fix x assume "fits A a n" "x \<in> span a n"
  then have "a + of_nat (unat (x - a)) \<in> A"
    unfolding fits_def span_def by blast
  then show "x \<in> A" by simp
qed

lemma below_outside:
  assumes "frames_within n cc" and "fits A (sp - of_nat n) n" and "x \<notin> A"
  shows "below cc sp m x = m x"
proof -
  define d where "d = unat (sp - 1 - x)"
  have "x = sp - 1 - of_nat d"
    by (simp add: d_def)
  moreover have "sp - of_nat n + of_nat (n - 1 - d) = sp - 1 - of_nat d" if "d < n"
    using that by (simp add: of_nat_diff algebra_simps)
  ultimately have "n \<le> d"
    using assms(2,3) unfolding fits_def by (metis diff_less le_less_trans less_one linorder_not_le not_gr_zero diff_less_Suc Suc_diff_1 gr_implies_not0)
  with assms(1) show ?thesis
    by (simp add: frames_within_def d_def)
qed

lemma below_span:
  assumes "frames_within n cc" and "n + k \<le> 4294967296" and "x \<in> span sp k"
  shows "below cc sp m x = m x"
proof -
  have i: "unat (x - sp) < k"
    using assms(3) by (simp add: span_def)
  have eq: "sp - 1 - x = - 1 - (x - sp)"
    by simp
  have "unat (x - sp) \<le> 4294967295"
    using unat_u32_bound [of "x - sp"] by linarith
  then have "unat (sp - 1 - x) = 4294967295 - unat (x - sp)"
    unfolding eq by (subst unat_sub) (simp_all add: word_le_nat_alt unsigned_minus_1_eq_mask mask_eq_exp_minus_1)
  then show ?thesis
    using assms(1,2) i by (simp add: frames_within_def)
qed

end
