(* ===== verification/PageAlloc.thy ===== *)
theory PageAlloc
  imports Mm
begin

text \<open>
  The page allocator of \<^verbatim>\<open>src/kernel/mm/page.c\<close> (lines 1 to 95): the page bitmap at 5 MB,
  its initialisation from the E820 map, \<^verbatim>\<open>get_pages\<close> and \<^verbatim>\<open>free_pages\<close>. The bitmap is
  part of the byte memory. Loop counters that stay below 8 or below the bitmap size are
  natural numbers; everything stored or returned is a machine word.
\<close>

section \<open>Constants and state\<close>

definition PAGE_SIZE :: u32 where [layout]: "PAGE_SIZE = 0x1000"
definition page_bit_map :: u32 where [layout]: "page_bit_map = 0x500000"

record page_state =
  mem :: bmem
  page_cnt :: u32
  page_bit_map_cnt :: u32

section \<open>init\_page\_bit\_map\<close>

function max_lenth :: "mm_info \<Rightarrow> nat \<Rightarrow> u32 \<Rightarrow> u32 outcome" where
  "max_lenth g i lenth =
     (if i < unat (memory_map_cnt (kernel_info g))
      then bind_outcome (memory_map_at g i) (\<lambda>e.
        max_lenth g (Suc i) (if e820_type e = 1 \<and> lenth < lenthlow e then lenthlow e else lenth))
      else Inr lenth)"
  by pat_completeness auto
termination
  by (relation "measure (\<lambda>(g, i, l). unat (memory_map_cnt (kernel_info g)) - i)") auto

declare max_lenth.simps [simp del]

primrec clear_bytes :: "nat \<Rightarrow> u32 \<Rightarrow> bmem \<Rightarrow> bmem" where
  "clear_bytes 0 bit_map m = m"
| "clear_bytes (Suc n) bit_map m = clear_bytes n (bit_map + 1) (m(bit_map := 0))"

definition init_page_bit_map :: "mm_info \<Rightarrow> page_state \<Rightarrow> page_state outcome" where
  "init_page_bit_map g s =
     bind_outcome (max_lenth g 0 0) (\<lambda>lenth.
       let lenth = lenth - page_bit_map;
           cnt = (lenth + PAGE_SIZE - 1) div PAGE_SIZE;
           map_cnt = (cnt + 8 - 1) div 8;
           m = clear_bytes (unat map_cnt) page_bit_map (mem s);
           m = m(page_bit_map := push_bit 7 1)
       in Inr (s\<lparr>mem := m, page_cnt := cnt, page_bit_map_cnt := map_cnt\<rparr>))"

section \<open>get\_pages\<close>

primrec select_ones :: "nat \<Rightarrow> u8" where
  "select_ones 0 = 0"
| "select_ones (Suc n) = push_bit 1 (select_ones n) OR 1"

text \<open>
  The inner loop over \<^verbatim>\<open>bytein\<close>: it ends with \<^verbatim>\<open>Inl\<close> of the position and the mask that
  hit clear bits, or with \<^verbatim>\<open>Inr\<close> of the mask as the loop leaves it (it is not reset).
\<close>

function scan_byte :: "u8 \<Rightarrow> nat \<Rightarrow> u8 \<Rightarrow> nat \<Rightarrow> (nat \<times> u8) + u8" where
  "scan_byte b n select bytein =
     (if bytein + n < 8
      then if b AND select = 0 then Inl (bytein, select)
           else scan_byte b n (push_bit 1 select) (Suc bytein)
      else Inr select)"
  by pat_completeness auto
termination
  by (relation "measure (\<lambda>(b, n, s, j). 8 - j)") auto

declare scan_byte.simps [simp del]

text \<open>The outer loop over \<^verbatim>\<open>i\<close>: \<^verbatim>\<open>tmp_map\<close> is not advanced, so every round reads byte 0.\<close>

function scan_map :: "page_state \<Rightarrow> nat \<Rightarrow> u8 \<Rightarrow> nat \<Rightarrow> (nat \<times> nat \<times> u8) option" where
  "scan_map s n select i =
     (if i < unat (page_bit_map_cnt s)
      then case scan_byte (mem s page_bit_map) n select 0 of
             Inl (bytein, sel) \<Rightarrow> Some (i, bytein, sel)
           | Inr sel \<Rightarrow> scan_map s n sel (Suc i)
      else None)"
  by pat_completeness auto
termination
  by (relation "measure (\<lambda>(s, n, sel, i). unat (page_bit_map_cnt s) - i)") auto

declare scan_map.simps [simp del]

definition get_pages :: "page_state \<Rightarrow> u32 \<Rightarrow> (u32 \<times> page_state) outcome" where
  "get_pages s n =
     (if 8 < n then Inl (Panic ''In the get_pages func: page_cnt > 8.'')
      else case scan_map s (unat n) (select_ones (unat n)) 0 of
        Some (i, bytein, sel) \<Rightarrow>
          Inr (page_bit_map + (of_nat i * 8 + (8 - of_nat bytein - n)) * PAGE_SIZE,
               s\<lparr>mem := (mem s)(page_bit_map := mem s page_bit_map OR sel)\<rparr>)
      | None \<Rightarrow> Inr (0, s))"

section \<open>free\_pages\<close>

text \<open>
  The difference of the two pointers is a signed \<^verbatim>\<open>int\<close>: the right shift keeps the sign and
  the division and remainder round towards zero. The count of the left shift is unsigned.
\<close>

definition free_pages :: "page_state \<Rightarrow> u32 \<Rightarrow> u32 \<Rightarrow> page_state" where
  "free_pages s address n =
     (let page = sint (signed_drop_bit 12 (address - page_bit_map));
          select = select_ones (unat n);
          offset = word_of_int (c_quot page 0x1000) :: u32;
          count = word_of_int (8 - c_rem page 8) - n;
          select = ucast (NOT (shl32 (ucast select) count)) :: u8;
          tmp_map = page_bit_map + offset
      in s\<lparr>mem := (mem s)(tmp_map := mem s tmp_map AND select)\<rparr>)"

section \<open>The scan, in closed form\<close>

text \<open>
  After \<^verbatim>\<open>t\<close> shifts in total the mask is \<^verbatim>\<open>push_bit t (select_ones n)\<close>; it hits when it
  meets clear bits only (or has been shifted out).
\<close>

definition hits :: "u8 \<Rightarrow> nat \<Rightarrow> nat \<Rightarrow> bool" where
  "hits b n t \<longleftrightarrow> b AND push_bit t (select_ones n) = 0"

lemma bit_select_ones: "bit (select_ones n) k \<longleftrightarrow> k < n \<and> k < 8"
proof (induction n arbitrary: k)
  case 0
  then show ?case by simp
next
  case (Suc n)
  have "bit (select_ones (Suc n)) k \<longleftrightarrow> (1 \<le> k \<and> k < 8 \<and> bit (select_ones n) (k - 1)) \<or> k = 0"
    by (simp only: select_ones.simps bit_or_iff bit_push_bit_iff bit_1_iff) auto
  then show ?case
    by (simp only: Suc.IH) auto
qed

lemma bit_shifted_ones:
  "bit (push_bit t (select_ones n)) k \<longleftrightarrow> t \<le> k \<and> k < t + n \<and> k < 8"
  by (simp only: bit_push_bit_iff bit_select_ones) auto

lemma and_zero_iff: "(b :: u8) AND m = 0 \<longleftrightarrow> (\<forall>k. bit m k \<longrightarrow> \<not> bit b k)"
proof -
  have "k < 8" if "bit b k" for k
    using bit_imp_le_length [OF that] by simp
  then show ?thesis
    by (auto simp: bit_eq_iff bit_and_iff)
qed

lemma hits_iff: "hits b n t \<longleftrightarrow> (\<forall>k. t \<le> k \<and> k < t + n \<and> k < 8 \<longrightarrow> \<not> bit b k)"
  by (auto simp: hits_def and_zero_iff bit_shifted_ones)

lemma scan_byte_hit:
  assumes "\<And>e. e < d \<Longrightarrow> \<not> hits b n (t + e)" and "hits b n (t + d)" and "j + d + n < 8"
  shows "scan_byte b n (push_bit t (select_ones n)) j
    = Inl (j + d, push_bit (t + d) (select_ones n))"
  using assms
proof (induction d arbitrary: t j)
  case 0
  then show ?case
    by (subst scan_byte.simps) (simp add: hits_def)
next
  case (Suc d)
  have "\<not> hits b n t"
    using Suc.prems(1) [of 0] by simp
  then have "scan_byte b n (push_bit t (select_ones n)) j
      = scan_byte b n (push_bit (Suc t) (select_ones n)) (Suc j)"
    using Suc.prems(3) by (subst scan_byte.simps) (simp add: hits_def)
  also have "\<dots> = Inl (Suc j + d, push_bit (Suc t + d) (select_ones n))"
    using Suc.prems Suc.prems(1) [of "Suc e" for e] by (intro Suc.IH) auto
  finally show ?case by simp
qed

lemma scan_byte_miss:
  assumes "\<And>e. e < d \<Longrightarrow> \<not> hits b n (t + e)" and "j + d + n = 8"
  shows "scan_byte b n (push_bit t (select_ones n)) j = Inr (push_bit (t + d) (select_ones n))"
  using assms
proof (induction d arbitrary: t j)
  case 0
  then show ?case
    by (subst scan_byte.simps) simp
next
  case (Suc d)
  have "\<not> hits b n t"
    using Suc.prems(1) [of 0] by simp
  then have "scan_byte b n (push_bit t (select_ones n)) j
      = scan_byte b n (push_bit (Suc t) (select_ones n)) (Suc j)"
    using Suc.prems(2) by (subst scan_byte.simps) (simp add: hits_def)
  also have "\<dots> = Inr (push_bit (Suc t + d) (select_ones n))"
    using Suc.prems Suc.prems(1) [of "Suc e" for e] by (intro Suc.IH) auto
  finally show ?case by simp
qed

text \<open>
  Each round of the outer loop makes \<^verbatim>\<open>8 - n\<close> shifts of the same mask against the same byte:
  the first hit after \<^verbatim>\<open>d\<close> shifts is found in round \<^verbatim>\<open>d div (8 - n)\<close>.
\<close>

lemma scan_map_hit:
  assumes "n < 8" and "\<And>e. e < d \<Longrightarrow> \<not> hits (mem s page_bit_map) n (t + e)"
    and "hits (mem s page_bit_map) n (t + d)"
    and "i + d div (8 - n) < unat (page_bit_map_cnt s)"
  shows "scan_map s n (push_bit t (select_ones n)) i
    = Some (i + d div (8 - n), d mod (8 - n), push_bit (t + d) (select_ones n))"
  using assms
proof (induction d arbitrary: t i rule: less_induct)
  case (less d)
  show ?case
  proof (cases "d < 8 - n")
    case True
    then have "scan_byte (mem s page_bit_map) n (push_bit t (select_ones n)) 0
        = Inl (d, push_bit (t + d) (select_ones n))"
      using scan_byte_hit [of d "mem s page_bit_map" n t 0] less.prems by simp
    then show ?thesis
      using True less.prems by (subst scan_map.simps) simp
  next
    case False
    let ?w = "8 - n"
    have "scan_byte (mem s page_bit_map) n (push_bit t (select_ones n)) 0
        = Inr (push_bit (t + ?w) (select_ones n))"
      using scan_byte_miss [of ?w "mem s page_bit_map" n t 0] less.prems False by simp
    then have "scan_map s n (push_bit t (select_ones n)) i
        = scan_map s n (push_bit (t + ?w) (select_ones n)) (Suc i)"
      using less.prems(4) by (subst scan_map.simps) simp
    also have "\<dots> = Some (Suc i + (d - ?w) div ?w, (d - ?w) mod ?w,
        push_bit (t + ?w + (d - ?w)) (select_ones n))"
    proof (rule less.IH)
      show "d - ?w < d" using False less.prems(1) by simp
      show "\<not> hits (mem s page_bit_map) n (t + ?w + e)" if "e < d - ?w" for e
        using less.prems(2) [of "?w + e"] that False by (simp add: add.assoc)
      show "hits (mem s page_bit_map) n (t + ?w + (d - ?w))"
        using less.prems(3) False by simp
      show "Suc i + (d - ?w) div ?w < unat (page_bit_map_cnt s)"
        using less.prems(1,4) False by (simp add: le_div_geq)
    qed (fact less.prems(1))
    finally show ?thesis
      using False less.prems(1) by (simp add: le_div_geq le_mod_geq)
  qed
qed

lemma get_pages_hit:
  assumes "n < 8" and "\<And>e. e < d \<Longrightarrow> \<not> hits (mem s page_bit_map) n e"
    and "hits (mem s page_bit_map) n d" and "d div (8 - n) < unat (page_bit_map_cnt s)"
  shows "get_pages s (of_nat n) =
    Inr (page_bit_map + (of_nat (d div (8 - n)) * 8 + (8 - of_nat (d mod (8 - n)) - of_nat n)) * PAGE_SIZE,
      s\<lparr>mem := (mem s)(page_bit_map := mem s page_bit_map OR push_bit d (select_ones n))\<rparr>)"
proof -
  have "\<not> (8 :: u32) < of_nat n"
    using assms(1) by (simp add: word_less_nat_alt)
  then show ?thesis
    using scan_map_hit [of n d s 0 0] assms by (simp add: get_pages_def)
qed

section \<open>The allocator seen as a set of reserved pages\<close>

text \<open>
  Page \<^verbatim>\<open>p\<close> of the eight that byte 0 of the bitmap describes is reserved when bit
  \<^verbatim>\<open>7 - p\<close> is set. The code's search leaves out the run that would start at page 0.
\<close>

definition page_addr :: "nat \<Rightarrow> u32" where
  "page_addr p = page_bit_map + of_nat p * PAGE_SIZE"

definition reserved :: "page_state \<Rightarrow> nat set" where
  "reserved s = {p. p < 8 \<and> bit (mem s page_bit_map) (7 - p)}"

definition has_room :: "page_state \<Rightarrow> nat \<Rightarrow> bool" where
  "has_room s n \<longleftrightarrow> page_bit_map_cnt s \<noteq> 0 \<and> n < 8 \<and>
     (\<exists>j < 8 - n. hits (mem s page_bit_map) n j)"

definition first_hit :: "page_state \<Rightarrow> nat \<Rightarrow> nat" where
  "first_hit s n = (LEAST j. hits (mem s page_bit_map) n j)"

lemma first_hit:
  assumes "has_room s n"
  shows "hits (mem s page_bit_map) n (first_hit s n)" and "first_hit s n < 8 - n"
    and "\<And>e. e < first_hit s n \<Longrightarrow> \<not> hits (mem s page_bit_map) n e"
proof -
  obtain j where j: "j < 8 - n" "hits (mem s page_bit_map) n j"
    using assms by (auto simp: has_room_def)
  show "hits (mem s page_bit_map) n (first_hit s n)"
    unfolding first_hit_def by (rule LeastI) (rule j(2))
  have "first_hit s n \<le> j"
    unfolding first_hit_def by (rule Least_le) (rule j(2))
  with j(1) show "first_hit s n < 8 - n" by simp
  show "\<not> hits (mem s page_bit_map) n e" if "e < first_hit s n" for e
    using that unfolding first_hit_def by (rule not_less_Least)
qed

lemma get_pages_room:
  assumes "has_room s n"
  shows "get_pages s (of_nat n) = Inr (page_addr (8 - first_hit s n - n),
    s\<lparr>mem := (mem s)(page_bit_map := mem s page_bit_map OR push_bit (first_hit s n) (select_ones n))\<rparr>)"
proof -
  let ?j = "first_hit s n"
  have n: "n < 8" and cnt: "0 < unat (page_bit_map_cnt s)"
    using assms by (auto simp: has_room_def unat_gt_0)
  have "?j + n \<le> 8"
    using first_hit(2) [OF assms] by simp
  then have "(8 :: u32) - of_nat ?j - of_nat n = of_nat (8 - ?j - n)"
    by (simp add: of_nat_diff)
  then show ?thesis
    using get_pages_hit [OF n first_hit(3,1) [OF assms]] first_hit(2) [OF assms] cnt
    by (simp add: page_addr_def algebra_simps)
qed

lemma reserved_or:
  assumes "j + n \<le> 8"
  shows "reserved (s\<lparr>mem := (mem s)(page_bit_map := mem s page_bit_map OR push_bit j (select_ones n))\<rparr>)
    = reserved s \<union> {8 - j - n..<8 - j}"
  using assms by (auto simp: reserved_def bit_or_iff bit_shifted_ones)

lemma reserved_andnot:
  assumes "j + n \<le> 8"
  shows "reserved (s\<lparr>mem := (mem s)(page_bit_map := mem s page_bit_map AND NOT (push_bit j (select_ones n)))\<rparr>)
    = reserved s - {8 - j - n..<8 - j}"
  using assms by (auto simp: reserved_def bit_and_iff bit_not_iff bit_shifted_ones)

lemma hits_reserved:
  assumes "hits (mem s page_bit_map) n j" and "j + n \<le> 8"
  shows "{8 - j - n..<8 - j} \<inter> reserved s = {}"
proof -
  have "\<not> bit (mem s page_bit_map) (7 - p)" if "8 - j - n \<le> p" "p < 8 - j" for p
  proof -
    have "j \<le> 7 - p \<and> 7 - p < j + n \<and> 7 - p < 8"
      using that assms(2) by linarith
    with assms(1) show ?thesis
      unfolding hits_iff by blast
  qed
  then show ?thesis
    by (auto simp: reserved_def)
qed

text \<open>The page number the code recovers from an address above the bitmap.\<close>

lemma page_of_page_addr:
  assumes "p < 524288"
  shows "sint (signed_drop_bit 12 (page_addr p - page_bit_map)) = int p"
proof -
  have "of_nat p * PAGE_SIZE = of_nat (p * 4096)"
    by (simp add: layout)
  moreover have "sint (of_nat (p * 4096) :: u32) = int (p * 4096)"
    by (rule sint_of_nat_u32) (use assms in simp)
  ultimately have "sint (of_nat p * PAGE_SIZE) = int p * 4096"
    by simp
  then show ?thesis
    by (simp add: page_addr_def sint_signed_drop_bit_eq drop_bit_eq_div)
qed

lemma free_pages_page_addr:
  assumes "p < 4096" and "p mod 8 + n \<le> 8"
  shows "free_pages s (page_addr p) (of_nat n) =
    s\<lparr>mem := (mem s)(page_bit_map :=
      mem s page_bit_map AND NOT (push_bit (8 - p mod 8 - n) (select_ones n)))\<rparr>"
proof -
  define k where "k = 8 - p mod 8 - n"
  have page: "sint (signed_drop_bit 12 (page_addr p - page_bit_map)) = int p"
    using assms(1) by (simp add: page_of_page_addr)
  have rem: "c_rem (int p) 8 = int (p mod 8)" and quot: "c_quot (int p) 0x1000 = 0"
    using assms(1) by (simp_all add: c_rem_nonneg c_quot_nonneg zmod_int)
  obtain q where q: "q = p mod 8" by simp
  have "8 - int q = int (8 - q)" and "8 - q = k + n"
    using assms(2) q by (simp_all add: k_def)
  then have count: "word_of_int (8 - c_rem (int p) 8) - of_nat n = (of_nat k :: u32)"
    by (simp add: rem flip: q)
  have "k < 32"
    by (simp add: k_def)
  then have "unat ((of_nat k :: u32) AND 31) = k"
    using unat_and_mask [of "of_nat k :: u32" 5] by (simp add: mask_numeral)
  moreover have "ucast (NOT (push_bit k (ucast (select_ones n)) :: u32))
      = NOT (push_bit k (select_ones n) :: u8)"
    by (rule bit_word_eqI) (auto simp: bit_simps bit_unsigned_iff)
  moreover have "unat (of_nat n :: u32) = n"
    using assms(2) by simp
  ultimately show ?thesis
    unfolding free_pages_def Let_def page quot shl32_def count k_def [symmetric]
    by simp
qed

section \<open>Initialisation\<close>

definition longer_ram :: "u32 \<Rightarrow> e820_ARDS \<Rightarrow> u32" where
  "longer_ram l e = (if e820_type e = 1 \<and> l < lenthlow e then lenthlow e else l)"

lemma max_lenth_within:
  assumes "unat (memory_map_cnt (kernel_info g)) \<le> length (memory_map g)"
  shows "max_lenth g i l =
    Inr (foldl longer_ram l (drop i (take (unat (memory_map_cnt (kernel_info g))) (memory_map g))))"
    (is "_ = Inr (foldl _ l (drop i ?es))")
proof (induction "unat (memory_map_cnt (kernel_info g)) - i" arbitrary: i l)
  case 0
  then show ?case
    by (subst max_lenth.simps) simp
next
  case (Suc d)
  then have i: "i < length ?es" "i < length (memory_map g)"
    using assms by simp_all
  have "drop i ?es = memory_map g ! i # drop (Suc i) ?es"
    using Cons_nth_drop_Suc [OF i(1)] i(1) by simp
  moreover have "max_lenth g i l = max_lenth g (Suc i) (longer_ram l (memory_map g ! i))"
    using i by (subst max_lenth.simps) (simp add: memory_map_at_def longer_ram_def)
  ultimately show ?case
    using Suc.hyps by simp
qed

lemma max_lenth_beyond:
  assumes "length (memory_map g) < unat (memory_map_cnt (kernel_info g))" and "i \<le> length (memory_map g)"
  shows "max_lenth g i l = Inl Out_Of_Bounds"
  using assms
proof (induction "length (memory_map g) - i" arbitrary: i l)
  case 0
  then show ?case
    by (subst max_lenth.simps) (simp add: memory_map_at_def)
next
  case (Suc d)
  then have "i < length (memory_map g)" by simp
  with Suc show ?case
    by (subst max_lenth.simps) (simp add: memory_map_at_def)
qed

lemma clear_bytes_apply:
  "n \<le> 4294967296 \<Longrightarrow> clear_bytes n p m x = (if unat (x - p) < n then 0 else m x)"
proof (induction n arbitrary: p m)
  case 0
  then show ?case by simp
next
  case (Suc n)
  show ?case
  proof (cases "x = p")
    case True
    then show ?thesis
      using Suc by (simp add: unat_minus_self_one)
  next
    case False
    then have "0 < unat (x - p)"
      by (simp add: unat_gt_0)
    with False Suc show ?thesis
      by (auto simp: unat_diff_Suc)
  qed
qed

section \<open>The interface of the allocator\<close>

text \<open>
  What thread creation may rely on: while there is room, an allocation returns a run of pages
  none of which was reserved, and reserves exactly that run; freeing a run releases exactly it.
\<close>

locale page_allocator =
  fixes alloc :: "'s \<Rightarrow> u32 \<Rightarrow> (u32 \<times> 's) outcome"
    and release :: "'s \<Rightarrow> u32 \<Rightarrow> u32 \<Rightarrow> 's"
    and taken :: "'s \<Rightarrow> nat set"
    and room :: "'s \<Rightarrow> nat \<Rightarrow> bool"
    and address_of :: "nat \<Rightarrow> u32"
    and pages :: nat
  assumes pa_alloc: "room s n \<Longrightarrow> \<exists>f s'. alloc s (of_nat n) = Inr (address_of f, s') \<and>
      f + n \<le> pages \<and> {f..<f + n} \<inter> taken s = {} \<and> taken s' = taken s \<union> {f..<f + n}"
    and pa_release: "f + n \<le> pages \<Longrightarrow>
      taken (release s (address_of f) (of_nat n)) = taken s - {f..<f + n}"
begin

lemma two_allocations_disjoint:
  assumes "room s n" and "alloc s (of_nat n) = Inr (a, s')" and "room s' k"
  shows "\<exists>f g s''. a = address_of f \<and> alloc s' (of_nat k) = Inr (address_of g, s'')
    \<and> {f..<f + n} \<inter> {g..<g + k} = {} \<and> taken s'' = taken s \<union> {f..<f + n} \<union> {g..<g + k}"
proof -
  obtain f where f: "a = address_of f" "taken s' = taken s \<union> {f..<f + n}"
    using pa_alloc [OF assms(1)] assms(2) by auto
  obtain g s'' where g: "alloc s' (of_nat k) = Inr (address_of g, s'')"
      "{g..<g + k} \<inter> taken s' = {}" "taken s'' = taken s' \<union> {g..<g + k}"
    using pa_alloc [OF assms(3)] by auto
  have "{f..<f + n} \<inter> {g..<g + k} = {}"
    using f(2) g(2) by blast
  with f g show ?thesis by blast
qed

lemma alloc_release:
  assumes "room s n"
  shows "\<exists>a s'. alloc s (of_nat n) = Inr (a, s') \<and> taken (release s' a (of_nat n)) = taken s"
proof -
  obtain f s' where f: "alloc s (of_nat n) = Inr (address_of f, s')" "f + n \<le> pages"
      "{f..<f + n} \<inter> taken s = {}" "taken s' = taken s \<union> {f..<f + n}"
    using pa_alloc [OF assms] by blast
  have "taken (release s' (address_of f) (of_nat n)) = taken s"
    using pa_release [OF f(2)] f(3,4) by auto
  with f(1) show ?thesis by blast
qed

end

lemma get_pages_reserves:
  assumes "has_room s n"
  shows "\<exists>f s'. get_pages s (of_nat n) = Inr (page_addr f, s') \<and> f + n \<le> 8 \<and>
    {f..<f + n} \<inter> reserved s = {} \<and> reserved s' = reserved s \<union> {f..<f + n}"
proof -
  let ?j = "first_hit s n" and ?f = "8 - first_hit s n - n"
  have j: "?j + n \<le> 8" "?f + n = 8 - ?j"
    using first_hit(2) [OF assms] by simp_all
  show ?thesis
    using get_pages_room [OF assms] reserved_or [OF j(1), of s]
      hits_reserved [OF first_hit(1) [OF assms] j(1)] j by (metis le_add1 le_add2 le_refl diff_le_self)
qed

lemma free_pages_releases:
  assumes "f + n \<le> 8"
  shows "reserved (free_pages s (page_addr f) (of_nat n)) = reserved s - {f..<f + n}"
proof (cases "n = 0")
  case True
  with assms show ?thesis
    using free_pages_page_addr [of f 0 s] by simp
next
  case False
  then have "f mod 8 = f" "f < 4096" using assms by simp_all
  then show ?thesis
    using free_pages_page_addr [of f n s] reserved_andnot [of "8 - f - n" n s] assms by simp
qed

interpretation pa: page_allocator get_pages free_pages reserved has_room page_addr 8
  by unfold_locales (fact get_pages_reserves free_pages_releases)+

lemma hits_iff_reserved:
  assumes "j + n \<le> 8"
  shows "hits (mem s page_bit_map) n j \<longleftrightarrow> {8 - j - n..<8 - j} \<inter> reserved s = {}"
proof
  assume "hits (mem s page_bit_map) n j"
  then show "{8 - j - n..<8 - j} \<inter> reserved s = {}"
    using assms by (rule hits_reserved)
next
  assume disj: "{8 - j - n..<8 - j} \<inter> reserved s = {}"
  have "\<not> bit (mem s page_bit_map) k" if "j \<le> k" "k < j + n" "k < 8" for k
  proof -
    have "7 - k \<in> {8 - j - n..<8 - j}" and "7 - (7 - k) = k" and "7 - k < 8"
      using that by auto
    with disj show ?thesis
      unfolding reserved_def by (metis (mono_tags, lifting) disjoint_iff mem_Collect_eq)
  qed
  then show "hits (mem s page_bit_map) n j"
    by (simp add: hits_iff)
qed

lemma has_room_iff_run:
  "has_room s n \<longleftrightarrow> page_bit_map_cnt s \<noteq> 0 \<and> (\<exists>f \<ge> 1. f + n \<le> 8 \<and> {f..<f + n} \<inter> reserved s = {})"
proof
  assume r: "has_room s n"
  have j: "first_hit s n + n \<le> 8" "first_hit s n < 8 - n"
    using first_hit(2) [OF r] by simp_all
  let ?f = "8 - first_hit s n - n"
  have "?f \<ge> 1 \<and> ?f + n \<le> 8 \<and> {?f..<?f + n} \<inter> reserved s = {}"
    using hits_reserved [OF first_hit(1) [OF r] j(1)] j by auto
  with r show "page_bit_map_cnt s \<noteq> 0 \<and> (\<exists>f \<ge> 1. f + n \<le> 8 \<and> {f..<f + n} \<inter> reserved s = {})"
    unfolding has_room_def by blast
next
  assume "page_bit_map_cnt s \<noteq> 0 \<and> (\<exists>f \<ge> 1. f + n \<le> 8 \<and> {f..<f + n} \<inter> reserved s = {})"
  then obtain f where f: "page_bit_map_cnt s \<noteq> 0" "1 \<le> f" "f + n \<le> 8" "{f..<f + n} \<inter> reserved s = {}"
    by blast
  have "hits (mem s page_bit_map) n (8 - f - n)"
    using f hits_iff_reserved [of "8 - f - n" n s] by simp
  moreover have "8 - f - n < 8 - n" "n < 8"
    using f by simp_all
  ultimately show "has_room s n"
    using f(1) by (auto simp: has_room_def)
qed

lemma no_hit_before_eight:
  assumes "\<not> has_room s n" and "page_bit_map_cnt s \<noteq> 0" and "0 \<in> reserved s"
    and "0 < n" and "n < 8" and "t < 8"
  shows "\<not> hits (mem s page_bit_map) n t"
proof (cases "t < 8 - n")
  case True
  with assms show ?thesis by (auto simp: has_room_def)
next
  case False
  with assms show ?thesis
    unfolding hits_iff reserved_def by (auto intro!: exI [of _ 7])
qed

lemma hits_after_eight: "hits b n 8"
  by (auto simp: hits_iff)

section \<open>Properties\<close>

text \<open>The allocator as \<^verbatim>\<open>init_page_bit_map\<close> leaves it for a bitmap of 13 bytes.\<close>

definition fresh_pages :: page_state where
  "fresh_pages = \<lparr>mem = (\<lambda>a. if a = 0x500000 then 0x80 else 0), page_cnt = 100,
     page_bit_map_cnt = 13\<rparr>"

lemma reserved_fresh: "reserved fresh_pages = {0}"
proof -
  have "bit (push_bit 7 1 :: u8) (7 - p) \<longleftrightarrow> p = 0" if "p < 8" for p
    unfolding bit_push_bit_iff bit_1_iff using that by auto
  then have "bit (0x80 :: u8) (7 - p) \<longleftrightarrow> p = 0" if "p < 8" for p
    using that by simp
  then show ?thesis
    by (auto simp: reserved_def fresh_pages_def layout)
qed

lemma fresh_pages_cnt: "page_bit_map_cnt fresh_pages = 13"
  by (simp add: fresh_pages_def)

text \<open>
  C11. \<^verbatim>\<open>get_pages\<close> is a complete first-fit search from the top of the first eight pages:
  whenever a run of \<^verbatim>\<open>n\<close> of them, not starting at page 0, is free, it returns the address of
  the highest such run, whose pages were free, reserves exactly them, and writes no other byte.
\<close>

theorem get_pages_first_fit:
  assumes "page_bit_map_cnt s \<noteq> 0" and "1 \<le> r" and "r + n \<le> 8" and "{r..<r + n} \<inter> reserved s = {}"
  shows "\<exists>f s'. get_pages s (of_nat n) = Inr (page_addr f, s') \<and> r \<le> f \<and> f + n \<le> 8
    \<and> {f..<f + n} \<inter> reserved s = {} \<and> reserved s' = reserved s \<union> {f..<f + n}
    \<and> (\<forall>x. x \<noteq> page_bit_map \<longrightarrow> mem s' x = mem s x)"
proof -
  have room: "has_room s n"
    using assms has_room_iff_run by blast
  let ?j = "first_hit s n" and ?f = "8 - first_hit s n - n"
  have j: "?j + n \<le> 8" "?f + n = 8 - ?j"
    using first_hit(2) [OF room] by simp_all
  have "hits (mem s page_bit_map) n (8 - r - n)"
    using assms hits_iff_reserved [of "8 - r - n" n s] by simp
  then have "?j \<le> 8 - r - n"
    using first_hit(3) [OF room] not_less by blast
  then have "r \<le> ?f"
    using assms(3) by linarith
  with j show ?thesis
    using get_pages_room [OF room] reserved_or [OF j(1), of s]
      hits_reserved [OF first_hit(1) [OF room] j(1)]
    by (intro exI [of _ ?f] exI [of _ "s\<lparr>mem := (mem s)(page_bit_map :=
      mem s page_bit_map OR push_bit ?j (select_ones n))\<rparr>"]) simp
qed

theorem get_pages_first_fit_witness:
  "\<exists>f s'. get_pages fresh_pages (of_nat 3) = Inr (page_addr f, s') \<and> 5 \<le> f \<and> f + 3 \<le> 8
    \<and> reserved s' = {0} \<union> {f..<f + 3}"
proof -
  have "{5..<5 + 3} \<inter> reserved fresh_pages = {}"
    by (simp add: reserved_fresh)
  then show ?thesis
    using get_pages_first_fit [of fresh_pages 5 3] reserved_fresh by (simp add: fresh_pages_cnt) metis
qed

text \<open>
  C12. Freeing what was just allocated restores the allocator exactly, bitmap bytes included,
  whenever the allocation was served from a free run.
\<close>

theorem get_free_pages_roundtrip:
  assumes "page_bit_map_cnt s \<noteq> 0" and "1 \<le> r" and "r + n \<le> 8" and "{r..<r + n} \<inter> reserved s = {}"
  shows "\<exists>a s'. get_pages s (of_nat n) = Inr (a, s') \<and> free_pages s' a (of_nat n) = s"
proof -
  have room: "has_room s n"
    using assms has_room_iff_run by blast
  let ?j = "first_hit s n" and ?f = "8 - first_hit s n - n"
  let ?s = "s\<lparr>mem := (mem s)(page_bit_map := mem s page_bit_map OR push_bit ?j (select_ones n))\<rparr>"
  have j: "?j < 8 - n" using first_hit(2) [OF room] .
  have clear: "\<not> bit (mem s page_bit_map) k" if "?j \<le> k" "k < ?j + n" "k < 8" for k
    using first_hit(1) [OF room] that unfolding hits_iff by blast
  have f: "?f < 4096" "?f mod 8 + n \<le> 8"
    using j by (cases "n = 0"; simp)+
  have undo: "(mem s page_bit_map OR push_bit ?j (select_ones n))
      AND NOT (push_bit (8 - ?f mod 8 - n) (select_ones n)) = mem s page_bit_map"
  proof (cases "n = 0")
    case False
    then have "8 - ?f mod 8 - n = ?j"
      using j by simp
    then show ?thesis
      using clear by (intro bit_word_eqI) (auto simp: bit_or_iff bit_and_iff bit_not_iff bit_shifted_ones)
  qed simp
  have "free_pages ?s (page_addr ?f) (of_nat n) = s"
    using free_pages_page_addr [OF f, of ?s] undo by simp
  with get_pages_room [OF room] show ?thesis by blast
qed

theorem get_free_pages_roundtrip_witness:
  "\<exists>a s'. get_pages fresh_pages (of_nat 3) = Inr (a, s') \<and> free_pages s' a (of_nat 3) = fresh_pages"
proof -
  have "{5..<5 + 3} \<inter> reserved fresh_pages = {}"
    by (simp add: reserved_fresh)
  then show ?thesis
    using get_free_pages_roundtrip [of fresh_pages 5 3] by (simp add: fresh_pages_cnt)
qed

text \<open>
  When no run is left (page 0 being reserved), \<^verbatim>\<open>get_pages\<close> does not report failure: the
  mask is shifted out in a later round and the call returns a fixed address past the eight
  pages while reserving nothing, so every further call of that size returns it again.
\<close>

lemma get_pages_exhausted:
  assumes "0 < n" and "n < 8" and "0 \<in> reserved s"
    and "\<And>f. 1 \<le> f \<Longrightarrow> f + n \<le> 8 \<Longrightarrow> {f..<f + n} \<inter> reserved s \<noteq> {}"
    and "8 div (8 - n) < unat (page_bit_map_cnt s)"
  shows "get_pages s (of_nat n) =
    Inr (page_addr (8 * (8 div (8 - n)) + (8 - 8 mod (8 - n) - n)), s)"
proof -
  have cnt: "page_bit_map_cnt s \<noteq> 0"
    using assms(5) by auto
  have "\<not> has_room s n"
    using assms(4) has_room_iff_run by blast
  then have miss: "\<not> hits (mem s page_bit_map) n t" if "t < 8" for t
    using no_hit_before_eight assms(1,2,3) cnt that by blast
  have "8 mod (8 - n) < 8 - n"
    using assms(2) by simp
  then have "8 mod (8 - n) + n \<le> 8"
    using assms(2) by linarith
  then have addr: "of_nat (8 div (8 - n)) * 8 + ((8 :: u32) - of_nat (8 mod (8 - n)) - of_nat n)
      = of_nat (8 * (8 div (8 - n)) + (8 - 8 mod (8 - n) - n))"
    by (simp add: of_nat_diff)
  have "push_bit 8 (select_ones n) = 0"
    by (rule bit_word_eqI) (simp add: bit_shifted_ones)
  then show ?thesis
    using get_pages_hit [OF assms(2) miss hits_after_eight assms(5)]
    unfolding addr by (simp add: page_addr_def)
qed

text \<open>
  \<^verbatim>\<open>free_pages\<close> always clears bits of byte 0 of the bitmap: freeing a run at any page
  \<^verbatim>\<open>p\<close> below 4096 releases the pages \<^verbatim>\<open>p mod 8\<close> onwards, so for \<^verbatim>\<open>p\<close> at or past 8 it
  releases somebody else's pages.
\<close>

lemma free_pages_releases_mod_8:
  assumes "p < 4096" and "p mod 8 + n \<le> 8"
  shows "reserved (free_pages s (page_addr p) (of_nat n)) = reserved s - {p mod 8..<p mod 8 + n}
    \<and> (\<forall>x. x \<noteq> page_bit_map \<longrightarrow> mem (free_pages s (page_addr p) (of_nat n)) x = mem s x)"
  using free_pages_page_addr [OF assms, of s] reserved_andnot [of "8 - p mod 8 - n" n s] assms(2)
  by simp

text \<open>
  The remaining branches of \<^verbatim>\<open>get_pages\<close>: more than eight pages panic, exactly eight
  are never found (null pointer, nothing reserved), and zero pages yield page 8 unreserved.
\<close>

lemma get_pages_other_sizes:
  "(8 < n \<longrightarrow> get_pages s n = Inl (Panic ''In the get_pages func: page_cnt > 8.''))
    \<and> get_pages s 8 = Inr (0, s)
    \<and> (page_bit_map_cnt s \<noteq> 0 \<longrightarrow> get_pages s 0 = Inr (page_addr 8, s))"
proof -
  have never: "scan_map s 8 sel i = None" for sel i
  proof (induction "unat (page_bit_map_cnt s) - i" arbitrary: i sel)
    case 0
    then show ?case by (subst scan_map.simps) simp
  next
    case (Suc d)
    have "scan_byte (mem s page_bit_map) 8 sel 0 = Inr sel"
      by (subst scan_byte.simps) simp
    with Suc show ?case by (subst scan_map.simps) simp
  qed
  have "hits (mem s page_bit_map) 0 0"
    by (simp add: hits_def)
  then have "page_bit_map_cnt s \<noteq> 0 \<Longrightarrow> get_pages s (of_nat 0) = Inr (page_addr 8, s)"
    using get_pages_hit [of 0 0 s] by (simp add: page_addr_def unat_gt_0)
  moreover have "get_pages s 8 = Inr (0, s)"
    by (simp add: get_pages_def never)
  ultimately show ?thesis
    by (simp add: get_pages_def)
qed

text \<open>
  C34. \<^verbatim>\<open>init_page_bit_map\<close> reserves page 0 (the bitmap's own page) and nothing else,
  manages \<^verbatim>\<open>(L - 5 MB)\<close> bytes rounded up to pages, where \<^verbatim>\<open>L\<close> is the longest RAM range of
  the map, and clears one bitmap byte per eight pages; a map of more than the five entries kept
  by \<^verbatim>\<open>get_memory_info\<close> is read out of bounds.
\<close>

theorem init_page_bit_map_state:
  fixes g :: mm_info
  defines "n \<equiv> unat (memory_map_cnt (kernel_info g))"
  defines "lenth \<equiv> foldl longer_ram 0 (take n (memory_map g)) - page_bit_map"
  shows "(n \<le> length (memory_map g) \<longrightarrow> (\<exists>s'. init_page_bit_map g s = Inr s' \<and> reserved s' = {0}
      \<and> page_cnt s' = (lenth + PAGE_SIZE - 1) div PAGE_SIZE
      \<and> page_bit_map_cnt s' = (page_cnt s' + 8 - 1) div 8
      \<and> (\<forall>k. 0 < k \<and> k < unat (page_bit_map_cnt s') \<longrightarrow> mem s' (page_bit_map + of_nat k) = 0)))
    \<and> (length (memory_map g) < n \<longrightarrow> init_page_bit_map g s = Inl Out_Of_Bounds)"
proof (intro conjI impI)
  assume "length (memory_map g) < n"
  then show "init_page_bit_map g s = Inl Out_Of_Bounds"
    using max_lenth_beyond [of g 0 0] by (simp add: init_page_bit_map_def n_def)
next
  assume le: "n \<le> length (memory_map g)"
  let ?cnt = "(lenth + PAGE_SIZE - 1) div PAGE_SIZE"
  let ?map_cnt = "(?cnt + 8 - 1) div 8"
  let ?m = "(clear_bytes (unat ?map_cnt) page_bit_map (mem s))(page_bit_map := push_bit 7 1)"
  let ?s = "s\<lparr>mem := ?m, page_cnt := ?cnt, page_bit_map_cnt := ?map_cnt\<rparr>"
  have "init_page_bit_map g s = Inr ?s"
    using max_lenth_within [of g 0 0] le
    by (simp only: init_page_bit_map_def n_def lenth_def drop_0 bind_outcome.simps Let_def)
  moreover have "reserved ?s = {0}"
    using reserved_fresh by (simp add: reserved_def fresh_pages_def layout)
  moreover have "?m (page_bit_map + of_nat k) = 0" if "0 < k" "k < unat ?map_cnt" for k
  proof -
    have "k < 4294967296" and "unat ?map_cnt \<le> 4294967296"
      using that unat_u32_bound [of ?map_cnt] by linarith+
    moreover then have "(of_nat k :: u32) \<noteq> 0"
      using that of_nat_inj_below [of k 0, where ?'a = 32] by simp
    ultimately show ?thesis
      using that by (simp add: clear_bytes_apply)
  qed
  ultimately show "\<exists>s'. init_page_bit_map g s = Inr s' \<and> reserved s' = {0}
      \<and> page_cnt s' = ?cnt \<and> page_bit_map_cnt s' = (page_cnt s' + 8 - 1) div 8
      \<and> (\<forall>k. 0 < k \<and> k < unat (page_bit_map_cnt s') \<longrightarrow> mem s' (page_bit_map + of_nat k) = 0)"
    by (intro exI [of _ ?s]) simp
qed

text \<open>A memory map of one RAM range of \<^verbatim>\<open>0x1ee0000\<close> bytes at 1 MB.\<close>

definition small_map :: mm_info where
  "small_map = \<lparr>kernel_info = \<lparr>ki_size = 0x5000, ki_start = 0x200000, memory_map_cnt = 1\<rparr>,
     memory_map = [\<lparr>baselow = 0x100000, basehigh = 0, lenthlow = 0x1ee0000, lenthhigh = 0,
       e820_type = 1\<rparr>]\<rparr>"

theorem init_page_bit_map_state_witness:
  "\<exists>s'. init_page_bit_map small_map fresh_pages = Inr s' \<and> reserved s' = {0}
    \<and> page_cnt s' = 0x19e0 \<and> page_bit_map_cnt s' = 0x33c"
proof -
  have n: "unat (memory_map_cnt (kernel_info small_map)) = 1" "length (memory_map small_map) = 1"
    by (simp_all add: small_map_def)
  have l: "(foldl longer_ram 0 (take 1 (memory_map small_map)) - page_bit_map + PAGE_SIZE - 1) div PAGE_SIZE
      = 0x19e0"
    by (simp add: small_map_def longer_ram_def layout)
  show ?thesis
    using init_page_bit_map_state [of small_map fresh_pages, unfolded n l] by auto
qed

end
