(* ===== verification/Thread.thy ===== *)
theory Thread
  imports Sync PageAlloc Display Desc
begin

text \<open>
  Threads, \<^verbatim>\<open>src/kernel/thread/init.h\<close> and \<^verbatim>\<open>init.c\<close>, and the frame that
  \<^verbatim>\<open>switch_to\<close> (\<^verbatim>\<open>src/kernel/switch.S\<close>, reached through \<^verbatim>\<open>schedule.c\<close>) restores. A
  \<^verbatim>\<open>struct thread\<close> and a \<^verbatim>\<open>union\<close> of stack and registers are bytes of the memory, at
  the offsets of the packed C layout; only the list node of a thread is kept in the list heap of
  \<^verbatim>\<open>ListHead\<close>. Addresses the linker assigns are fields of the parameter \<^verbatim>\<open>image\<close>.
\<close>

section \<open>Layout and state\<close>

definition KERNEL_STACK_SIZE :: u32 where [layout]: "KERNEL_STACK_SIZE = 0x8000"

text \<open>Offsets in \<^verbatim>\<open>struct thread\<close>: the list node \<^verbatim>\<open>elem\<close> follows at 32.\<close>

definition OFF_ESP :: u32 where [layout]: "OFF_ESP = 0"
definition OFF_PID :: u32 where [layout]: "OFF_PID = 4"
definition OFF_FUNCTION :: u32 where [layout]: "OFF_FUNCTION = 8"
definition OFF_NAME :: u32 where [layout]: "OFF_NAME = 12"
definition OFF_STACK :: u32 where [layout]: "OFF_STACK = 28"

text \<open>Offsets in \<^verbatim>\<open>struct registers\<close>, and of \<^verbatim>\<open>thread_struct\<close> behind it.\<close>

definition R_GS :: u32 where [layout]: "R_GS = 0"
definition R_FS :: u32 where [layout]: "R_FS = 4"
definition R_ES :: u32 where [layout]: "R_ES = 8"
definition R_DS :: u32 where [layout]: "R_DS = 12"
definition R_EIP :: u32 where [layout]: "R_EIP = 48"
definition R_CS :: u32 where [layout]: "R_CS = 52"
definition R_ESP :: u32 where [layout]: "R_ESP = 56"
definition R_SS :: u32 where [layout]: "R_SS = 60"
definition R_EFLAGS :: u32 where [layout]: "R_EFLAGS = 64"
definition OFF_THREAD_STRUCT :: u32 where [layout]: "OFF_THREAD_STRUCT = 68"

record image =
  init_struct :: u32
  init_stack :: u32
  fn_init_thread :: u32
  fn_test_lock1 :: u32
  fn_test_lock2 :: u32
  test_lock :: u32
  str_init_thread :: u32
  str_running :: u32
  str_test_LOCK1 :: u32
  str_test_LOCK2 :: u32

record kernel =
  k_pages :: page_state
  k_sync :: sync
  max_pid :: u32

abbreviation k_mem :: "kernel \<Rightarrow> bmem" where
  "k_mem k \<equiv> mem (k_pages k)"

definition set_mem :: "kernel \<Rightarrow> bmem \<Rightarrow> kernel" where
  "set_mem k m = k\<lparr>k_pages := (k_pages k)\<lparr>mem := m\<rparr>\<rparr>"

definition set_sched :: "kernel \<Rightarrow> sched \<Rightarrow> kernel" where
  "set_sched k s = k\<lparr>k_sync := (k_sync k)\<lparr>sch := s\<rparr>\<rparr>"

section \<open>init.c\<close>

text \<open>The assignments to the register block of a stack union, and to its back pointer.\<close>

definition set_regs :: "bmem \<Rightarrow> u32 \<Rightarrow> u32 \<Rightarrow> u32 \<Rightarrow> u32 \<Rightarrow> bmem" where
  "set_regs m u function stack owner =
     (let r = u + KERNEL_STACK_SIZE;
          m = store32 m (r + R_DS) KERNEL_DS;
          m = store32 m (r + R_CS) KERNEL_CS;
          m = store32 m (r + R_ES) KERNEL_DS;
          m = store32 m (r + R_FS) KERNEL_DS;
          m = store32 m (r + R_SS) KERNEL_DS;
          m = store32 m (r + R_GS) DIS_GS;
          m = store32 m (r + R_EIP) function;
          m = store32 m (r + R_ESP) stack;
          m = store32 m (r + R_EFLAGS) 0x1202
      in store32 m (r + OFF_THREAD_STRUCT) owner)"

definition get_pid :: "kernel \<Rightarrow> u32 \<times> kernel" where
  "get_pid k =
     (let pid = max_pid k;
          k = k\<lparr>max_pid := pid\<rparr>;
          pid = pid + 1
      in (pid, k))"

definition thread_creat :: "image \<Rightarrow> kernel \<Rightarrow> u32 \<Rightarrow> u32 \<Rightarrow> (u32 \<times> kernel) outcome" where
  "thread_creat im k name function =
     bind_outcome (get_pages (k_pages k) 1) (\<lambda>(thread_struct, p).
     bind_outcome (get_pages p 3) (\<lambda>(stack_union, p).
       let k = k\<lparr>k_pages := p\<rparr>;
           s = sch (k_sync k);
           k = set_sched k (s\<lparr>heap := INIT_LIST_HEAD (heap s) (elem_of thread_struct)\<rparr>);
           (pid, k) = get_pid k;
           k = set_mem k (store32 (k_mem k) (thread_struct + OFF_PID) pid)
       in bind_outcome (returns (strlen (k_mem k) name)) (\<lambda>len.
       let m = memcpy (k_mem k) (thread_struct + OFF_NAME) name len;
           m = store32 m (thread_struct + OFF_FUNCTION) function;
           m = store32 m (thread_struct + OFF_ESP) (stack_union + KERNEL_STACK_SIZE);
           m = store32 m (thread_struct + OFF_STACK) stack_union;
           m = set_regs m stack_union function (load32 m (thread_struct + OFF_STACK)) (init_struct im);
           k = set_mem k m;
           k = set_sched k ((sch (k_sync k))\<lparr>current_thread := init_struct im\<rparr>)
       in Inr (thread_struct, k))))"

section \<open>The frame switch\_to restores\<close>

record frame =
  f_gs :: u32
  f_fs :: u32
  f_es :: u32
  f_ds :: u32
  f_eip :: u32
  f_cs :: u32
  f_esp :: u32

text \<open>
  Four pops of segment registers, \<^verbatim>\<open>popal\<close> (eight words, not kept here) and a far return.
\<close>

definition switch_to :: "bmem \<Rightarrow> u32 \<Rightarrow> frame" where
  "switch_to m esp =
     \<lparr>f_gs = load32 m esp, f_fs = load32 m (esp + 4), f_es = load32 m (esp + 8),
      f_ds = load32 m (esp + 12), f_eip = load32 m (esp + 48), f_cs = load32 m (esp + 52),
      f_esp = esp + 56\<rparr>"

definition schedule :: "bmem \<Rightarrow> u32 \<Rightarrow> frame" where
  "schedule m thread_ready = switch_to m (load32 m (thread_ready + OFF_ESP))"

section \<open>The init thread\<close>

definition creat_init :: "image \<Rightarrow> kernel \<Rightarrow> frame \<times> kernel" where
  "creat_init im k =
     (let t = init_struct im;
          m = store32 (k_mem k) (t + OFF_PID) 0;
          m = memcpy m (t + OFF_NAME) (str_init_thread im) 11;
          m = store32 m (t + OFF_FUNCTION) (fn_init_thread im);
          m = store32 m (t + OFF_ESP) (init_stack im + KERNEL_STACK_SIZE);
          m = store32 m (t + OFF_STACK) (init_stack im);
          s = sch (k_sync k);
          s = s\<lparr>heap := INIT_LIST_HEAD (heap s) (elem_of t)\<rparr>;
          m = set_regs m (init_stack im) (fn_init_thread im) (load32 m (t + OFF_STACK)) t;
          k = set_mem (set_sched k (s\<lparr>current_thread := t\<rparr>)) m
      in (schedule m t, k))"

definition init_thread :: "image \<Rightarrow> kernel \<Rightarrow> kernel outcome" where
  "init_thread im k =
     bind_outcome (dis_str (k_mem k) (str_running im) 0xb 0 0) (\<lambda>(n, m).
     bind_outcome (thread_creat im (set_mem k m) (str_test_LOCK1 im) (fn_test_lock1 im)) (\<lambda>(t1, k).
     bind_outcome (thread_creat im k (str_test_LOCK2 im) (fn_test_lock2 im)) (\<lambda>(t2, k).
       let k = k\<lparr>k_sync := get_lock (k_sync k) (test_lock im)\<rparr>;
           k = k\<lparr>k_sync := (k_sync k)\<lparr>IF := False\<rparr>\<rparr>;
           s = sch (k_sync k);
           s = s\<lparr>READY_LIST := elem_of t1\<rparr>;
           s = s\<lparr>heap := list_add_tail (heap s) (elem_of t2) (lh_prev (heap s) (READY_LIST s))\<rparr>;
           s = s\<lparr>current_thread := init_struct im\<rparr>;
           s = s\<lparr>READY_THREAD := list_entry (READY_LIST s)\<rparr>;
           k = set_sched k s
       in Inr (k\<lparr>k_sync := (k_sync k)\<lparr>IF := True\<rparr>\<rparr>))))"

section \<open>What the stores leave\<close>

text \<open>A block of 256 bytes apart from another: any words at small offsets are disjoint.\<close>

lemma far_words:
  assumes "apart 0x100 a b" and "o1 \<le> 0x80" and "o2 \<le> 0x80"
  shows "4 \<le> (a + o1) - (b + o2)" and "apart 4 (a + o1) (b + o2)" and "apart 4 (b + o2) (a + o1)"
proof -
  have *: "4 \<le> (x + p) - (y + q)" if xy: "0x100 \<le> y - x" "0x100 \<le> x - y" and "p \<le> 0x80" "q \<le> 0x80"
    for x y p q :: u32
  proof -
    define d where "d = x - y"
    have "unat (- d) \<ge> 0x100" "unat d \<ge> 0x100" "unat p \<le> 0x80" "unat q \<le> 0x80"
      using that by (simp_all add: d_def word_le_nat_alt)
    moreover have "d \<noteq> 0"
      using calculation by auto
    then have "unat (- d) = 4294967296 - unat d"
      using unat_sub_if_size [of 0 d] by (simp add: word_size unat_eq_0)
    ultimately have d: "unat d \<le> 4294967040" "256 \<le> unat d" "unat p \<le> 128" "unat q \<le> 128"
      using unat_u32_bound [of d] by linarith+
    have "unat (d + p) = unat d + unat p"
      using d unat_add_no_wrap [of d "unat p"] by simp
    then have "unat (d + p - q) = unat d + unat p - unat q"
      using d by (subst unat_sub) (simp_all add: word_le_nat_alt)
    then have "4 \<le> d + p - q"
      using d by (simp add: word_le_nat_alt)
    moreover have "(x + p) - (y + q) = d + p - q"
      by (simp add: d_def)
    ultimately show ?thesis by (simp only:)
  qed
  have ab: "0x100 \<le> b - a" "0x100 \<le> a - b"
    using assms(1) by (simp_all add: apart_def)
  show "4 \<le> (a + o1) - (b + o2)"
    by (rule * [OF ab assms(2,3)])
  then show "apart 4 (a + o1) (b + o2)" "apart 4 (b + o2) (a + o1)"
    using * [OF ab(2,1) assms(3,2)] by (simp_all add: apart_def)
qed

lemma store32_frame':
  "4 \<le> unat (b - a) \<Longrightarrow> store32 m a v b = m b"
  by (rule store32_frame) (simp add: word_le_nat_alt)

text \<open>The register block holds a complete frame, and nothing else is written.\<close>

definition frame_at :: "bmem \<Rightarrow> u32 \<Rightarrow> u32 \<Rightarrow> bool" where
  "frame_at m r function \<longleftrightarrow>
     switch_to m r = \<lparr>f_gs = DIS_GS, f_fs = KERNEL_DS, f_es = KERNEL_DS, f_ds = KERNEL_DS,
       f_eip = function, f_cs = KERNEL_CS, f_esp = r + 56\<rparr>"

lemma frame_at_set_regs: "frame_at (set_regs m u f st ow) (u + KERNEL_STACK_SIZE) f"
  by (simp add: frame_at_def switch_to_def set_regs_def Let_def R_GS_def R_FS_def R_ES_def R_DS_def
      R_EIP_def R_CS_def R_ESP_def R_SS_def R_EFLAGS_def OFF_THREAD_STRUCT_def)

lemma load_set_regs:
  assumes "apart 0x100 t (u + KERNEL_STACK_SIZE)" and "p \<le> 0x80"
  shows "load32 (set_regs m u f st ow) (t + p) = load32 m (t + p)"
proof -
  define r where "r = u + KERNEL_STACK_SIZE"
  note a = far_words(3) [OF assms(1)[folded r_def] assms(2)]
  have a0: "apart 4 r (t + p)"
    using a [of 0] by simp
  show ?thesis
    unfolding set_regs_def Let_def r_def [symmetric]
    by (simp add: a a0 R_GS_def R_FS_def R_ES_def R_DS_def R_EIP_def R_CS_def R_ESP_def R_SS_def
        R_EFLAGS_def OFF_THREAD_STRUCT_def)
qed

lemma byte_set_regs:
  assumes "72 \<le> unat (x - (u + KERNEL_STACK_SIZE))"
  shows "set_regs m u f st ow x = m x"
proof -
  define d where "d = x - (u + KERNEL_STACK_SIZE)"
  have x: "x = u + KERNEL_STACK_SIZE + d"
    by (simp add: d_def)
  have d: "72 \<le> d"
    using assms by (simp add: d_def word_le_nat_alt)
  have st: "store32 m' (u + KERNEL_STACK_SIZE + p) v x = m' x" if "p \<le> 68" for m' p v
  proof (rule store32_frame)
    have "unat p \<le> 68" "72 \<le> unat d"
      using that d by (simp_all add: word_le_nat_alt)
    then have "unat (d - p) = unat d - unat p" "4 \<le> unat d - unat p"
      by (simp_all add: unat_sub word_le_nat_alt)
    moreover have "x - (u + KERNEL_STACK_SIZE + p) = d - p"
      by (simp add: x)
    ultimately show "4 \<le> x - (u + KERNEL_STACK_SIZE + p)"
      by (simp only: word_le_nat_alt) simp
  qed
  from st [of 0] st show ?thesis
    by (simp add: set_regs_def Let_def R_GS_def R_FS_def R_ES_def R_DS_def R_EIP_def R_CS_def R_ESP_def
        R_SS_def R_EFLAGS_def OFF_THREAD_STRUCT_def)
qed

section \<open>What thread\_creat leaves\<close>

definition thread_at :: "bmem \<Rightarrow> u32 \<Rightarrow> u32 \<Rightarrow> u8 list \<Rightarrow> u32 \<Rightarrow> u32 \<Rightarrow> bool" where
  "thread_at m t u bs pid function \<longleftrightarrow>
     load32 m (t + OFF_PID) = pid \<and> load32 m (t + OFF_FUNCTION) = function
     \<and> load32 m (t + OFF_ESP) = u + KERNEL_STACK_SIZE \<and> load32 m (t + OFF_STACK) = u
     \<and> (\<forall>i<length bs. m (t + OFF_NAME + of_nat i) = bs ! i)
     \<and> frame_at m (u + KERNEL_STACK_SIZE) function"

lemma small_nat_word: "n \<le> 16 \<Longrightarrow> unat (of_nat n :: u32) = n"
  by simp

text \<open>The stores to the thread structure before the register block is filled.\<close>

definition struct_stores :: "bmem \<Rightarrow> u32 \<Rightarrow> u32 \<Rightarrow> u32 \<Rightarrow> u32 \<Rightarrow> u32 \<Rightarrow> u32 \<Rightarrow> bmem" where
  "struct_stores m t pid name len function u =
     store32 (store32 (store32 (memcpy (store32 m (t + OFF_PID) pid) (t + OFF_NAME) name len)
       (t + OFF_FUNCTION) function) (t + OFF_ESP) (u + KERNEL_STACK_SIZE)) (t + OFF_STACK) u"

lemma struct_stores_apply:
  fixes t name pid fn u :: u32
  assumes "cstr m name bs" and "length bs \<le> 16"
    and away: "\<And>i. i \<le> length bs \<Longrightarrow> 32 \<le> unat (name + of_nat i - t)"
  defines "m' \<equiv> struct_stores m t pid name (of_nat (length bs)) fn u"
  shows "strlen (store32 m (t + OFF_PID) pid) name = Some (of_nat (length bs))"
    and "load32 m' (t + OFF_PID) = pid" "load32 m' (t + OFF_FUNCTION) = fn"
      "load32 m' (t + OFF_ESP) = u + KERNEL_STACK_SIZE" "load32 m' (t + OFF_STACK) = u"
    and "i < length bs \<Longrightarrow> m' (t + OFF_NAME + of_nat i) = bs ! i"
    and "32 \<le> unat (x - t) \<Longrightarrow> m' x = m x"
proof -
  let ?n = "of_nat (length bs) :: u32" and ?m1 = "store32 m (t + OFF_PID) pid"
  have n: "unat ?n = length bs"
    using assms(2) by simp
  have out: "store32 m0 (t + p) v x = m0 x" if "32 \<le> unat (x - t)" "p \<le> 28" for m0 p v x
  proof (rule store32_frame)
    have "unat p \<le> 28" using that(2) by (simp add: word_le_nat_alt)
    then have "unat (x - t - p) = unat (x - t) - unat p"
      using that(1) by (subst unat_sub) (simp_all add: word_le_nat_alt)
    moreover have "x - (t + p) = x - t - p" by simp
    ultimately show "4 \<le> x - (t + p)"
      using that(1) \<open>unat p \<le> 28\<close> by (simp only: word_le_nat_alt) simp
  qed
  have str: "cstr ?m1 name bs"
    using out [OF away, of _ OFF_PID] by (intro cstr_cong [OF assms(1)]) (simp add: layout)
  then show "strlen ?m1 name = Some ?n"
    by (rule strlen_cstr)
  have "length bs \<le> unat (t + OFF_NAME - name)"
  proof (rule ccontr)
    let ?i = "unat (t + OFF_NAME - name)"
    assume "\<not> ?thesis"
    then have "32 \<le> unat (name + of_nat ?i - t)"
      by (intro away) simp
    then show False by (simp add: layout)
  qed
  then have cpy: "memcpy ?m1 (t + OFF_NAME) name ?n x =
      (if unat (x - (t + OFF_NAME)) < length bs then ?m1 (name + (x - (t + OFF_NAME))) else ?m1 x)" for x
    using n by (subst memcpy_apply) simp_all
  have pid: "load32 (memcpy ?m1 (t + OFF_NAME) name ?n) (t + OFF_PID) = load32 ?m1 (t + OFF_PID)"
  proof (rule load32_cong)
    fix k :: nat assume k: "k < 4"
    then have u: "unat (of_nat k - 8 :: u32) = 4294967296 + k - 8"
      by (simp add: unat_sub_if_size word_size)
    have e: "t + OFF_PID + of_nat k - (t + OFF_NAME) = of_nat k - 8"
      by (simp add: layout)
    have "\<not> unat (t + OFF_PID + of_nat k - (t + OFF_NAME)) < length bs"
      unfolding e u using assms(2) by simp
    then show "memcpy ?m1 (t + OFF_NAME) name ?n (t + OFF_PID + of_nat k) = ?m1 (t + OFF_PID + of_nat k)"
      by (simp only: cpy if_False)
  qed
  show "load32 m' (t + OFF_PID) = pid"
    using pid by (simp add: m'_def struct_stores_def layout)
  show "load32 m' (t + OFF_FUNCTION) = fn" "load32 m' (t + OFF_ESP) = u + KERNEL_STACK_SIZE"
    "load32 m' (t + OFF_STACK) = u"
    by (simp_all add: m'_def struct_stores_def layout)
  show "m' (t + OFF_NAME + of_nat i) = bs ! i" if i: "i < length bs"
  proof -
    have j: "unat (of_nat i :: u32) = i" using i assms(2) by simp
    have far: "4 \<le> t + OFF_NAME + of_nat i - (t + p)" if "p = 0 \<or> p = 8 \<or> p = 28" for p
    proof -
      have "unat (4 + of_nat i :: u32) = 4 + i" "unat (12 + of_nat i :: u32) = 12 + i"
        using j i assms(2) by (simp_all add: unat_word_ariths)
      moreover have "unat (of_nat i - 16 :: u32) = 4294967296 + i - 16"
        using j i assms(2) by (simp add: unat_sub_if_size word_size)
      moreover have "t + OFF_NAME + of_nat i - (t + p) = 4 + of_nat i
          \<or> t + OFF_NAME + of_nat i - (t + p) = 12 + of_nat i
          \<or> t + OFF_NAME + of_nat i - (t + p) = of_nat i - 16"
        using that by (auto simp: layout)
      ultimately show ?thesis
        by (elim disjE; simp only: word_le_nat_alt; simp)
    qed
    then have "m' (t + OFF_NAME + of_nat i) = memcpy ?m1 (t + OFF_NAME) name ?n (t + OFF_NAME + of_nat i)"
      using far [of 0] far [of 8] far [of 28]
      by (simp add: m'_def struct_stores_def OFF_FUNCTION_def OFF_ESP_def OFF_STACK_def store32_frame)
    then show ?thesis
      using i j cstr_nth [OF str i] by (simp add: cpy)
  qed
  show "m' x = m x" if x: "32 \<le> unat (x - t)"
  proof -
    have "16 \<le> unat (x - (t + OFF_NAME))"
      using x by (subst diff_diff_eq [symmetric], subst unat_sub) (simp_all add: layout word_le_nat_alt)
    then show ?thesis
      using assms(2) out [OF x, of OFF_PID] out [OF x, of OFF_ESP] out [OF x, of OFF_STACK]
        out [OF x, of OFF_FUNCTION]
      by (simp add: m'_def struct_stores_def cpy [unfolded OFF_NAME_def OFF_PID_def] layout)
  qed
qed

lemma small_offsets:
  "OFF_PID \<le> 0x80" "OFF_FUNCTION \<le> 0x80" "OFF_ESP \<le> 0x80" "OFF_STACK \<le> 0x80"
  by (simp_all add: layout)

text \<open>Both sets of stores together, which a new thread and the init thread have in common.\<close>

lemma thread_at_stores:
  fixes m :: bmem and t u fn pid name st ow :: u32
  assumes "cstr m name bs" and "length bs \<le> 16"
    and "\<And>i. i \<le> length bs \<Longrightarrow> 32 \<le> unat (name + of_nat i - t)"
    and far: "apart 0x100 t (u + KERNEL_STACK_SIZE)"
  defines "m' \<equiv> struct_stores m t pid name (of_nat (length bs)) fn u"
  shows "thread_at (set_regs m' u fn st ow) t u bs pid fn"
    and "32 \<le> unat (x - t) \<Longrightarrow> 72 \<le> unat (x - (u + KERNEL_STACK_SIZE)) \<Longrightarrow> set_regs m' u fn st ow x = m x"
proof -
  note st = struct_stores_apply(2-7) [OF assms(1-3), where pid = pid and fn = fn and u = u, folded m'_def]
  let ?f = "set_regs m' u fn st ow"
  have "?f (t + OFF_NAME + of_nat i) = m' (t + OFF_NAME + of_nat i)" if "i < length bs" for i
  proof (rule byte_set_regs)
    define d where "d = t - (u + KERNEL_STACK_SIZE)"
    have e: "t + OFF_NAME + of_nat i - (u + KERNEL_STACK_SIZE) = d + of_nat (12 + i)"
      by (simp add: d_def layout)
    have "unat d \<ge> 256" "unat (- d) \<ge> 256"
      using far by (simp_all add: apart_def d_def word_le_nat_alt)
    moreover have "unat (- d) = 4294967296 - unat d"
      using calculation unat_sub_if_size [of 0 d] by (auto simp: word_size)
    moreover have "unat (d + of_nat (12 + i)) = unat d + (12 + i)"
      using calculation that assms(2) by (intro unat_add_no_wrap) simp
    ultimately show "72 \<le> unat (t + OFF_NAME + of_nat i - (u + KERNEL_STACK_SIZE))"
      unfolding e by linarith
  qed
  then show "thread_at ?f t u bs pid fn"
    using st(1-5) frame_at_set_regs by (simp add: thread_at_def load_set_regs [OF far] small_offsets)
  show "32 \<le> unat (x - t) \<Longrightarrow> 72 \<le> unat (x - (u + KERNEL_STACK_SIZE)) \<Longrightarrow> ?f x = m x"
    using st(6) by (simp add: byte_set_regs)
qed

lemma thread_creat_ok:
  assumes "get_pages (k_pages k) 1 = Inr (t, p1)" and "get_pages p1 3 = Inr (u, p2)"
    and "cstr (mem p2) name bs" and "length bs \<le> 16"
    and "\<And>i. i \<le> length bs \<Longrightarrow> 32 \<le> unat (name + of_nat i - t)"
    and far: "apart 0x100 t (u + KERNEL_STACK_SIZE)"
  shows "\<exists>m. thread_creat im k name fn = Inr (t, k\<lparr>k_pages := p2\<lparr>mem := m\<rparr>,
        k_sync := (k_sync k)\<lparr>sch := (sch (k_sync k))\<lparr>heap := INIT_LIST_HEAD (heap (sch (k_sync k))) (elem_of t),
          current_thread := init_struct im\<rparr>\<rparr>\<rparr>)
    \<and> thread_at m t u bs (max_pid k + 1) fn
    \<and> (\<forall>x. 32 \<le> unat (x - t) \<longrightarrow> 72 \<le> unat (x - (u + KERNEL_STACK_SIZE)) \<longrightarrow> m x = mem p2 x)"
proof -
  let ?m = "struct_stores (mem p2) t (max_pid k + 1) name (of_nat (length bs)) fn u"
  let ?f = "set_regs ?m u fn u (init_struct im)"
  note st = struct_stores_apply [OF assms(3-5)]
  have run: "thread_creat im k name fn = Inr (t, k\<lparr>k_pages := p2\<lparr>mem := ?f\<rparr>,
        k_sync := (k_sync k)\<lparr>sch := (sch (k_sync k))\<lparr>heap := INIT_LIST_HEAD (heap (sch (k_sync k))) (elem_of t),
          current_thread := init_struct im\<rparr>\<rparr>\<rparr>)"
    unfolding thread_creat_def get_pid_def set_mem_def set_sched_def Let_def
    using assms(1,2) st(1) st(5) [of "max_pid k + 1" fn u]
    by (simp add: struct_stores_def)
  then show ?thesis
    using thread_at_stores [OF assms(3-6)] by (intro exI [of _ ?f]) simp
qed

lemma creat_init_ok:
  assumes "cstr (k_mem k) (str_init_thread im) bs" and "length bs = 11"
    and "\<And>i. i \<le> length bs \<Longrightarrow> 32 \<le> unat (str_init_thread im + of_nat i - init_struct im)"
    and far: "apart 0x100 (init_struct im) (init_stack im + KERNEL_STACK_SIZE)"
  shows "\<exists>m. creat_init im k = (schedule m (init_struct im), k\<lparr>k_pages := (k_pages k)\<lparr>mem := m\<rparr>,
        k_sync := (k_sync k)\<lparr>sch := (sch (k_sync k))\<lparr>
          heap := INIT_LIST_HEAD (heap (sch (k_sync k))) (elem_of (init_struct im)),
          current_thread := init_struct im\<rparr>\<rparr>\<rparr>)
    \<and> thread_at m (init_struct im) (init_stack im) bs 0 (fn_init_thread im)
    \<and> (\<forall>x. 32 \<le> unat (x - init_struct im) \<longrightarrow> 72 \<le> unat (x - (init_stack im + KERNEL_STACK_SIZE))
        \<longrightarrow> m x = k_mem k x)"
proof -
  have l: "length bs \<le> 16" "of_nat (length bs) = (11 :: u32)"
    using assms(2) by simp_all
  let ?m = "struct_stores (k_mem k) (init_struct im) 0 (str_init_thread im) (of_nat (length bs))
      (fn_init_thread im) (init_stack im)"
  let ?f = "set_regs ?m (init_stack im) (fn_init_thread im) (init_stack im) (init_struct im)"
  have "load32 ?m (init_struct im + OFF_STACK) = init_stack im"
    by (rule struct_stores_apply(5) [OF assms(1) l(1) assms(3)])
  then have "creat_init im k = (schedule ?f (init_struct im), k\<lparr>k_pages := (k_pages k)\<lparr>mem := ?f\<rparr>,
        k_sync := (k_sync k)\<lparr>sch := (sch (k_sync k))\<lparr>
          heap := INIT_LIST_HEAD (heap (sch (k_sync k))) (elem_of (init_struct im)),
          current_thread := init_struct im\<rparr>\<rparr>\<rparr>)"
    by (simp add: creat_init_def struct_stores_def set_mem_def set_sched_def l(2) Let_def)
  then show ?thesis
    using thread_at_stores [OF assms(1) l(1) assms(3) far] by (intro exI [of _ ?f]) simp
qed

section \<open>The pages the first two threads get\<close>

lemma boot_page_calls:
  assumes "2 \<le> unat (page_bit_map_cnt p)"
  shows "mem p page_bit_map = 0x80 \<Longrightarrow>
      get_pages p 1 = Inr (0x507000, p\<lparr>mem := (mem p)(page_bit_map := 0x81)\<rparr>)"
    and "mem p page_bit_map = 0x81 \<Longrightarrow>
      get_pages p 3 = Inr (0x504000, p\<lparr>mem := (mem p)(page_bit_map := 0x8f)\<rparr>)"
    and "mem p page_bit_map = 0x8f \<Longrightarrow>
      get_pages p 1 = Inr (0x503000, p\<lparr>mem := (mem p)(page_bit_map := 0x9f)\<rparr>)"
    and "mem p page_bit_map = 0x9f \<Longrightarrow> get_pages p 3 = Inr (0x50a000, p)"
proof -
  have c: "0 < unat (page_bit_map_cnt p)" "Suc 0 < unat (page_bit_map_cnt p)"
    using assms by linarith+
  have sel: "select_ones 1 = 1" "select_ones 3 = 7"
    by (simp_all add: eval_nat_numeral)
  show "mem p page_bit_map = 0x80 \<Longrightarrow>
      get_pages p 1 = Inr (0x507000, p\<lparr>mem := (mem p)(page_bit_map := 0x81)\<rparr>)"
    using c sel by (simp add: get_pages_def scan_map.simps [of _ _ _ 0] scan_byte.simps layout)
  show "mem p page_bit_map = 0x81 \<Longrightarrow>
      get_pages p 3 = Inr (0x504000, p\<lparr>mem := (mem p)(page_bit_map := 0x8f)\<rparr>)"
    using c sel by (simp add: get_pages_def scan_map.simps [of _ _ _ 0] scan_byte.simps layout)
  show "mem p page_bit_map = 0x8f \<Longrightarrow>
      get_pages p 1 = Inr (0x503000, p\<lparr>mem := (mem p)(page_bit_map := 0x9f)\<rparr>)"
    using c sel by (simp add: get_pages_def scan_map.simps [of _ _ _ 0] scan_byte.simps layout)
  show "mem p page_bit_map = 0x9f \<Longrightarrow> get_pages p 3 = Inr (0x50a000, p)"
    using c sel by (simp add: get_pages_def scan_map.simps [of _ _ _ 0] scan_map.simps [of _ _ _ "Suc 0"]
        scan_byte.simps layout fun_upd_idem)
qed

lemma load32_window:
  assumes "\<And>x. unat (x - b) < n \<Longrightarrow> m' x = m x" and "unat p + 4 \<le> n" and "n \<le> 0x1000"
  shows "load32 m' (b + p) = load32 m (b + p)"
proof (rule load32_cong)
  fix i :: nat assume "i < 4"
  then have "unat (p + of_nat i) = unat p + i"
    using assms(2,3) by (intro unat_add_no_wrap) simp
  moreover have "b + p + of_nat i - b = p + of_nat i"
    by simp
  ultimately have "unat (b + p + of_nat i - b) < n"
    using \<open>i < 4\<close> assms(2) by (simp only:)
  then show "m' (b + p + of_nat i) = m (b + p + of_nat i)"
    by (rule assms(1))
qed

lemma thread_at_cong:
  assumes "thread_at m t u bs pid fn" and "length bs \<le> 16"
    and t: "\<And>x. unat (x - t) < 32 \<Longrightarrow> m' x = m x"
    and r: "\<And>x. unat (x - (u + KERNEL_STACK_SIZE)) < 72 \<Longrightarrow> m' x = m x"
  shows "thread_at m' t u bs pid fn"
proof -
  have name: "m' (t + OFF_NAME + of_nat i) = m (t + OFF_NAME + of_nat i)" if "i < length bs" for i
  proof (rule t)
    have e: "t + OFF_NAME + of_nat i - t = of_nat (12 + i)"
      by (simp add: layout)
    show "unat (t + OFF_NAME + of_nat i - t) < 32"
      unfolding e using that assms(2) by (simp del: of_nat_add)
  qed
  have l: "load32 m' (t + p) = load32 m (t + p)" if "unat p + 4 \<le> 32" for p
    by (rule load32_window [where n = 32]) (use t that in simp_all)
  have lr: "load32 m' (u + KERNEL_STACK_SIZE + p) = load32 m (u + KERNEL_STACK_SIZE + p)"
    if "unat p + 4 \<le> 72" for p
    by (rule load32_window [where n = 72]) (use r that in simp_all)
  have "frame_at m' (u + KERNEL_STACK_SIZE) fn \<longleftrightarrow> frame_at m (u + KERNEL_STACK_SIZE) fn"
    using lr [of 0] by (simp add: frame_at_def switch_to_def lr)
  then show ?thesis
    using assms(1) name by (simp add: thread_at_def l OFF_PID_def OFF_FUNCTION_def OFF_STACK_def
        l [of OFF_ESP, unfolded OFF_ESP_def, simplified] OFF_ESP_def)
qed

text \<open>A string constant of the kernel image, and memory that keeps the image.\<close>

definition image_string :: "bmem \<Rightarrow> u32 \<Rightarrow> u8 list \<Rightarrow> bool" where
  "image_string m a bs \<longleftrightarrow> cstr m a bs \<and> 0x200000 \<le> unat a \<and> unat a + length bs < 0x300000"

lemma image_string_byte:
  assumes "image_string m a bs" and "i \<le> length bs"
  shows "unat (a + of_nat i) = unat a + i"
  using assms by (intro unat_add_no_wrap) (simp add: image_string_def)

lemma image_string_cong:
  assumes "image_string m a bs"
    and "\<And>x. 0x200000 \<le> unat x \<Longrightarrow> unat x < 0x300000 \<Longrightarrow> m' x = m x"
  shows "image_string m' a bs"
proof -
  have "m' (a + of_nat i) = m (a + of_nat i)" if "i \<le> length bs" for i
    using that image_string_byte [OF assms(1) that] assms(1)
    by (intro assms(2)) (simp_all add: image_string_def)
  with assms(1) show ?thesis
    by (auto simp: image_string_def intro: cstr_cong)
qed

lemma unat_diff_below:
  "unat x < unat b \<Longrightarrow> unat (x - b) = 4294967296 + unat x - unat b" for x b :: u32
  by (simp add: unat_sub_if_size word_size)

lemma unat_diff_above:
  "unat b \<le> unat x \<Longrightarrow> unat (x - b) = unat x - unat b" for x b :: u32
  by (simp add: unat_sub_if_size)

lemma schedule_thread_at:
  "thread_at m t u bs pid fn \<Longrightarrow> schedule m t = \<lparr>f_gs = DIS_GS, f_fs = KERNEL_DS, f_es = KERNEL_DS,
    f_ds = KERNEL_DS, f_eip = fn, f_cs = KERNEL_CS, f_esp = u + 0x8038\<rparr>"
  by (simp add: schedule_def thread_at_def frame_at_def layout)

text \<open>
  Starting from a fresh allocator, two threads: where their structures and stacks lie, and that
  creating the second leaves the first as it was.
\<close>

definition fresh_kernel :: "kernel \<Rightarrow> bool" where
  "fresh_kernel k \<longleftrightarrow> k_mem k page_bit_map = 0x80 \<and> 2 \<le> unat (page_bit_map_cnt (k_pages k))"

lemma second_pages_apart:
  "apart 0x100 0x507000 (0x504000 + KERNEL_STACK_SIZE)" "apart 0x100 0x503000 (0x50a000 + KERNEL_STACK_SIZE)"
  by (simp_all add: apart_def layout)

lemma image_byte_far:
  "0x200000 \<le> unat x \<Longrightarrow> unat x < 0x300000 \<Longrightarrow> 0x500000 \<le> unat b \<Longrightarrow> unat b \<le> 0x600000 \<Longrightarrow>
    0x1000 \<le> unat (x - b)" for x b :: u32
  by (simp add: unat_diff_below)

lemma image_string_away:
  assumes "image_string m a bs" and "i \<le> length bs" and "0x500000 \<le> unat t" and "unat t \<le> 0x600000"
  shows "32 \<le> unat (a + of_nat i - t)"
proof -
  have "0x200000 \<le> unat (a + of_nat i)" "unat (a + of_nat i) < 0x300000"
    using image_string_byte [OF assms(1,2)] assms(1,2) by (simp_all add: image_string_def)
  from image_byte_far [OF this assms(3,4)] show ?thesis by simp
qed

lemma first_thread:
  assumes "fresh_kernel k" and "image_string (k_mem k) name bs" and "length bs \<le> 16"
  shows "\<exists>m. thread_creat im k name fn = Inr (0x507000, k\<lparr>k_pages := (k_pages k)\<lparr>mem := m\<rparr>,
        k_sync := (k_sync k)\<lparr>sch := (sch (k_sync k))\<lparr>heap := INIT_LIST_HEAD (heap (sch (k_sync k))) (elem_of 0x507000),
          current_thread := init_struct im\<rparr>\<rparr>\<rparr>)
    \<and> thread_at m 0x507000 0x504000 bs (max_pid k + 1) fn \<and> m page_bit_map = 0x8f
    \<and> (\<forall>x. 0x200000 \<le> unat x \<longrightarrow> unat x < 0x300000 \<longrightarrow> m x = k_mem k x)"
proof -
  let ?p1 = "(k_pages k)\<lparr>mem := (k_mem k)(page_bit_map := 0x81)\<rparr>"
  let ?p2 = "(k_pages k)\<lparr>mem := (k_mem k)(page_bit_map := 0x8f)\<rparr>"
  have g: "get_pages (k_pages k) 1 = Inr (0x507000, ?p1)" "get_pages ?p1 3 = Inr (0x504000, ?p2)"
    using assms(1) boot_page_calls(1) [of "k_pages k"] boot_page_calls(2) [of ?p1]
    by (simp_all add: fresh_kernel_def)
  have img: "image_string (mem ?p2) name bs"
    by (rule image_string_cong [OF assms(2)]) (auto simp: layout)
  then have str: "cstr (mem ?p2) name bs"
    by (simp add: image_string_def)
  have away: "32 \<le> unat (name + of_nat i - 0x507000)" if "i \<le> length bs" for i
    by (rule image_string_away [OF assms(2) that]) simp_all
  from thread_creat_ok [OF g str assms(3) away second_pages_apart(1), of im fn] obtain m
    where m: "thread_creat im k name fn = Inr (0x507000, k\<lparr>k_pages := ?p2\<lparr>mem := m\<rparr>,
        k_sync := (k_sync k)\<lparr>sch := (sch (k_sync k))\<lparr>heap := INIT_LIST_HEAD (heap (sch (k_sync k))) (elem_of 0x507000),
          current_thread := init_struct im\<rparr>\<rparr>\<rparr>)"
      "thread_at m 0x507000 0x504000 bs (max_pid k + 1) fn"
      and fr: "\<And>x. 32 \<le> unat (x - 0x507000) \<Longrightarrow> 72 \<le> unat (x - (0x504000 + KERNEL_STACK_SIZE)) \<Longrightarrow> m x = mem ?p2 x"
    by blast
  have "m page_bit_map = 0x8f"
    using fr [of page_bit_map] by (simp add: layout)
  moreover have "m x = k_mem k x" if x: "0x200000 \<le> unat x" "unat x < 0x300000" for x
  proof -
    have "m x = mem ?p2 x"
      using image_byte_far [OF x, of "0x507000"] image_byte_far [OF x, of "0x504000 + KERNEL_STACK_SIZE"]
      by (intro fr) (simp_all add: layout)
    moreover have "x \<noteq> page_bit_map"
      using x by (auto simp: layout)
    ultimately show ?thesis by simp
  qed
  ultimately show ?thesis
    using m by (intro exI [of _ m]) simp
qed

lemma second_thread:
  assumes "k_mem k page_bit_map = 0x8f" and "2 \<le> unat (page_bit_map_cnt (k_pages k))"
    and "image_string (k_mem k) name bs" and "length bs \<le> 16"
    and "thread_at (k_mem k) 0x507000 0x504000 bs1 pid1 fn1" and "length bs1 \<le> 16"
  shows "\<exists>m. thread_creat im k name fn = Inr (0x503000, k\<lparr>k_pages := (k_pages k)\<lparr>mem := m\<rparr>,
        k_sync := (k_sync k)\<lparr>sch := (sch (k_sync k))\<lparr>heap := INIT_LIST_HEAD (heap (sch (k_sync k))) (elem_of 0x503000),
          current_thread := init_struct im\<rparr>\<rparr>\<rparr>)
    \<and> thread_at m 0x503000 0x50a000 bs (max_pid k + 1) fn
    \<and> thread_at m 0x507000 0x504000 bs1 pid1 fn1"
proof -
  let ?p = "(k_pages k)\<lparr>mem := (k_mem k)(page_bit_map := 0x9f)\<rparr>"
  have g: "get_pages (k_pages k) 1 = Inr (0x503000, ?p)" "get_pages ?p 3 = Inr (0x50a000, ?p)"
    using assms(1,2) boot_page_calls(3) [of "k_pages k"] boot_page_calls(4) [of ?p] by simp_all
  have img: "image_string (mem ?p) name bs"
    by (rule image_string_cong [OF assms(3)]) (auto simp: layout)
  then have str: "cstr (mem ?p) name bs"
    by (simp add: image_string_def)
  have away: "32 \<le> unat (name + of_nat i - 0x503000)" if "i \<le> length bs" for i
    by (rule image_string_away [OF assms(3) that]) simp_all
  from thread_creat_ok [OF g str assms(4) away second_pages_apart(2), of im fn] obtain m
    where m: "thread_creat im k name fn = Inr (0x503000, k\<lparr>k_pages := ?p\<lparr>mem := m\<rparr>,
        k_sync := (k_sync k)\<lparr>sch := (sch (k_sync k))\<lparr>heap := INIT_LIST_HEAD (heap (sch (k_sync k))) (elem_of 0x503000),
          current_thread := init_struct im\<rparr>\<rparr>\<rparr>)"
      "thread_at m 0x503000 0x50a000 bs (max_pid k + 1) fn"
      and fr: "\<And>x. 32 \<le> unat (x - 0x503000) \<Longrightarrow> 72 \<le> unat (x - (0x50a000 + KERNEL_STACK_SIZE)) \<Longrightarrow> m x = mem ?p x"
    by blast
  have keep: "m (b + of_nat d) = k_mem k (b + of_nat d)" if "b = 0x507000 \<or> b = 0x50c000" "d < 72" for b d
  proof -
    have "unat (b + of_nat d) = unat b + d"
      using that by (intro unat_add_no_wrap) auto
    then have "0x507000 \<le> unat (b + of_nat d)" "unat (b + of_nat d) < 0x50d000"
      using that by auto
    then have ne: "b + of_nat d \<noteq> page_bit_map"
      and far: "32 \<le> unat (b + of_nat d - 0x503000)"
        "72 \<le> unat (b + of_nat d - (0x50a000 + KERNEL_STACK_SIZE))"
      by (auto simp: layout unat_diff_above unat_diff_below)
    then show ?thesis
      using fr [OF far] by simp
  qed
  have "thread_at m 0x507000 0x504000 bs1 pid1 fn1"
  proof (rule thread_at_cong [OF assms(5,6)])
    show "m x = k_mem k x" if "unat (x - 0x507000) < 32" for x
      using keep [of "0x507000" "unat (x - 0x507000)"] that by simp
    show "m x = k_mem k x" if "unat (x - (0x504000 + KERNEL_STACK_SIZE)) < 72" for x
      using keep [of "0x50c000" "unat (x - 0x50c000)"] that by (simp add: layout)
  qed
  with m show ?thesis
    by (intro exI [of _ m]) simp
qed

lemma init_message:
  assumes "fresh_kernel k" and "image_string (k_mem k) p bs" and "length bs \<le> 80"
  shows "\<exists>m. dis_str (k_mem k) p c 0 0 = Inr (int (length bs), m)
    \<and> (\<forall>x. 0x200000 \<le> unat x \<longrightarrow> m x = k_mem k x)"
proof -
  have str: "cstr (k_mem k) p bs"
    using assms(2) by (simp add: image_string_def)
  have away: "2 * length bs \<le> unat (p + of_nat i - (SCREEN + 0))" if "i < length bs" for i
  proof -
    have "unat (p + of_nat i) = unat p + i" "0x200000 \<le> unat p"
      using image_string_byte [OF assms(2), of i] that assms(2) by (simp_all add: image_string_def)
    then have "unat (p + of_nat i - SCREEN) = unat p + i - unat SCREEN"
      by (subst unat_diff_above) (simp_all add: layout)
    then show ?thesis
      using \<open>0x200000 \<le> unat p\<close> assms(3) by (simp add: layout)
  qed
  have "unat (0 :: u32) + 2 * length bs \<le> 0x10000"
    using assms(3) by simp
  from dis_loop_apply [OF this away, of "k_mem k" c] obtain m
    where m: "dis_loop (length bs) (k_mem k) p c 0 = Inr m"
      and eq: "\<And>x. m x = (let d = unat (x - (SCREEN + 0)) in if d < 2 * length bs
        then if even d then k_mem k (p + of_nat (d div 2)) else c else k_mem k x)"
    by blast
  have "m x = k_mem k x" if "0x200000 \<le> unat x" for x
  proof -
    have "unat (x - SCREEN) = unat x - unat SCREEN"
      using that by (intro unat_diff_above) (simp add: layout)
    then have "\<not> unat (x - SCREEN) < 2 * length bs"
      using that assms(3) by (simp add: layout)
    then show ?thesis
      by (simp add: eq Let_def)
  qed
  with m show ?thesis
    using assms(3) str by (intro exI [of _ m]) (simp add: dis_str_def strlen_cstr)
qed

text \<open>The list side of the two creations and of the code that fills the ready list.\<close>

lemma two_ready:
  fixes h :: list_heap
  assumes "a \<noteq> b" and "c \<noteq> a" and "c \<noteq> b" and "0 \<notin> {elem_of a, elem_of b, elem_of c}"
    and "wait_list l \<noteq> elem_of a" and "wait_list l \<noteq> elem_of b"
  defines "h1 \<equiv> INIT_LIST_HEAD (INIT_LIST_HEAD (INIT_LIST_HEAD h (elem_of a)) (elem_of b)) (wait_list l)"
  defines "h2 \<equiv> list_add_tail h1 (elem_of b) (lh_prev h1 (elem_of a))"
  shows "ring h2 [elem_of a, elem_of b]" and "ring h2 [wait_list l]"
proof -
  have "ring (INIT_LIST_HEAD h (elem_of a)) [elem_of a]"
    by (rule ring_INIT_LIST_HEAD)
  then have r: "ring h1 [elem_of a]"
    unfolding h1_def using assms(1,5) by (simp add: INIT_LIST_HEAD_frame)
  have "elem_of b \<notin> set [elem_of a]"
    using assms(1) by simp
  then show "ring h2 [elem_of a, elem_of b]"
    using lh.enqueue_ring [OF r] by (simp add: h2_def)
  have w: "ring h1 [wait_list l]"
    by (simp add: h1_def ring_INIT_LIST_HEAD)
  show "ring h2 [wait_list l]"
    unfolding h2_def using assms(5,6) by (intro lh.enqueue_frame [OF r w]) simp
qed

section \<open>Properties\<close>

text \<open>
  C24. A thread that \<^verbatim>\<open>thread_creat\<close> makes from a page and a stack is ready to be switched to:
  its structure holds its entry point, name and stack, \<^verbatim>\<open>schedule\<close> restores the kernel's
  segments and enters the function, its list node is a ring of its own, the running thread is
  the init thread, and no other byte changed. But \<^verbatim>\<open>get_pid\<close> never advances \<^verbatim>\<open>max_pid\<close>: every
  thread gets the same number.
\<close>

theorem thread_creat_ready:
  assumes "get_pages (k_pages k) 1 = Inr (t, p1)" and "get_pages p1 3 = Inr (u, p2)"
    and "cstr (mem p2) name bs" and "length bs \<le> 16"
    and "\<And>i. i \<le> length bs \<Longrightarrow> 32 \<le> unat (name + of_nat i - t)"
    and "apart 0x100 t (u + KERNEL_STACK_SIZE)"
  shows "\<exists>k'. thread_creat im k name fn = Inr (t, k')
    \<and> schedule (k_mem k') t = \<lparr>f_gs = DIS_GS, f_fs = KERNEL_DS, f_es = KERNEL_DS, f_ds = KERNEL_DS,
        f_eip = fn, f_cs = KERNEL_CS, f_esp = u + 0x8038\<rparr>
    \<and> load32 (k_mem k') (t + OFF_PID) = max_pid k + 1 \<and> max_pid k' = max_pid k
    \<and> (\<forall>i<length bs. k_mem k' (t + OFF_NAME + of_nat i) = bs ! i)
    \<and> ring (heap (sch (k_sync k'))) [elem_of t] \<and> current_thread (sch (k_sync k')) = init_struct im
    \<and> (\<forall>x. 32 \<le> unat (x - t) \<longrightarrow> 72 \<le> unat (x - (u + KERNEL_STACK_SIZE)) \<longrightarrow> k_mem k' x = mem p2 x)"
proof -
  from thread_creat_ok [OF assms, of im fn] obtain m where
    run: "thread_creat im k name fn = Inr (t, k\<lparr>k_pages := p2\<lparr>mem := m\<rparr>,
        k_sync := (k_sync k)\<lparr>sch := (sch (k_sync k))\<lparr>heap := INIT_LIST_HEAD (heap (sch (k_sync k))) (elem_of t),
          current_thread := init_struct im\<rparr>\<rparr>\<rparr>)"
    and m: "thread_at m t u bs (max_pid k + 1) fn"
      "\<forall>x. 32 \<le> unat (x - t) \<longrightarrow> 72 \<le> unat (x - (u + KERNEL_STACK_SIZE)) \<longrightarrow> m x = mem p2 x"
    by blast
  let ?k = "k\<lparr>k_pages := p2\<lparr>mem := m\<rparr>,
      k_sync := (k_sync k)\<lparr>sch := (sch (k_sync k))\<lparr>heap := INIT_LIST_HEAD (heap (sch (k_sync k))) (elem_of t),
        current_thread := init_struct im\<rparr>\<rparr>\<rparr>"
  show ?thesis
    using run m schedule_thread_at [OF m(1)]
    by (intro exI [of _ ?k]) (simp add: thread_at_def ring_INIT_LIST_HEAD)
qed

text \<open>
  \<^verbatim>\<open>init_thread\<close> up to the ready list: the message and the two creations.
\<close>

lemma init_thread_creates:
  assumes "fresh_kernel k" and "image_string (k_mem k) (str_running im) bs0" and "length bs0 \<le> 80"
    and "image_string (k_mem k) (str_test_LOCK1 im) bs1" and "length bs1 \<le> 16"
    and "image_string (k_mem k) (str_test_LOCK2 im) bs2" and "length bs2 \<le> 16"
  shows "\<exists>m0 m1 m2.
    (let k0 = set_mem k m0;
         k1 = k0\<lparr>k_pages := (k_pages k0)\<lparr>mem := m1\<rparr>, k_sync := (k_sync k0)\<lparr>sch := (sch (k_sync k0))\<lparr>
           heap := INIT_LIST_HEAD (heap (sch (k_sync k0))) (elem_of 0x507000), current_thread := init_struct im\<rparr>\<rparr>\<rparr>;
         k2 = k1\<lparr>k_pages := (k_pages k1)\<lparr>mem := m2\<rparr>, k_sync := (k_sync k1)\<lparr>sch := (sch (k_sync k1))\<lparr>
           heap := INIT_LIST_HEAD (heap (sch (k_sync k1))) (elem_of 0x503000), current_thread := init_struct im\<rparr>\<rparr>\<rparr>
     in dis_str (k_mem k) (str_running im) 0xb 0 0 = Inr (int (length bs0), m0)
        \<and> thread_creat im k0 (str_test_LOCK1 im) (fn_test_lock1 im) = Inr (0x507000, k1)
        \<and> thread_creat im k1 (str_test_LOCK2 im) (fn_test_lock2 im) = Inr (0x503000, k2))
    \<and> thread_at m2 0x507000 0x504000 bs1 (max_pid k + 1) (fn_test_lock1 im)
    \<and> thread_at m2 0x503000 0x50a000 bs2 (max_pid k + 1) (fn_test_lock2 im)"
proof -
  obtain m0 where m0: "dis_str (k_mem k) (str_running im) 0xb 0 0 = Inr (int (length bs0), m0)"
    and same: "\<And>x. 0x200000 \<le> unat x \<Longrightarrow> m0 x = k_mem k x"
    using init_message [OF assms(1-3)] by blast
  let ?k0 = "set_mem k m0"
  have fresh: "fresh_kernel ?k0"
    using assms(1) same [of page_bit_map] by (simp add: fresh_kernel_def set_mem_def layout)
  have img: "image_string (k_mem ?k0) a bs" if "image_string (k_mem k) a bs" for a bs
    by (rule image_string_cong [OF that]) (simp add: set_mem_def same)
  obtain m1 where c1: "thread_creat im ?k0 (str_test_LOCK1 im) (fn_test_lock1 im) = Inr (0x507000,
        ?k0\<lparr>k_pages := (k_pages ?k0)\<lparr>mem := m1\<rparr>, k_sync := (k_sync ?k0)\<lparr>sch := (sch (k_sync ?k0))\<lparr>
          heap := INIT_LIST_HEAD (heap (sch (k_sync ?k0))) (elem_of 0x507000), current_thread := init_struct im\<rparr>\<rparr>\<rparr>)"
    and t1: "thread_at m1 0x507000 0x504000 bs1 (max_pid ?k0 + 1) (fn_test_lock1 im)" "m1 page_bit_map = 0x8f"
      "\<forall>x. 0x200000 \<le> unat x \<longrightarrow> unat x < 0x300000 \<longrightarrow> m1 x = k_mem ?k0 x"
    using first_thread [OF fresh img [OF assms(4)] assms(5)] by blast
  let ?k1 = "?k0\<lparr>k_pages := (k_pages ?k0)\<lparr>mem := m1\<rparr>, k_sync := (k_sync ?k0)\<lparr>sch := (sch (k_sync ?k0))\<lparr>
          heap := INIT_LIST_HEAD (heap (sch (k_sync ?k0))) (elem_of 0x507000), current_thread := init_struct im\<rparr>\<rparr>\<rparr>"
  have img1: "image_string (k_mem ?k1) (str_test_LOCK2 im) bs2"
    by (rule image_string_cong [OF img [OF assms(6)]]) (use t1(3) in simp)
  have "k_mem ?k1 page_bit_map = 0x8f" "2 \<le> unat (page_bit_map_cnt (k_pages ?k1))"
    "thread_at (k_mem ?k1) 0x507000 0x504000 bs1 (max_pid ?k0 + 1) (fn_test_lock1 im)"
    using t1 fresh by (simp_all add: fresh_kernel_def)
  from second_thread [OF this(1,2) img1 assms(7) this(3) assms(5), of im "fn_test_lock2 im"]
  obtain m2 where "thread_creat im ?k1 (str_test_LOCK2 im) (fn_test_lock2 im) = Inr (0x503000,
        ?k1\<lparr>k_pages := (k_pages ?k1)\<lparr>mem := m2\<rparr>, k_sync := (k_sync ?k1)\<lparr>sch := (sch (k_sync ?k1))\<lparr>
          heap := INIT_LIST_HEAD (heap (sch (k_sync ?k1))) (elem_of 0x503000), current_thread := init_struct im\<rparr>\<rparr>\<rparr>)"
    and "thread_at m2 0x503000 0x50a000 bs2 (max_pid k + 1) (fn_test_lock2 im)"
      "thread_at m2 0x507000 0x504000 bs1 (max_pid k + 1) (fn_test_lock1 im)"
    by (auto simp: set_mem_def)
  then show ?thesis
    using m0 c1 by (intro exI [of _ m0] exI [of _ m1] exI [of _ m2]) (simp add: set_mem_def Let_def)
qed

lemma init_thread_run:
  assumes "fresh_kernel k" and "image_string (k_mem k) (str_running im) bs0" and "length bs0 \<le> 80"
    and "image_string (k_mem k) (str_test_LOCK1 im) bs1" and "length bs1 \<le> 16"
    and "image_string (k_mem k) (str_test_LOCK2 im) bs2" and "length bs2 \<le> 16"
    and "init_struct im \<notin> {0x507000, 0x503000}" and "elem_of (init_struct im) \<noteq> 0"
    and "wait_list (test_lock im) \<notin> {elem_of 0x507000, elem_of 0x503000}"
  shows "\<exists>k'. init_thread im k = Inr k'
    \<and> schedules (sch (k_sync k')) (init_struct im) [0x507000, 0x503000]
    \<and> thread_at (k_mem k') 0x507000 0x504000 bs1 (max_pid k + 1) (fn_test_lock1 im)
    \<and> thread_at (k_mem k') 0x503000 0x50a000 bs2 (max_pid k + 1) (fn_test_lock2 im)
    \<and> wake_ring (k_sync k') (test_lock im) [] \<and> \<not> lock_busy (k_sync k') (test_lock im)
    \<and> IF (k_sync k') \<and> ticks (sch (k_sync k')) = ticks (sch (k_sync k))"
proof -
  obtain m0 m1 m2 where made: "let k0 = set_mem k m0;
         k1 = k0\<lparr>k_pages := (k_pages k0)\<lparr>mem := m1\<rparr>, k_sync := (k_sync k0)\<lparr>sch := (sch (k_sync k0))\<lparr>
           heap := INIT_LIST_HEAD (heap (sch (k_sync k0))) (elem_of 0x507000), current_thread := init_struct im\<rparr>\<rparr>\<rparr>;
         k2 = k1\<lparr>k_pages := (k_pages k1)\<lparr>mem := m2\<rparr>, k_sync := (k_sync k1)\<lparr>sch := (sch (k_sync k1))\<lparr>
           heap := INIT_LIST_HEAD (heap (sch (k_sync k1))) (elem_of 0x503000), current_thread := init_struct im\<rparr>\<rparr>\<rparr>
     in dis_str (k_mem k) (str_running im) 0xb 0 0 = Inr (int (length bs0), m0)
        \<and> thread_creat im k0 (str_test_LOCK1 im) (fn_test_lock1 im) = Inr (0x507000, k1)
        \<and> thread_creat im k1 (str_test_LOCK2 im) (fn_test_lock2 im) = Inr (0x503000, k2)"
    and t: "thread_at m2 0x507000 0x504000 bs1 (max_pid k + 1) (fn_test_lock1 im)"
      "thread_at m2 0x503000 0x50a000 bs2 (max_pid k + 1) (fn_test_lock2 im)"
    using init_thread_creates [OF assms(1-7)] by blast
  then obtain k' where k': "init_thread im k = Inr k'" "k_mem k' = m2"
      "current_thread (sch (k_sync k')) = init_struct im" "READY_LIST (sch (k_sync k')) = elem_of 0x507000"
      "IF (k_sync k')" "counter (k_sync k') (test_lock im) = 0" "ticks (sch (k_sync k')) = ticks (sch (k_sync k))"
    and h: "heap (sch (k_sync k')) = (let h1 = INIT_LIST_HEAD (INIT_LIST_HEAD (INIT_LIST_HEAD
      (heap (sch (k_sync k))) (elem_of 0x507000)) (elem_of 0x503000)) (wait_list (test_lock im))
      in list_add_tail h1 (elem_of 0x503000) (lh_prev h1 (elem_of 0x507000)))"
    by (simp add: init_thread_def set_mem_def set_sched_def get_lock_def Let_def)
  have nz: "elem_of 0x507000 \<noteq> 0" "elem_of 0x503000 \<noteq> 0"
    by (simp_all add: elem_of_def layout)
  have "ring (heap (sch (k_sync k'))) [elem_of 0x507000, elem_of 0x503000]"
    "ring (heap (sch (k_sync k'))) [wait_list (test_lock im)]"
    using two_ready [of "0x507000" "0x503000" "init_struct im" "test_lock im" "heap (sch (k_sync k))"]
      assms(8-10) nz by (auto simp: h Let_def)
  then show ?thesis
    using k' t assms(8,9) nz
    by (intro exI [of _ k']) (simp add: schedules_def ready_queue_def wake_ring_def lock_busy_def)
qed

text \<open>
  C23. \<^verbatim>\<open>init_thread\<close>, run on a fresh allocator, prints its message, creates the two test
  threads and leaves the scheduler well formed: the init thread running, the two threads ready
  in order, each with an intact structure and a frame that enters its function, although the
  second stack comes from beyond the pages the allocator manages and overlaps the first; the
  lock is free and has no waiter; and both threads have the same number.
\<close>

theorem init_thread_starts_threads:
  assumes "fresh_kernel k" and "image_string (k_mem k) (str_running im) bs0" and "length bs0 \<le> 80"
    and "image_string (k_mem k) (str_test_LOCK1 im) bs1" and "length bs1 \<le> 16"
    and "image_string (k_mem k) (str_test_LOCK2 im) bs2" and "length bs2 \<le> 16"
    and "init_struct im \<notin> {0x507000, 0x503000}" and "elem_of (init_struct im) \<noteq> 0"
    and "wait_list (test_lock im) \<notin> {elem_of 0x507000, elem_of 0x503000}"
  shows "\<exists>k'. init_thread im k = Inr k'
    \<and> schedules (sch (k_sync k')) (init_struct im) [0x507000, 0x503000]
    \<and> thread_at (k_mem k') 0x507000 0x504000 bs1 (max_pid k + 1) (fn_test_lock1 im)
    \<and> thread_at (k_mem k') 0x503000 0x50a000 bs2 (max_pid k + 1) (fn_test_lock2 im)
    \<and> f_eip (schedule (k_mem k') 0x507000) = fn_test_lock1 im
    \<and> f_eip (schedule (k_mem k') 0x503000) = fn_test_lock2 im
    \<and> wake_ring (k_sync k') (test_lock im) [] \<and> \<not> lock_busy (k_sync k') (test_lock im)
    \<and> IF (k_sync k')"
  using init_thread_run [OF assms] schedule_thread_at by fastforce

text \<open>A kernel image with one-letter strings, just booted.\<close>

definition boot_mem :: bmem where
  "boot_mem = (\<lambda>a. if a = 0x500000 then 0x80 else if a = 0x200010 then 65 else if a = 0x200020 then 66 else 0)"

definition boot_kernel :: kernel where
  "boot_kernel = \<lparr>k_pages = \<lparr>mem = boot_mem, page_cnt = 100, page_bit_map_cnt = 13\<rparr>,
     k_sync = \<lparr>sch = two_threads, counter = (\<lambda>_. 5), IF = True\<rparr>, max_pid = 0\<rparr>"

definition boot_image :: image where
  "boot_image = \<lparr>init_struct = 0x208000, init_stack = 0x210000, fn_init_thread = 0x201000,
     fn_test_lock1 = 0x201100, fn_test_lock2 = 0x201200, test_lock = 0x209000, str_init_thread = 0x200000,
     str_running = 0x200010, str_test_LOCK1 = 0x200010, str_test_LOCK2 = 0x200020\<rparr>"

lemma boot_strings:
  "image_string (k_mem boot_kernel) 0x200010 [65]" "image_string (k_mem boot_kernel) 0x200020 [66]"
  by (simp_all add: image_string_def boot_kernel_def boot_mem_def)

lemma boot_fresh: "fresh_kernel boot_kernel"
  by (simp add: fresh_kernel_def boot_kernel_def boot_mem_def layout)

theorem thread_creat_ready_witness:
  "\<exists>k'. thread_creat boot_image boot_kernel 0x200020 0x201100 = Inr (0x507000, k')
    \<and> f_eip (schedule (k_mem k') 0x507000) = 0x201100 \<and> f_esp (schedule (k_mem k') 0x507000) = 0x50c038
    \<and> k_mem k' 0x50700c = 66"
proof -
  let ?p1 = "(k_pages boot_kernel)\<lparr>mem := (k_mem boot_kernel)(page_bit_map := 0x81)\<rparr>"
  let ?p2 = "(k_pages boot_kernel)\<lparr>mem := (k_mem boot_kernel)(page_bit_map := 0x8f)\<rparr>"
  have g: "get_pages (k_pages boot_kernel) 1 = Inr (0x507000, ?p1)" "get_pages ?p1 3 = Inr (0x504000, ?p2)"
    using boot_fresh boot_page_calls(1) [of "k_pages boot_kernel"] boot_page_calls(2) [of ?p1]
    by (simp_all add: fresh_kernel_def)
  have s: "cstr (mem ?p2) 0x200020 [66]" "length [66 :: u8] \<le> 16"
    by (simp_all add: boot_kernel_def boot_mem_def layout)
  have a: "32 \<le> unat (0x200020 + of_nat i - 0x507000 :: u32)" if "i \<le> length [66 :: u8]" for i
    by (rule image_string_away [OF boot_strings(2) that]) simp_all
  obtain k' where k': "thread_creat boot_image boot_kernel 0x200020 0x201100 = Inr (0x507000, k')"
    "schedule (k_mem k') 0x507000 = \<lparr>f_gs = DIS_GS, f_fs = KERNEL_DS, f_es = KERNEL_DS, f_ds = KERNEL_DS,
        f_eip = 0x201100, f_cs = KERNEL_CS, f_esp = 0x504000 + 0x8038\<rparr>"
    "\<forall>i<length [66 :: u8]. k_mem k' (0x507000 + OFF_NAME + of_nat i) = [66] ! i"
    using thread_creat_ready [OF g s a second_pages_apart(1), of boot_image "0x201100"] by blast
  from k'(3) have "k_mem k' 0x50700c = 66"
    by (simp add: layout)
  with k' show ?thesis
    by (intro exI [of _ k']) simp
qed

theorem init_thread_starts_threads_witness:
  "\<exists>k'. init_thread boot_image boot_kernel = Inr k'
    \<and> schedules (sch (k_sync k')) 0x208000 [0x507000, 0x503000]
    \<and> f_eip (schedule (k_mem k') 0x503000) = 0x201200"
  using init_thread_starts_threads [OF boot_fresh, of boot_image "[65]" "[65]" "[66]"] boot_strings
  by (auto simp: boot_image_def elem_of_def wait_list_def layout)

end
