(* ===== verification/Entry.thy ===== *)
theory Entry
  imports Cpu Thread
begin

text \<open>
  The kernel's entry points in assembly: the timer interrupt of
  \<^verbatim>\<open>src/kernel/interrupt/interrupt.S\<close>, the system call of \<^verbatim>\<open>src/kernel/syscall/sys_entry.S\<close> with
  \<^verbatim>\<open>syscall_handler\<close> of \<^verbatim>\<open>sys_call.c\<close>, and \<^verbatim>\<open>yield\<close> and \<^verbatim>\<open>switch_to\<close> of
  \<^verbatim>\<open>src/kernel/switch.S\<close>. The current thread's stack pointer is the first word of its structure.
\<close>

section \<open>interrupt.S\<close>

definition put_flag :: "nat \<Rightarrow> bool \<Rightarrow> u32 \<Rightarrow> u32" where
  "put_flag n b f = (if b then set_bit n f else unset_bit n f)"

text \<open>The flags an increment that gives \<^verbatim>\<open>v\<close> sets: parity, auxiliary carry, zero, sign, overflow.\<close>

definition inc_flags :: "u8 \<Rightarrow> u32 \<Rightarrow> u32" where
  "inc_flags v f =
     put_flag 2 (even (length (filter (bit v) [0..<8]))) (put_flag 4 (v AND 0xf = 0)
       (put_flag 6 (v = 0) (put_flag 7 (bit v 7) (put_flag 11 (v = 0x80) f))))"

text \<open>\<^verbatim>\<open>incb %gs:(off)\<close>, where \<^verbatim>\<open>gs\<close> is the screen's segment.\<close>

definition incb_gs :: "u32 \<Rightarrow> machine \<Rightarrow> machine" where
  "incb_gs off w =
     (let v = ram w (SCREEN + off) + 1
      in w\<lparr>ram := (ram w)(SCREEN + off := v), eflags := inc_flags v (eflags w)\<rparr>)"

text \<open>\<^verbatim>\<open>movl (current_thread), %eax; movl %esp, (%eax)\<close> and the same moves backwards.\<close>

definition save_esp :: "machine \<Rightarrow> machine" where
  "save_esp w =
     (let w = w\<lparr>core := (core w)\<lparr>EAX := current_thread (sc w)\<rparr>\<rparr>
      in w\<lparr>ram := store32 (ram w) (EAX (core w)) (ESP (core w))\<rparr>)"

definition load_esp :: "machine \<Rightarrow> machine" where
  "load_esp w =
     (let w = w\<lparr>core := (core w)\<lparr>EAX := current_thread (sc w)\<rparr>\<rparr>
      in w\<lparr>core := (core w)\<lparr>ESP := load32 (ram w) (EAX (core w))\<rparr>\<rparr>)"

definition irq00_handler :: "compiled \<Rightarrow> machine \<Rightarrow> machine" where
  "irq00_handler cc w =
     (let w = save_all w;
          w = save_esp w;
          w = incb_gs (24 * 160) w;
          w = call_c cc (\<lambda>w. w\<lparr>wires := EOI_master (wires w)\<rparr>) w;
          w = call_c cc (\<lambda>w. w\<lparr>sc := timer_handler (sc w)\<rparr>) w;
          w = load_esp w;
          w = restore_all w
      in lret w)"

text \<open>The interrupt as a whole: the processor's entry through the gate of \<^verbatim>\<open>init_timer\<close>, the stub.\<close>

definition timer_interrupt :: "compiled \<Rightarrow> u32 \<Rightarrow> machine \<Rightarrow> machine" where
  "timer_interrupt cc entry w = irq00_handler cc (enter_gate (ucast KERNEL_CS) entry w)"

section \<open>switch.S and schedule.c\<close>

definition switch_to_regs :: "machine \<Rightarrow> machine" where
  "switch_to_regs w =
     (let w = w\<lparr>core := (core w)\<lparr>ESP := EAX (core w)\<rparr>\<rparr>;
          w = restore_all w
      in lret w)"

definition schedule_regs :: "u32 \<Rightarrow> machine \<Rightarrow> machine" where
  "schedule_regs thread_ready w =
     (let w = w\<lparr>core := (core w)\<lparr>EAX := load32 (ram w) (thread_ready + OFF_ESP)\<rparr>\<rparr>;
          w = w\<lparr>core := (core w)\<lparr>ESP := EAX (core w)\<rparr>\<rparr>
      in switch_to_regs w)"

text \<open>\<^verbatim>\<open>yield\<close> turns its return address into a far one, so that \<^verbatim>\<open>lret\<close> can leave it.\<close>

definition yield :: "compiled \<Rightarrow> machine \<Rightarrow> machine" where
  "yield cc w =
     (let w = w\<lparr>core := (core w)\<lparr>ESP := ESP (core w) - 4\<rparr>\<rparr>;
          w = pushl (EAX (core w)) w;
          w = w\<lparr>core := (core w)\<lparr>EAX := load32 (ram w) (ESP (core w) + 8)\<rparr>\<rparr>;
          w = w\<lparr>ram := store32 (ram w) (ESP (core w) + 4) (EAX (core w))\<rparr>;
          w = w\<lparr>ram := store32 (ram w) (ESP (core w) + 8) 0x20\<rparr>;
          w = popl (\<lambda>v r. r\<lparr>EAX := v\<rparr>) w;
          w = save_all w;
          w = save_esp w;
          w = call_c cc (\<lambda>w. w\<lparr>sc := yield_thread (sc w)\<rparr>) w;
          w = load_esp w;
          w = restore_all w;
          w = w\<lparr>wires := sti (wires w)\<rparr>
      in lret w)"

section \<open>sys\_entry.S and sys\_call.c\<close>

definition THREAD_YIELD :: u32 where [layout]: "THREAD_YIELD = 1"

text \<open>Up to the call: registers, \<^verbatim>\<open>sti\<close>, the six arguments.\<close>

definition sys_enter :: "machine \<Rightarrow> machine" where
  "sys_enter w =
     (let w = save_all w;
          w = w\<lparr>wires := sti (wires w)\<rparr>;
          w = pushl (EDI (core w)) w;
          w = pushl (ESI (core w)) w;
          w = pushl (EDX (core w)) w;
          w = pushl (ECX (core w)) w;
          w = pushl (EBX (core w)) w
      in pushl (EAX (core w)) w)"

text \<open>
  The call of \<^verbatim>\<open>yield\<close> in \<^verbatim>\<open>syscall_handler\<close>: the compiler put the return address \<^verbatim>\<open>ret\<close> at a
  distance \<^verbatim>\<open>depth\<close> below the arguments.
\<close>

definition call_yield :: "compiled \<Rightarrow> u32 \<Rightarrow> u32 \<Rightarrow> machine \<Rightarrow> machine" where
  "call_yield cc depth ret w =
     (let sp = ESP (core w) - depth
      in yield cc (w\<lparr>core := (core w)\<lparr>ESP := sp\<rparr>, ram := store32 (ram w) sp ret\<rparr>))"

definition syscall_handler :: "compiled \<Rightarrow> u32 \<Rightarrow> u32 \<Rightarrow> u32 \<Rightarrow> u32 \<Rightarrow> machine \<Rightarrow> machine outcome" where
  "syscall_handler cc depth ret msg syscall_num w =
     bind_outcome (dis_str (ram w) msg 0xc 0 0) (\<lambda>(n, m).
       let w = w\<lparr>ram := m\<rparr>
       in if syscall_num = THREAD_YIELD then Inr (call_yield cc depth ret w) else Inr w)"

text \<open>After the call: the arguments are dropped and the interrupt's frame is turned into a far return.\<close>

definition sys_exit :: "machine \<Rightarrow> machine" where
  "sys_exit w =
     (let w = w\<lparr>core := (core w)\<lparr>ESP := ESP (core w) + 0x18\<rparr>\<rparr>;
          w = restore_all w;
          w = w\<lparr>core := (core w)\<lparr>EAX := load32 (ram w) (ESP (core w))\<rparr>\<rparr>;
          w = w\<lparr>core := (core w)\<lparr>EBX := load32 (ram w) (ESP (core w) + 4)\<rparr>\<rparr>;
          w = w\<lparr>core := (core w)\<lparr>ECX := load32 (ram w) (ESP (core w) + 8)\<rparr>\<rparr>;
          w = w\<lparr>ram := store32 (ram w) (ESP (core w) + 4) (EAX (core w))\<rparr>;
          w = w\<lparr>ram := store32 (ram w) (ESP (core w) + 8) (EBX (core w))\<rparr>;
          w = w\<lparr>ram := store32 (ram w) (ESP (core w)) (ECX (core w))\<rparr>;
          w = popf w
      in lret w)"

text \<open>
  \<^verbatim>\<open>sys_entry\<close> for a call that does not switch: the handler's stack below the arguments is
  covered by the compiled call.
\<close>

definition sys_entry :: "compiled \<Rightarrow> u32 \<Rightarrow> u32 \<Rightarrow> u32 \<Rightarrow> machine \<Rightarrow> machine outcome" where
  "sys_entry cc depth ret msg w =
     (let w = sys_enter w in
      bind_outcome (syscall_handler cc depth ret msg (stack_top w) w) (\<lambda>w.
        Inr (sys_exit (call_c cc (\<lambda>w. w) w))))"

section \<open>What the stubs compute\<close>

lemma enter_gate_eq:
  "enter_gate sel entry w = w\<lparr>core := (core w)\<lparr>ESP := ESP (core w) - 12, CS := sel, EIP := entry\<rparr>,
     ram := store32 (store32 (store32 (ram w) (ESP (core w) - 4) (flags_word w)) (ESP (core w) - 8)
       (ucast (CS (core w)))) (ESP (core w) - 12) (EIP (core w)), wires := cli (wires w)\<rparr>"
  by (simp add: enter_gate_def pushl_def Let_def)

text \<open>The frame an interrupt leaves, and its place.\<close>

definition irq_frame :: "machine \<Rightarrow> bmem" where
  "irq_frame w = store_frame (store32 (store32 (store32 (ram w) (ESP (core w) - 4) (flags_word w))
     (ESP (core w) - 8) (ucast (CS (core w)))) (ESP (core w) - 12) (EIP (core w)))
     (ESP (core w) - 60) ((core w)\<lparr>ESP := ESP (core w) - 12\<rparr>)"

lemma irq_frame_regs:
  "frame_regs (irq_frame w) (ESP (core w) - 60) = (core w)\<lparr>ESP := ESP (core w) - 4\<rparr>"
  by (simp add: irq_frame_def frame_regs_store_frame)

lemma store_frame_outside:
  assumes "fits A sp 48" and "x \<notin> A"
  shows "store_frame m sp r x = m x"
proof -
  have out: "x \<notin> word_at (sp + k)" if "unat k \<le> 44" for k
  proof -
    have "fits A (sp + of_nat (unat k)) 4"
      by (rule fits_part [OF assms(1)]) (use that in simp)
    then show ?thesis
      using assms(2) by (auto simp: fits_word)
  qed
  show ?thesis
    using out [of 0] by (simp add: store_frame_def store32_outside out)
qed

lemma word_at_fits:
  "fits A sp n \<Longrightarrow> unat k + 4 \<le> n \<Longrightarrow> word_at (sp + k) \<subseteq> A"
  using fits_part [of A sp n "unat k" 4] by (simp add: fits_word)

lemma irq_frame_outside:
  assumes "fits A (ESP (core w) - 60) 60" and "x \<notin> A"
  shows "irq_frame w x = ram w x"
proof -
  let ?sp = "ESP (core w) - 60"
  have out: "x \<notin> word_at (ESP (core w) - k)" if "k = 4 \<or> k = 8 \<or> k = 12" for k
    using word_at_fits [OF assms(1), of "60 - k"] that assms(2) by auto
  have "fits A ?sp 48"
    using fits_part [OF assms(1), of 0 48] by simp
  then show ?thesis
    using assms(2) by (simp add: irq_frame_def store_frame_outside store32_outside out)
qed

text \<open>The memory behind the two calls of the timer interrupt.\<close>

definition irq_stores :: "machine \<Rightarrow> bmem" where
  "irq_stores w =
     (let m = store32 (irq_frame w) (current_thread (sc w)) (ESP (core w) - 60)
      in m(SCREEN + 3840 := m (SCREEN + 3840) + 1))"

definition irq_ram :: "compiled \<Rightarrow> machine \<Rightarrow> bmem" where
  "irq_ram cc w = below cc (ESP (core w) - 60) (below cc (ESP (core w) - 60) (irq_stores w))"

lemma timer_interrupt_eq:
  "timer_interrupt cc entry w = w\<lparr>
     core := frame_regs (irq_ram cc w) (load32 (irq_ram cc w) (current_thread (timer_handler (sc w)))),
     eflags := flags_after cc (flags_after cc (inc_flags (irq_stores w (SCREEN + 3840)) (eflags w))),
     ram := irq_ram cc w, sc := timer_handler (sc w), wires := EOI_master (cli (wires w))\<rparr>"
  by (simp add: timer_interrupt_def irq00_handler_def Let_def lret_restore_all load_esp_def call_c_def
      save_esp_def incb_gs_def save_all_eq enter_gate_eq irq_ram_def irq_stores_def irq_frame_def)

section \<open>A thread put aside\<close>

text \<open>
  Thread \<^verbatim>\<open>t\<close>, with the stack region \<^verbatim>\<open>A\<close>, is stopped in \<^verbatim>\<open>m\<close>: the stack pointer in its structure
  leads to a frame, in its region, that restores the registers \<^verbatim>\<open>r\<close>.
\<close>

definition stopped :: "u32 set \<Rightarrow> bmem \<Rightarrow> u32 \<Rightarrow> regs \<Rightarrow> bool" where
  "stopped A m t r \<longleftrightarrow> fits A (load32 m t) 56 \<and> frame_regs m (load32 m t) = r"

lemma stopped_cong:
  assumes "stopped A m t r" and "\<And>x. x \<in> A \<or> x \<in> word_at t \<Longrightarrow> m' x = m x"
  shows "stopped A m' t r"
proof -
  have "load32 m' t = load32 m t"
    by (rule load32_word_at) (use assms(2) in blast)
  moreover from assms(1) have "frame_regs m' (load32 m t) = frame_regs m (load32 m t)"
    unfolding stopped_def using assms(2) by (intro frame_regs_cong) blast+
  ultimately show ?thesis
    using assms(1) by (simp add: stopped_def)
qed

text \<open>Calls that write below the frame, and only in the region, keep the thread stopped.\<close>

lemma stopped_below:
  assumes "frames_within n cc" and "n \<le> 268435456"
    and "fits A (sp - of_nat n) n" and "word_at t \<inter> A = {}"
    and "load32 m t = sp" "fits A sp 56"
  shows "stopped A (below cc sp m) t (frame_regs m sp)"
proof -
  have "load32 (below cc sp m) t = load32 m t"
    by (rule load32_word_at) (use below_outside [OF assms(1,3)] assms(4) in blast)
  moreover have "frame_regs (below cc sp m) sp = frame_regs m sp"
    by (rule frame_regs_cong [of "span sp 56"])
      (use assms(2) in \<open>simp_all add: fits_span below_span [OF assms(1), of 56]\<close>)
  ultimately show ?thesis
    using assms(5,6) by (simp add: stopped_def)
qed

lemma irq_stores_frame:
  fixes w :: machine
  defines "c \<equiv> current_thread (sc w)" and "sp \<equiv> ESP (core w) - 60"
  assumes "fits A sp 60" and "word_at c \<inter> A = {}" and "SCREEN + 3840 \<notin> A \<union> word_at c"
  shows "load32 (irq_stores w) c = sp" and "frame_regs (irq_stores w) sp = (core w)\<lparr>ESP := ESP (core w) - 4\<rparr>"
    and "x \<notin> A \<Longrightarrow> x \<notin> word_at c \<Longrightarrow> irq_stores w x = (if x = SCREEN + 3840 then ram w x + 1 else ram w x)"
proof -
  have eq: "irq_stores w x = (if x = SCREEN + 3840 then store32 (irq_frame w) c sp x + 1
      else store32 (irq_frame w) c sp x)" for x
    by (simp add: irq_stores_def c_def sp_def Let_def)
  have "load32 (irq_stores w) c = load32 (store32 (irq_frame w) c sp) c"
    by (rule load32_word_at) (use assms(5) in \<open>auto simp: eq\<close>)
  then show "load32 (irq_stores w) c = sp" by simp
  have "frame_regs (irq_stores w) sp = frame_regs (irq_frame w) sp"
  proof (rule frame_regs_cong)
    show "fits A sp 56"
      using fits_part [OF assms(3), of 0 56] by simp
    show "irq_stores w x = irq_frame w x" if "x \<in> A" for x
      using that assms(4,5) store32_outside [of x c] by (auto simp: eq)
  qed
  then show "frame_regs (irq_stores w) sp = (core w)\<lparr>ESP := ESP (core w) - 4\<rparr>"
    by (simp add: sp_def irq_frame_regs)
  show "irq_stores w x = (if x = SCREEN + 3840 then ram w x + 1 else ram w x)"
    if "x \<notin> A" "x \<notin> word_at c"
    using that irq_frame_outside [of A w x] assms(3) store32_outside [OF that(2), of "irq_frame w" sp]
    by (auto simp: eq sp_def)
qed

lemma irq_ram_stopped:
  fixes w :: machine
  defines "c \<equiv> current_thread (sc w)"
  assumes "frames_within n cc" and "n \<le> 268435456" and "fits A (ESP (core w) - of_nat (60 + n)) (60 + n)"
    and "word_at c \<inter> A = {}" and "SCREEN + 3840 \<notin> A \<union> word_at c"
  shows "stopped A (irq_ram cc w) c ((core w)\<lparr>ESP := ESP (core w) - 4\<rparr>)"
    and "x \<notin> A \<Longrightarrow> x \<notin> word_at c \<Longrightarrow> irq_ram cc w x = (if x = SCREEN + 3840 then ram w x + 1 else ram w x)"
proof -
  let ?sp = "ESP (core w) - 60"
  have part: "fits A ?sp 60" "fits A (?sp - of_nat n) n"
    using fits_part [OF assms(4), of n 60] fits_part [OF assms(4), of 0 n] by (simp_all add: algebra_simps)
  then have frame: "fits A ?sp 56"
    using fits_part [of A ?sp 60 0 56] by simp
  note st = irq_stores_frame [of A w, folded c_def, OF part(1) assms(5,6)]
  let ?m = "below cc ?sp (irq_stores w)"
  have once: "stopped A ?m c ((core w)\<lparr>ESP := ESP (core w) - 4\<rparr>)"
    using stopped_below [OF assms(2,3) part(2) assms(5) st(1) frame] st(2) by simp
  have "load32 ?m c = load32 (irq_stores w) c"
    by (rule load32_word_at) (use below_outside [OF assms(2) part(2)] assms(5) in blast)
  then have l: "load32 ?m c = ?sp"
    by (simp add: st(1))
  show "stopped A (irq_ram cc w) c ((core w)\<lparr>ESP := ESP (core w) - 4\<rparr>)"
    unfolding irq_ram_def using stopped_below [OF assms(2,3) part(2) assms(5) l frame] once l
    by (simp add: stopped_def)
  show "irq_ram cc w x = (if x = SCREEN + 3840 then ram w x + 1 else ram w x)" if "x \<notin> A" "x \<notin> word_at c"
    using that st(3) below_outside [OF assms(2) part(2)] by (simp add: irq_ram_def)
qed

lemma irq_ram_frame:
  fixes w :: machine
  defines "c \<equiv> current_thread (sc w)"
  assumes "frames_within n cc" and "n \<le> 268435456" and "fits A (ESP (core w) - 60) 60"
    and "word_at c \<inter> A = {}" and "SCREEN + 3840 \<notin> A" and "x \<in> span (ESP (core w) - 60) 60"
  shows "irq_ram cc w x = irq_frame w x"
proof -
  have "x \<in> A"
    using fits_span_subset [OF assms(4)] assms(7) by blast
  then have "irq_stores w x = irq_frame w x"
    using assms(5,6) store32_outside [of x c "irq_frame w"] by (auto simp: irq_stores_def Let_def c_def)
  then show ?thesis
    using below_span [OF assms(2) _ assms(7)] assms(3) by (simp add: irq_ram_def)
qed

section \<open>yield\<close>

text \<open>The return address becomes a far one; the frame below it is the interrupt's.\<close>

definition yield_frame :: "machine \<Rightarrow> bmem" where
  "yield_frame w = store_frame (store32 (store32 (store32 (ram w) (ESP (core w) - 8) (EAX (core w)))
     (ESP (core w) - 4) (stack_top w)) (ESP (core w)) 0x20)
     (ESP (core w) - 52) ((core w)\<lparr>ESP := ESP (core w) - 4\<rparr>)"

definition yield_ram :: "compiled \<Rightarrow> machine \<Rightarrow> bmem" where
  "yield_ram cc w =
     below cc (ESP (core w) - 52) (store32 (yield_frame w) (current_thread (sc w)) (ESP (core w) - 52))"

text \<open>The registers the caller finds when it runs again: those of its call, returned.\<close>

definition returned :: "machine \<Rightarrow> regs" where
  "returned w = (core w)\<lparr>ESP := ESP (core w) + 4, EIP := stack_top w, CS := 0x20\<rparr>"

lemma yield_eq:
  "yield cc w = w\<lparr>
     core := frame_regs (yield_ram cc w) (load32 (yield_ram cc w) (current_thread (yield_thread (sc w)))),
     eflags := flags_after cc (eflags w), ram := yield_ram cc w, sc := yield_thread (sc w),
     wires := sti (wires w)\<rparr>"
  by (simp add: yield_def Let_def lret_restore_all load_esp_def call_c_def popl_def drop_top_def
      save_esp_def save_all_eq pushl_def yield_ram_def yield_frame_def stack_top_def)

lemma yield_frame_regs: "frame_regs (yield_frame w) (ESP (core w) - 52) = returned w"
  by (simp add: yield_frame_def frame_regs_store_frame returned_def)

lemma yield_frame_outside:
  assumes "fits A (ESP (core w) - 52) 56" and "x \<notin> A"
  shows "yield_frame w x = ram w x"
proof -
  let ?sp = "ESP (core w) - 52"
  have out: "x \<notin> word_at (ESP (core w) - k)" if "k = 0 \<or> k = 4 \<or> k = 8" for k
    using word_at_fits [OF assms(1), of "52 - k"] that assms(2) by auto
  have "fits A ?sp 48"
    using fits_part [OF assms(1), of 0 48] by simp
  then show ?thesis
    using assms(2) out [of 0] by (simp add: yield_frame_def store_frame_outside store32_outside out)
qed

lemma unat_span_up:
  "x \<in> span (a + k) n \<Longrightarrow> unat k + n \<le> 4294967296 \<Longrightarrow> unat (x - a) = unat (x - (a + k)) + unat k"
proof -
  assume "x \<in> span (a + k) n" "unat k + n \<le> 4294967296"
  then have "unat (x - (a + k) + of_nat (unat k)) = unat (x - (a + k)) + unat k"
    by (intro unat_add_no_wrap) (simp add: span_def)
  then show ?thesis by simp
qed

text \<open>What lies above the return address is untouched.\<close>

lemma yield_ram_above:
  fixes w :: machine
  assumes "frames_within n cc" and "n \<le> 268435456" and "x \<in> span (ESP (core w) + 4) k" and "k \<le> 0x20000"
    and "x \<notin> word_at (current_thread (sc w))"
  shows "yield_ram cc w x = ram w x"
proof -
  let ?sp = "ESP (core w) - 52"
  have x: "x \<in> span (?sp + 56) k"
    using assms(3) by (simp add: add.commute)
  have up: "unat (x - ?sp) = unat (x - (?sp + 56)) + 56"
    using unat_span_up [OF x] assms(4) by simp
  have "x \<in> span ?sp (k + 56)" "x \<notin> span ?sp 56"
    using x up by (simp_all add: span_def)
  then show ?thesis
    using assms(1,2,4,5) below_span [of n cc "k + 56" x ?sp] yield_frame_outside [of "span ?sp 56" w x]
    by (simp add: yield_ram_def store32_outside fits_span)
qed

lemma yield_ram_stopped:
  fixes w :: machine
  defines "c \<equiv> current_thread (sc w)"
  assumes "frames_within n cc" and "n \<le> 268435456" and "fits A (ESP (core w) - of_nat (52 + n)) (56 + n)"
    and "word_at c \<inter> A = {}"
  shows "stopped A (yield_ram cc w) c (returned w)"
    and "x \<notin> A \<Longrightarrow> x \<notin> word_at c \<Longrightarrow> yield_ram cc w x = ram w x"
proof -
  let ?sp = "ESP (core w) - 52" and ?m = "store32 (yield_frame w) c (ESP (core w) - 52)"
  have part: "fits A ?sp 56" "fits A (?sp - of_nat n) n"
    using fits_part [OF assms(4), of n 56] fits_part [OF assms(4), of 0 n] by (simp_all add: algebra_simps)
  have "frame_regs ?m ?sp = frame_regs (yield_frame w) ?sp"
    by (rule frame_regs_cong [OF part(1)]) (use assms(5) store32_outside in blast)
  then show "stopped A (yield_ram cc w) c (returned w)"
    using stopped_below [OF assms(2,3) part(2) assms(5) _ part(1), of ?m]
    by (simp add: yield_ram_def c_def yield_frame_regs)
  show "yield_ram cc w x = ram w x" if "x \<notin> A" "x \<notin> word_at c"
    using that below_outside [OF assms(2) part(2) that(1)] yield_frame_outside [OF part(1) that(1)]
    by (simp add: yield_ram_def store32_outside flip: c_def)
qed

section \<open>The system call's return\<close>

text \<open>The memory \<^verbatim>\<open>sys_enter\<close> leaves: the interrupt's frame and the six arguments.\<close>

lemma sys_enter_eq:
  "sys_enter (enter_gate sel entry w) = w\<lparr>
     core := (core w)\<lparr>ESP := ESP (core w) - 84, CS := sel, EIP := entry\<rparr>,
     ram := store32 (store32 (store32 (store32 (store32 (store32 (irq_frame w)
       (ESP (core w) - 64) (EDI (core w))) (ESP (core w) - 68) (ESI (core w))) (ESP (core w) - 72) (EDX (core w)))
       (ESP (core w) - 76) (ECX (core w))) (ESP (core w) - 80) (EBX (core w))) (ESP (core w) - 84) (EAX (core w)),
     wires := sti (wires w)\<rparr>"
  by (simp add: sys_enter_def Let_def save_all_eq enter_gate_eq pushl_def irq_frame_def sti_def cli_def)

lemma store32_above: "x \<in> span b n \<Longrightarrow> 4 \<le> unat k \<Longrightarrow> n + unat k \<le> 4294967296 \<Longrightarrow> store32 m (b - k) v x = m x"
proof (rule store32_outside)
  assume x: "x \<in> span b n" and k: "4 \<le> unat k" "n + unat k \<le> 4294967296"
  have "unat (x - b + k) = unat (x - b) + unat k"
    using x k unat_add_no_wrap [of "x - b" "unat k"] by (simp add: span_def)
  then have "4 \<le> unat (x - (b - k))"
    using k(1) by (simp add: algebra_simps)
  then show "x \<notin> word_at (b - k)"
    by (auto simp: word_at_def)
qed

lemma sys_enter_ram:
  fixes w :: machine and sel :: u16 and entry :: u32
  defines "v \<equiv> sys_enter (enter_gate sel entry w)"
  shows "x \<in> span (ESP (core w) - 60) 60 \<Longrightarrow> ram v x = irq_frame w x"
    and "fits A (ESP (core w) - 84) 84 \<Longrightarrow> x \<notin> A \<Longrightarrow> ram v x = ram w x"
proof -
  assume "x \<in> span (ESP (core w) - 60) 60"
  from store32_above [OF this, of 4] store32_above [OF this, of 8] store32_above [OF this, of 12]
    store32_above [OF this, of 16] store32_above [OF this, of 20] store32_above [OF this, of 24]
  show "ram v x = irq_frame w x"
    by (simp add: v_def sys_enter_eq)
next
  assume A: "fits A (ESP (core w) - 84) 84" and x: "x \<notin> A"
  have out: "x \<notin> word_at (ESP (core w) - k)" if "k \<in> {64, 68, 72, 76, 80, 84}" for k
    using word_at_fits [OF A, of "84 - k"] that x by auto
  have "fits A (ESP (core w) - 60) 60"
    using fits_part [OF A, of 24 60] by simp
  then show "ram v x = ram w x"
    using irq_frame_outside [OF _ x] out by (simp add: v_def sys_enter_eq store32_outside)
qed

text \<open>\<^verbatim>\<open>sys_exit\<close> from a stack whose frame words are those of an entry.\<close>

lemma sys_exit_eq:
  fixes w :: machine
  defines "sp \<equiv> ESP (core w) + 0x18"
  shows "core (sys_exit w) = (frame_regs (ram w) sp)\<lparr>ESP := sp + 60, EAX := load32 (ram w) (sp + 48),
      EBX := load32 (ram w) (sp + 52), ECX := load32 (ram w) (sp + 56)\<rparr>"
    and "eflags (sys_exit w) = load32 (ram w) (sp + 56)"
    and "wires (sys_exit w) = (wires w)\<lparr>int_flag := bit (load32 (ram w) (sp + 56)) IF_BIT\<rparr>"
    and "sc (sys_exit w) = sc w"
    and "ram (sys_exit w) = store32 (store32 (store32 (ram w) (sp + 52) (load32 (ram w) (sp + 48)))
      (sp + 56) (load32 (ram w) (sp + 52))) (sp + 48) (load32 (ram w) (sp + 56))"
  unfolding sp_def
  by (simp_all add: sys_exit_def Let_def restore_all_eq popl_def drop_top_def stack_top_def popf_def
      set_flags_def lret_def frame_regs_def)

text \<open>The registers and flags after a system call by \<^verbatim>\<open>w\<close>: three registers hold the frame's words.\<close>

definition after_syscall :: "machine \<Rightarrow> regs" where
  "after_syscall w = (core w)\<lparr>EAX := EIP (core w), EBX := ucast (CS (core w)), ECX := flags_word w\<rparr>"

lemma irq_frame_words:
  "load32 (irq_frame w) (ESP (core w) - 4) = flags_word w"
  "load32 (irq_frame w) (ESP (core w) - 8) = ucast (CS (core w))"
  "load32 (irq_frame w) (ESP (core w) - 12) = EIP (core w)"
  by (simp_all add: irq_frame_def store_frame_def)

lemma sys_exit_from_frame:
  assumes "ESP (core v) = ESP (core w) - 84"
    and same: "\<And>x. x \<in> span (ESP (core w) - 60) 60 \<Longrightarrow> ram v x = irq_frame w x"
  shows "core (sys_exit v) = after_syscall w" and "eflags (sys_exit v) = flags_word w"
    and "int_flag (wires (sys_exit v)) = int_flag (wires w)" and "sc (sys_exit v) = sc v"
proof -
  let ?b = "ESP (core w) - 60"
  have l: "load32 (ram v) (ESP (core w) - k) = load32 (irq_frame w) (ESP (core w) - k)"
    if "k = 4 \<or> k = 8 \<or> k = 12" for k
    using load32_fits [OF fits_span [of 60 ?b], of "unat (60 - k)" "ram v" "irq_frame w"] same that by auto
  have "fits (span ?b 60) ?b 56"
    using fits_part [OF fits_span [of 60 ?b], of 0 56] by simp
  then have "frame_regs (ram v) ?b = (core w)\<lparr>ESP := ESP (core w) - 4\<rparr>"
    using frame_regs_cong [of "span ?b 60" ?b "ram v" "irq_frame w"] same by (simp add: irq_frame_regs)
  then show "core (sys_exit v) = after_syscall w" "eflags (sys_exit v) = flags_word w"
    "sc (sys_exit v) = sc v"
    using assms(1) by (simp_all add: sys_exit_eq l irq_frame_words after_syscall_def)
  have "bit (flags_word w) IF_BIT = int_flag (wires w)"
    by (simp add: flags_word_def layout bit_simps)
  then show "int_flag (wires (sys_exit v)) = int_flag (wires w)"
    using assms(1) by (simp add: sys_exit_eq l irq_frame_words)
qed

end
