(* ===== verification/Tasks.thy ===== *)
theory Tasks
  imports Entry
begin

text \<open>
  What the entry points promise: a set of tasks, each with its registers, one of them running.
  \<^verbatim>\<open>runs_tasks\<close> relates a machine to such a state; the timer interrupt and \<^verbatim>\<open>yield\<close> refine the
  operations of the specification.
\<close>

section \<open>Specification\<close>

text \<open>\<^verbatim>\<open>live\<close> are the registers of the running task, \<^verbatim>\<open>ctx\<close> those of the tasks that wait.\<close>

record tasks =
  running :: u32
  waiting :: "u32 list"
  blocked :: "u32 set"
  live :: regs
  ctx :: "u32 \<Rightarrow> regs"
  clock :: u32

definition members :: "tasks \<Rightarrow> u32 set" where
  "members T = insert (running T) (set (waiting T) \<union> blocked T)"

definition task_regs :: "tasks \<Rightarrow> u32 \<Rightarrow> regs" where
  "task_regs T t = (if t = running T then live T else ctx T t)"

definition tasks_ok :: "tasks \<Rightarrow> bool" where
  "tasks_ok T \<longleftrightarrow> distinct (running T # waiting T) \<and> finite (blocked T)
     \<and> blocked T \<inter> insert (running T) (set (waiting T)) = {}"

text \<open>
  A timer interrupt: the running task keeps its registers but for a word of its stack; at the end
  of a time slice it goes behind the tasks that wait, and the first of them runs.
\<close>

definition interrupted :: "regs \<Rightarrow> regs" where
  "interrupted r = r\<lparr>ESP := ESP r - 4\<rparr>"

definition interrupt_tasks :: "tasks \<Rightarrow> tasks" where
  "interrupt_tasks T =
     (let C = (ctx T)(running T := interrupted (live T)); q = waiting T @ [running T];
          T = T\<lparr>ctx := C, clock := clock T + 1\<rparr>;
          T = (if clock T mod 20 = 0 then T\<lparr>running := hd q, waiting := tl q\<rparr> else T)
      in T\<lparr>live := C (running T)\<rparr>)"

text \<open>A yield: the running task keeps the registers of its returned call and is blocked.\<close>

definition far_returned :: "u32 \<Rightarrow> regs \<Rightarrow> regs" where
  "far_returned ret r = r\<lparr>ESP := ESP r + 4, EIP := ret, CS := 0x20\<rparr>"

definition yield_tasks :: "u32 \<Rightarrow> tasks \<Rightarrow> tasks" where
  "yield_tasks ret T =
     (let t = hd (waiting T)
      in T\<lparr>running := t, waiting := tl (waiting T), blocked := insert (running T) (blocked T),
           live := ctx T t, ctx := (ctx T)(running T := far_returned ret (live T))\<rparr>)"

text \<open>What can happen: the timer, an instruction of the running task, its yield, its release of another task.\<close>

datatype action = Interrupt | Own regs | Yield u32 | Wake u32

primrec act :: "action \<Rightarrow> tasks \<Rightarrow> tasks" where
  "act Interrupt T = interrupt_tasks T"
| "act (Own r) T = T\<lparr>live := r\<rparr>"
| "act (Yield ret) T = yield_tasks ret T"
| "act (Wake u) T = T\<lparr>waiting := waiting T @ [u], blocked := blocked T - {u}\<rparr>"

primrec possible :: "action \<Rightarrow> tasks \<Rightarrow> bool" where
  "possible Interrupt T \<longleftrightarrow> True"
| "possible (Own r) T \<longleftrightarrow> True"
| "possible (Yield ret) T \<longleftrightarrow> waiting T \<noteq> []"
| "possible (Wake u) T \<longleftrightarrow> u \<in> blocked T"

lemma members_act: "possible a T \<Longrightarrow> members (act a T) = members T"
  by (cases a; cases "waiting T")
    (auto simp: members_def interrupt_tasks_def yield_tasks_def Let_def)

lemma tasks_ok_act: "possible a T \<Longrightarrow> tasks_ok T \<Longrightarrow> tasks_ok (act a T)"
  by (cases a; cases "waiting T")
    (auto simp: tasks_ok_def interrupt_tasks_def yield_tasks_def Let_def)

text \<open>An interrupt changes the registers of the running task only, and those by one word of stack.\<close>

lemma task_regs_interrupt:
  assumes "tasks_ok T" and "t \<in> members T"
  shows "task_regs (interrupt_tasks T) t =
    (if t = running T then interrupted (live T) else task_regs T t)"
  by (cases "waiting T")
    (use assms in \<open>auto simp: task_regs_def interrupt_tasks_def members_def tasks_ok_def Let_def\<close>)

section \<open>The machine that runs tasks\<close>

text \<open>Where the stacks are: regions apart from each other, from the structures and the screen.\<close>

definition screen_cells :: "u32 set" where
  "screen_cells = {x. unat (x - SCREEN) < 0x10000}"

definition separate :: "(u32 \<Rightarrow> u32 set) \<Rightarrow> u32 set \<Rightarrow> bool" where
  "separate S U \<longleftrightarrow> (\<forall>t\<in>U. (S t \<union> word_at t) \<inter> screen_cells = {}
     \<and> (\<forall>u\<in>U. S t \<inter> word_at u = {} \<and> (t \<noteq> u \<longrightarrow> S t \<inter> S u = {} \<and> word_at t \<inter> word_at u = {})))"

definition runs_tasks :: "(u32 \<Rightarrow> u32 set) \<Rightarrow> machine \<Rightarrow> tasks \<Rightarrow> bool" where
  "runs_tasks S w T \<longleftrightarrow> schedules (sc w) (running T) (waiting T) \<and> ticks (sc w) = clock T
     \<and> core w = live T \<and> tasks_ok T
     \<and> (\<forall>t\<in>set (waiting T) \<union> blocked T. stopped (S t) (ram w) t (ctx T t))"

lemma screen_cell: "unat off < 0x10000 \<Longrightarrow> SCREEN + off \<in> screen_cells"
  by (simp add: screen_cells_def)

lemma runs_tasks_current:
  "runs_tasks S w T \<Longrightarrow> current_thread (sc w) = running T \<and> core w = live T \<and> tasks_ok T"
  by (simp add: runs_tasks_def schedules_def)

text \<open>Memory that keeps the stacks and structures of the other tasks keeps them stopped.\<close>

lemma others_stopped:
  assumes "runs_tasks S w T" and "t \<in> members T" and "t \<noteq> running T"
    and "\<And>x. x \<in> S t \<Longrightarrow> m x = ram w x" and "\<And>x. x \<in> word_at t \<Longrightarrow> m x = ram w x"
  shows "stopped (S t) m t (ctx T t)"
  by (rule stopped_cong [of "S t" "ram w"]) (use assms in \<open>auto simp: runs_tasks_def members_def\<close>)

lemma separate_parts:
  assumes "separate S U" and "t \<in> U" and "u \<in> U"
  shows "x \<in> S t \<Longrightarrow> x \<notin> word_at u \<and> x \<notin> screen_cells" and "x \<in> word_at t \<Longrightarrow> x \<notin> S u \<and> x \<notin> screen_cells"
    and "t \<noteq> u \<Longrightarrow> x \<in> S t \<Longrightarrow> x \<notin> S u" and "t \<noteq> u \<Longrightarrow> x \<in> word_at t \<Longrightarrow> x \<notin> word_at u"
  using assms unfolding separate_def by blast+

section \<open>The timer interrupt\<close>

lemma timer_handler_schedules:
  assumes "schedules s c q"
  shows "schedules (timer_handler s) (if (ticks s + 1) mod 20 = 0 then hd (q @ [c]) else c)
      (if (ticks s + 1) mod 20 = 0 then tl (q @ [c]) else q)"
  using timer_switch_schedules [OF assms] assms timer_handler_idle [of s] schedules_ticks
  by (auto simp: next_thread_def next_queue_def)

lemma ticks_timer_handler [simp]: "ticks (timer_handler s) = ticks s + 1"
  by (simp add: timer_handler_def Let_def)

text \<open>What the interrupt leaves in memory: all other stacks and structures, and the clock cell.\<close>

lemma timer_interrupt_ram:
  assumes run: "runs_tasks S w T" and sep: "separate S U" "members T \<subseteq> U"
    and cc: "frames_within n cc" "n \<le> 268435456"
    and space: "fits (S (running T)) (ESP (live T) - of_nat (60 + n)) (60 + n)"
  shows "stopped (S (running T)) (irq_ram cc w) (running T) (interrupted (live T))"
    and "x \<notin> S (running T) \<Longrightarrow> x \<notin> word_at (running T) \<Longrightarrow>
      irq_ram cc w x = (if x = SCREEN + 3840 then ram w x + 1 else ram w x)"
    and "t \<in> U \<Longrightarrow> t \<noteq> running T \<Longrightarrow> x \<in> S t \<or> x \<in> word_at t \<Longrightarrow> irq_ram cc w x = ram w x"
proof -
  let ?c = "running T"
  have cur: "current_thread (sc w) = ?c" "core w = live T"
    using runs_tasks_current [OF run] by simp_all
  have screen: "SCREEN + 3840 \<in> screen_cells"
    by (rule screen_cell) simp
  have c: "?c \<in> U"
    using sep(2) by (auto simp: members_def)
  have "word_at ?c \<inter> S ?c = {}" "SCREEN + 3840 \<notin> S ?c \<union> word_at ?c"
    using separate_parts(1,2) [OF sep(1) c c] screen by blast+
  note irq = irq_ram_stopped [of n cc "S ?c" w, unfolded cur, OF cc space this]
  show "stopped (S ?c) (irq_ram cc w) ?c (interrupted (live T))"
    using irq(1) by (simp add: interrupted_def)
  show frame: "x \<notin> S ?c \<Longrightarrow> x \<notin> word_at ?c \<Longrightarrow>
      irq_ram cc w x = (if x = SCREEN + 3840 then ram w x + 1 else ram w x)" for x
    by (rule irq(2))
  show "irq_ram cc w x = ram w x" if "t \<in> U" "t \<noteq> ?c" "x \<in> S t \<or> x \<in> word_at t"
  proof -
    have "x \<notin> S ?c \<and> x \<notin> word_at ?c \<and> x \<notin> screen_cells"
      using separate_parts [OF sep(1) that(1) c] that(2,3) by blast
    then show ?thesis
      using frame [of x] screen by metis
  qed
qed

lemma timer_interrupt_step:
  assumes run: "runs_tasks S w T" and sep: "separate S U" "members T \<subseteq> U"
    and cc: "frames_within n cc" "n \<le> 268435456"
    and space: "fits (S (running T)) (ESP (live T) - of_nat (60 + n)) (60 + n)"
  shows "runs_tasks S (timer_interrupt cc entry w) (interrupt_tasks T)"
proof -
  let ?c = "running T" and ?w = "timer_interrupt cc entry w" and ?m = "irq_ram cc w"
  let ?s = "timer_handler (sc w)" and ?C = "(ctx T)(running T := interrupted (live T))"
  have sched: "schedules (sc w) ?c (waiting T)" "ticks (sc w) = clock T" and ok: "tasks_ok T"
    using run by (simp_all add: runs_tasks_def)
  note irq = timer_interrupt_ram [OF run sep cc space]
  have "stopped (S t) ?m t (ctx T t)" if "t \<in> members T" "t \<noteq> ?c" for t
    by (rule others_stopped [OF run that]) (use irq(3) [of t] that sep(2) in blast)+
  with irq(1) have all: "stopped (S t) ?m t (?C t)" if "t \<in> members T" for t
    using that by simp
  note sched' = timer_handler_schedules [OF sched(1), unfolded sched(2)]
  have "current_thread ?s \<in> members T"
    using sched' by (cases "waiting T") (auto simp: schedules_def members_def)
  from all [OF this] have regs: "core ?w = ?C (current_thread ?s)"
    by (simp add: timer_interrupt_eq stopped_def)
  have ok': "tasks_ok (interrupt_tasks T)" and mem: "members (interrupt_tasks T) = members T"
    using tasks_ok_act [OF _ ok, of Interrupt] members_act [of Interrupt T] by simp_all
  have "ctx (interrupt_tasks T) = ?C"
    by (simp add: interrupt_tasks_def Let_def)
  moreover have "stopped (S t) ?m t (ctx (interrupt_tasks T) t)"
    if "t \<in> set (waiting (interrupt_tasks T)) \<union> blocked (interrupt_tasks T)" for t
  proof -
    have "t \<in> members (interrupt_tasks T)"
      using that by (auto simp: members_def)
    then show ?thesis
      using all [of t] mem calculation by simp
  qed
  moreover have "schedules ?s (running (interrupt_tasks T)) (waiting (interrupt_tasks T))"
    "core ?w = live (interrupt_tasks T)"
    using sched' regs by (auto simp: interrupt_tasks_def Let_def schedules_def split: if_splits)
  ultimately show ?thesis
    using ok' sched(2) by (simp add: runs_tasks_def timer_interrupt_eq interrupt_tasks_def Let_def)
qed

section \<open>yield\<close>

lemma ticks_yield_thread [simp]: "ticks (yield_thread s) = ticks s"
  by (simp add: yield_thread_def Let_def)

lemma yield_memory:
  assumes run: "runs_tasks S w T" and sep: "separate S U" "members T \<subseteq> U"
    and cc: "frames_within n cc" "n \<le> 268435456"
    and space: "fits (S (running T)) (ESP (live T) - of_nat (52 + n)) (56 + n)"
  shows "stopped (S (running T)) (yield_ram cc w) (running T) (far_returned (stack_top w) (live T))"
    and "x \<notin> S (running T) \<Longrightarrow> x \<notin> word_at (running T) \<Longrightarrow> yield_ram cc w x = ram w x"
    and "t \<in> U \<Longrightarrow> t \<noteq> running T \<Longrightarrow> x \<in> S t \<or> x \<in> word_at t \<Longrightarrow> yield_ram cc w x = ram w x"
proof -
  let ?c = "running T"
  have cur: "current_thread (sc w) = ?c" "core w = live T"
    using runs_tasks_current [OF run] by simp_all
  have c: "?c \<in> U"
    using sep(2) by (auto simp: members_def)
  have "word_at ?c \<inter> S ?c = {}"
    using separate_parts(1) [OF sep(1) c c] by blast
  note y = yield_ram_stopped [of n cc "S ?c" w, unfolded cur, OF cc space this]
  show "stopped (S ?c) (yield_ram cc w) ?c (far_returned (stack_top w) (live T))"
    using y(1) by (simp add: returned_def far_returned_def cur)
  show "x \<notin> S ?c \<Longrightarrow> x \<notin> word_at ?c \<Longrightarrow> yield_ram cc w x = ram w x"
    by (rule y(2))
  show "t \<in> U \<Longrightarrow> t \<noteq> ?c \<Longrightarrow> x \<in> S t \<or> x \<in> word_at t \<Longrightarrow> yield_ram cc w x = ram w x"
    using separate_parts [OF sep(1) _ c] y(2) by blast
qed

lemma yield_step:
  assumes run: "runs_tasks S w T" and sep: "separate S U" "members T \<subseteq> U" and "waiting T \<noteq> []"
    and cc: "frames_within n cc" "n \<le> 268435456"
    and space: "fits (S (running T)) (ESP (live T) - of_nat (52 + n)) (56 + n)"
  shows "runs_tasks S (yield cc w) (yield_tasks (stack_top w) T)"
proof -
  let ?c = "running T" and ?m = "yield_ram cc w"
  obtain t ts where q: "waiting T = t # ts"
    using assms(4) by (cases "waiting T") auto
  have sched: "schedules (sc w) ?c (t # ts)" "ticks (sc w) = clock T" and ok: "tasks_ok T"
    using run q by (simp_all add: runs_tasks_def)
  note y = yield_memory [OF run sep cc space]
  have "stopped (S u) ?m u (ctx T u)" if "u \<in> members T" "u \<noteq> ?c" for u
    by (rule others_stopped [OF run that]) (use y(3) [of u] that sep(2) in blast)+
  with y(1) have all: "stopped (S u) ?m u (((ctx T)(?c := far_returned (stack_top w) (live T))) u)"
    if "u \<in> members T" for u
    using that by simp
  have "schedules (yield_thread (sc w)) t ts"
    using sched(1) by (intro yield_switch) (simp add: schedules_def)
  moreover from this have "current_thread (yield_thread (sc w)) = t"
    by (simp add: schedules_def)
  moreover have "tasks_ok (yield_tasks (stack_top w) T)"
    using tasks_ok_act [OF _ ok, of "Yield (stack_top w)"] q by simp
  moreover have "t \<noteq> ?c" "t \<in> members T"
    using ok q by (auto simp: tasks_ok_def members_def)
  moreover from all [OF this(2)] this(1) have "frame_regs ?m (load32 ?m t) = ctx T t"
    by (simp add: stopped_def)
  ultimately show ?thesis
    using sched(2) all y(1) q by (auto simp: runs_tasks_def yield_tasks_def yield_eq members_def)
qed


section \<open>Executions\<close>

text \<open>
  A step of the running thread may change its own stack, its registers, the screen and anything
  outside the thread structures and the other stacks; of the scheduler's state it may change what
  leaves the ready queue as it is. A release puts one more thread at the end of the queue.
\<close>

definition own_memory :: "(u32 \<Rightarrow> u32 set) \<Rightarrow> u32 set \<Rightarrow> machine \<Rightarrow> machine \<Rightarrow> bool" where
  "own_memory S U w w' \<longleftrightarrow> (\<forall>t\<in>U. \<forall>x\<in>word_at t. ram w' x = ram w x)
     \<and> (\<forall>t\<in>U. t \<noteq> current_thread (sc w) \<longrightarrow> (\<forall>x\<in>S t. ram w' x = ram w x))"

definition own_step :: "(u32 \<Rightarrow> u32 set) \<Rightarrow> u32 set \<Rightarrow> machine \<Rightarrow> machine \<Rightarrow> bool" where
  "own_step S U w w' \<longleftrightarrow> own_memory S U w w' \<and> ticks (sc w') = ticks (sc w)
     \<and> (\<forall>q. schedules (sc w) (current_thread (sc w)) q \<longrightarrow> schedules (sc w') (current_thread (sc w)) q)"

definition wake_step :: "(u32 \<Rightarrow> u32 set) \<Rightarrow> u32 set \<Rightarrow> u32 \<Rightarrow> machine \<Rightarrow> machine \<Rightarrow> bool" where
  "wake_step S U u w w' \<longleftrightarrow> u \<in> U \<and> own_memory S U w w' \<and> core w' = core w \<and> ticks (sc w') = ticks (sc w)
     \<and> (\<exists>q. schedules (sc w) (current_thread (sc w)) q \<and> schedules (sc w') (current_thread (sc w)) (q @ [u]))"

text \<open>
  An interrupt needs the interrupt flag, an interrupt and a yield space on the running stack, and a
  yield another ready thread.
\<close>

inductive exec :: "(u32 \<Rightarrow> u32 set) \<Rightarrow> u32 set \<Rightarrow> compiled \<Rightarrow> nat \<Rightarrow> u32 \<Rightarrow> machine \<Rightarrow> action list \<Rightarrow> machine \<Rightarrow> bool"
  for S U cc n entry w0 where
  exec_start: "exec S U cc n entry w0 [] w0"
| exec_interrupt: "exec S U cc n entry w0 ls w \<Longrightarrow> int_flag (wires w) \<Longrightarrow>
    fits (S (current_thread (sc w))) (ESP (core w) - of_nat (60 + n)) (60 + n) \<Longrightarrow>
    exec S U cc n entry w0 (ls @ [Interrupt]) (timer_interrupt cc entry w)"
| exec_own: "exec S U cc n entry w0 ls w \<Longrightarrow> own_step S U w w' \<Longrightarrow>
    exec S U cc n entry w0 (ls @ [Own (core w')]) w'"
| exec_yield: "exec S U cc n entry w0 ls w \<Longrightarrow> READY_LIST (sc w) \<noteq> elem_of (current_thread (sc w)) \<Longrightarrow>
    fits (S (current_thread (sc w))) (ESP (core w) - of_nat (52 + n)) (56 + n) \<Longrightarrow>
    exec S U cc n entry w0 (ls @ [Yield (stack_top w)]) (yield cc w)"
| exec_wake: "exec S U cc n entry w0 ls w \<Longrightarrow> wake_step S U u w w' \<Longrightarrow>
    exec S U cc n entry w0 (ls @ [Wake u]) w'"

primrec all_possible :: "action list \<Rightarrow> tasks \<Rightarrow> bool" where
  "all_possible [] T \<longleftrightarrow> True"
| "all_possible (a # ls) T \<longleftrightarrow> possible a T \<and> all_possible ls (act a T)"

lemma all_possible_snoc:
  "all_possible (ls @ [a]) T \<longleftrightarrow> all_possible ls T \<and> possible a (fold act ls T)"
  by (induction ls arbitrary: T) auto

lemma members_acts: "all_possible ls T \<Longrightarrow> members (fold act ls T) = members T"
  by (induction ls arbitrary: T) (simp_all add: members_act)

lemma own_memory_stopped:
  assumes "runs_tasks S w T" and "own_memory S (members T) w w'" and "t \<in> set (waiting T) \<union> blocked T"
  shows "stopped (S t) (ram w') t (ctx T t)"
proof -
  have t: "t \<in> members T" "t \<noteq> running T" "running T = current_thread (sc w)"
    using assms(1,3) runs_tasks_current [OF assms(1)] by (auto simp: members_def tasks_ok_def)
  show ?thesis
    by (rule others_stopped [OF assms(1) t(1,2)]) (use assms(2) t in \<open>auto simp: own_memory_def\<close>)
qed

lemma own_step_tasks:
  assumes "runs_tasks S w T" and "own_step S (members T) w w'"
  shows "runs_tasks S w' (act (Own (core w')) T)"
  using assms own_memory_stopped [OF assms(1), of w'] runs_tasks_current [OF assms(1)]
  by (auto simp: runs_tasks_def own_step_def tasks_ok_def)

lemma wake_step_tasks:
  assumes "runs_tasks S w T" and "wake_step S (members T) u w w'"
  shows "possible (Wake u) T" and "runs_tasks S w' (act (Wake u) T)"
proof -
  have cur: "current_thread (sc w) = running T" and ok: "tasks_ok T"
    using runs_tasks_current [OF assms(1)] by simp_all
  obtain q where "schedules (sc w) (running T) q" and q: "schedules (sc w') (running T) (q @ [u])"
    using assms(2) cur by (auto simp: wake_step_def)
  then have "waiting T = q"
    using assms(1) schedules_unique by (auto simp: runs_tasks_def)
  then show p: "possible (Wake u) T"
    using schedules_distinct [OF q] assms(2) by (auto simp: wake_step_def members_def)
  show "runs_tasks S w' (act (Wake u) T)"
    using tasks_ok_act [OF p ok] assms q \<open>waiting T = q\<close> p own_memory_stopped [OF assms(1), of w']
    by (auto simp: runs_tasks_def wake_step_def)
qed

lemma exec_runs:
  assumes "exec S U cc n entry w0 ls w"
    and "runs_tasks S w0 T" and "U = members T" and "separate S (members T)"
    and "frames_within n cc" and "n \<le> 268435456"
  shows "all_possible ls T \<and> runs_tasks S w (fold act ls T)"
  using assms
proof (induction rule: exec.induct)
  case exec_start
  then show ?case by simp
next
  case (exec_interrupt ls w)
  let ?T = "fold act ls T"
  have run: "all_possible ls T" "runs_tasks S w ?T"
    using exec_interrupt by blast+
  moreover have "fits (S (running ?T)) (ESP (live ?T) - of_nat (60 + n)) (60 + n)"
    using exec_interrupt.hyps runs_tasks_current [OF run(2)] by simp
  ultimately show ?case
    using timer_interrupt_step [OF run(2), of "members T"] exec_interrupt.prems
    by (simp add: all_possible_snoc members_acts)
next
  case (exec_own ls w w')
  then show ?case
    using own_step_tasks [of S w "fold act ls T" w'] by (simp add: all_possible_snoc members_acts)
next
  case (exec_yield ls w)
  let ?T = "fold act ls T"
  have run: "all_possible ls T" "runs_tasks S w ?T"
    using exec_yield by blast+
  moreover have "fits (S (running ?T)) (ESP (live ?T) - of_nat (52 + n)) (56 + n)"
    using exec_yield.hyps runs_tasks_current [OF run(2)] by simp
  moreover have "waiting ?T \<noteq> []"
    using exec_yield.hyps runs_tasks_current [OF run(2)] run(2)
    by (auto simp: runs_tasks_def schedules_def ready_queue_def)
  ultimately show ?case
    using yield_step [OF run(2), of "members T"] exec_yield.prems
    by (simp add: all_possible_snoc members_acts)
next
  case (exec_wake ls w u w')
  then show ?case
    using wake_step_tasks [of S w "fold act ls T" u w'] by (simp add: all_possible_snoc members_acts)
qed

end
