(* ===== verification/TaskRuns.thy ===== *)
theory TaskRuns
  imports Tasks
begin

text \<open>
  What follows from the refinement of \<^verbatim>\<open>Tasks\<close> for whole executions: a thread that was off the
  processor comes back with its registers and its stack, each timer interrupt costs a word of
  stack, and a system call that yields returns to its caller.
\<close>

section \<open>Off the processor\<close>

text \<open>Thread \<^verbatim>\<open>c\<close> does not run before the end of the actions.\<close>

definition away :: "u32 \<Rightarrow> action list \<Rightarrow> tasks \<Rightarrow> bool" where
  "away c ls T \<longleftrightarrow> (\<forall>k<length ls. running (fold act (take k ls) T) \<noteq> c)"

lemma away_snoc: "away c (ls @ [a]) T \<longleftrightarrow> away c ls T \<and> running (fold act ls T) \<noteq> c"
  by (auto simp: away_def less_Suc_eq)

lemma act_other:
  assumes "running T \<noteq> c"
  shows "ctx (act a T) c = ctx T c" and "running (act a T) = c \<Longrightarrow> live (act a T) = ctx T c"
  using assms by (cases a; auto simp: interrupt_tasks_def yield_tasks_def Let_def split: if_splits)+

lemma ctx_away: "away c ls T \<Longrightarrow> ctx (fold act ls T) c = ctx T c"
  by (induction ls rule: rev_induct) (simp_all add: away_snoc act_other)

lemma live_back:
  assumes "away c ls T" and "running T \<noteq> c" and "running (fold act ls T) = c"
  shows "live (fold act ls T) = ctx T c"
  using assms by (cases ls rule: rev_cases) (auto simp: away_snoc act_other(2) ctx_away)

lemma exec_keeps_stack:
  assumes "exec S U cc n entry w0 ls w"
    and "runs_tasks S w0 T" and "U = members T" and "separate S (members T)"
    and "frames_within n cc" and "n \<le> 268435456"
    and "away c ls T" and "c \<in> members T" and "x \<in> S c"
  shows "ram w x = ram w0 x"
  using assms
proof (induction rule: exec.induct)
  case exec_start
  then show ?case by simp
next
  case (exec_interrupt ls w)
  let ?T = "fold act ls T"
  have run: "all_possible ls T" "runs_tasks S w ?T" and c: "c \<noteq> running ?T" "ram w x = ram w0 x"
    using exec_runs [OF exec_interrupt.hyps(1)] exec_interrupt by (auto simp: away_snoc)
  have "fits (S (running ?T)) (ESP (live ?T) - of_nat (60 + n)) (60 + n)"
    using exec_interrupt.hyps runs_tasks_current [OF run(2)] by simp
  from timer_interrupt_ram(3) [OF run(2) _ _ _ _ this, of "members T" cc c x] show ?case
    using exec_interrupt.prems c members_acts [OF run(1)] by (simp add: timer_interrupt_eq)
next
  case (exec_own ls w w')
  then have "runs_tasks S w (fold act ls T)" "away c ls T" "c \<noteq> running (fold act ls T)"
    using exec_runs [OF exec_own.hyps(1)] by (auto simp: away_snoc)
  with exec_own show ?case
    using runs_tasks_current [of S w "fold act ls T"] by (simp add: own_step_def own_memory_def)
next
  case (exec_yield ls w)
  let ?T = "fold act ls T"
  have run: "all_possible ls T" "runs_tasks S w ?T" and c: "c \<noteq> running ?T" "ram w x = ram w0 x"
    using exec_runs [OF exec_yield.hyps(1)] exec_yield by (auto simp: away_snoc)
  have "fits (S (running ?T)) (ESP (live ?T) - of_nat (52 + n)) (56 + n)"
    using exec_yield.hyps runs_tasks_current [OF run(2)] by simp
  from yield_memory(3) [OF run(2) _ _ _ _ this, of "members T" cc c x] show ?case
    using exec_yield.prems c members_acts [OF run(1)] by (simp add: yield_eq)
next
  case (exec_wake ls w u w')
  then have "runs_tasks S w (fold act ls T)" "away c ls T" "c \<noteq> running (fold act ls T)"
    using exec_runs [OF exec_wake.hyps(1)] by (auto simp: away_snoc)
  with exec_wake show ?case
    using runs_tasks_current [of S w "fold act ls T"] by (simp add: wake_step_def own_memory_def)
qed

lemma comes_back:
  assumes "exec S (members T) cc n entry w0 ls w"
    and "runs_tasks S w0 T" and "separate S (members T)"
    and "frames_within n cc" and "n \<le> 268435456"
    and "away c ls T" and "c \<in> members T" and "c \<noteq> running T" and "current_thread (sc w) = c"
  shows "core w = ctx T c" and "\<forall>x\<in>S c. ram w x = ram w0 x"
proof -
  have "runs_tasks S w (fold act ls T)"
    using exec_runs [OF assms(1,2) refl assms(3-5)] by blast
  from runs_tasks_current [OF this] have "running (fold act ls T) = c" "core w = live (fold act ls T)"
    using assms(9) by simp_all
  with live_back [OF assms(6) assms(8) [symmetric]] show "core w = ctx T c"
    by (simp only:)
  show "\<forall>x\<in>S c. ram w x = ram w0 x"
    using exec_keeps_stack [OF assms(1,2) refl assms(3-7)] by blast
qed

section \<open>The stack an interrupt does not give back\<close>

definition stack_pointer :: "machine \<Rightarrow> u32 \<Rightarrow> u32" where
  "stack_pointer w t = (if t = current_thread (sc w) then ESP (core w) else load32 (ram w) t + 56)"

text \<open>The threads only loop: no instruction of their own moves the stack pointer, none yields.\<close>

primrec keeps_esp :: "action \<Rightarrow> tasks \<Rightarrow> bool" where
  "keeps_esp Interrupt T \<longleftrightarrow> True"
| "keeps_esp (Own r) T \<longleftrightarrow> ESP r = ESP (live T)"
| "keeps_esp (Yield ret) T \<longleftrightarrow> False"
| "keeps_esp (Wake u) T \<longleftrightarrow> True"

primrec steady :: "action list \<Rightarrow> tasks \<Rightarrow> bool" where
  "steady [] T \<longleftrightarrow> True"
| "steady (a # ls) T \<longleftrightarrow> keeps_esp a T \<and> steady ls (act a T)"

definition stack_total :: "tasks \<Rightarrow> u32" where
  "stack_total T = (\<Sum>t\<in>members T. ESP (task_regs T t))"

lemma stack_pointer_tasks:
  assumes "runs_tasks S w T" and "t \<in> members T"
  shows "stack_pointer w t = ESP (task_regs T t)"
proof (cases "t = running T")
  case True
  with runs_tasks_current [OF assms(1)] show ?thesis
    by (simp add: stack_pointer_def task_regs_def)
next
  case False
  then have st: "stopped (S t) (ram w) t (ctx T t)" and t: "t \<noteq> current_thread (sc w)"
    using assms by (auto simp: runs_tasks_def schedules_def members_def)
  from st have "ctx T t = frame_regs (ram w) (load32 (ram w) t)"
    by (simp add: stopped_def)
  then show ?thesis
    using False t by (simp add: stack_pointer_def task_regs_def)
qed

lemma stack_total_interrupt:
  assumes "tasks_ok T"
  shows "stack_total (interrupt_tasks T) = stack_total T - 4"
proof -
  have fin: "finite (members T)" and run: "running T \<in> members T"
    using assms by (simp_all add: members_def tasks_ok_def)
  have mem: "members (interrupt_tasks T) = members T"
    using members_act [of Interrupt T] by simp
  have "(\<Sum>t\<in>members T - {running T}. ESP (task_regs (interrupt_tasks T) t)) =
      (\<Sum>t\<in>members T - {running T}. ESP (task_regs T t))"
    by (rule sum.cong) (simp_all add: task_regs_interrupt [OF assms])
  moreover have "ESP (task_regs (interrupt_tasks T) (running T)) = ESP (task_regs T (running T)) - 4"
    unfolding task_regs_interrupt [OF assms run] by (simp add: interrupted_def task_regs_def)
  ultimately show ?thesis
    unfolding stack_total_def mem sum.remove [OF fin run] by simp
qed

lemma stack_total_act:
  assumes "tasks_ok T" and "possible a T" and "keeps_esp a T"
  shows "stack_total (act a T) = stack_total T - (if a = Interrupt then 4 else 0)"
proof (cases a)
  case Interrupt
  then show ?thesis
    using stack_total_interrupt [OF assms(1)] by simp
next
  case (Own r)
  then have "ESP (task_regs (act a T) t) = ESP (task_regs T t)" for t
    using assms(3) by (simp add: task_regs_def)
  then show ?thesis
    unfolding stack_total_def members_act [OF assms(2)] using Own by simp
next
  case (Wake u)
  then have "task_regs (act a T) t = task_regs T t" for t
    by (simp add: task_regs_def)
  then show ?thesis
    unfolding stack_total_def members_act [OF assms(2)] using Wake by simp
qed (use assms(3) in simp)

lemma stack_total_acts:
  assumes "tasks_ok T" and "all_possible ls T" and "steady ls T"
  shows "stack_total (fold act ls T) = stack_total T - 4 * of_nat (count_list ls Interrupt)"
  using assms
proof (induction ls arbitrary: T)
  case Nil
  then show ?case by simp
next
  case (Cons a ls)
  have "stack_total (fold act ls (act a T)) = stack_total (act a T) - 4 * of_nat (count_list ls Interrupt)"
    by (rule Cons.IH) (use Cons.prems in \<open>simp_all add: tasks_ok_act\<close>)
  moreover have "stack_total (act a T) = stack_total T - (if a = Interrupt then 4 else 0)"
    by (rule stack_total_act) (use Cons.prems in simp_all)
  ultimately show ?case
    by (cases "a = Interrupt") simp_all
qed

text \<open>The queue does not depend on the registers.\<close>

definition queue_of :: "tasks \<Rightarrow> u32 \<times> u32 list \<times> u32" where
  "queue_of T = (running T, waiting T, clock T)"

fun queue_act :: "action \<Rightarrow> u32 \<times> u32 list \<times> u32 \<Rightarrow> u32 \<times> u32 list \<times> u32" where
  "queue_act Interrupt (r, q, c) =
     (if (c + 1) mod 20 = 0 then (hd (q @ [r]), tl (q @ [r]), c + 1) else (r, q, c + 1))"
| "queue_act (Own v) (r, q, c) = (r, q, c)"
| "queue_act (Yield ret) (r, q, c) = (hd q, tl q, c)"
| "queue_act (Wake u) (r, q, c) = (r, q @ [u], c)"

lemma queue_of_act: "queue_of (act a T) = queue_act a (queue_of T)"
proof (cases a)
  case Interrupt
  then show ?thesis
    by (cases "(clock T + 1) mod 20 = 0") (simp_all add: queue_of_def interrupt_tasks_def Let_def)
qed (simp_all add: queue_of_def yield_tasks_def Let_def)

lemma queue_of_acts: "queue_of T = queue_of T' \<Longrightarrow> queue_of (fold act ls T) = queue_of (fold act ls T')"
  by (induction ls arbitrary: T T') (simp_all add: queue_of_act)

lemma away_same_queue: "queue_of T = queue_of T' \<Longrightarrow> away c ls T \<longleftrightarrow> away c ls T'"
  using queue_of_acts [of T T'] by (simp add: away_def queue_of_def)

section \<open>Properties\<close>

text \<open>
  C3. The entry points refine the task specification: whatever timer interrupts, yields, releases
  and instructions of the running thread follow each other, the machine's scheduler, registers
  and saved frames are those of the specification after the same actions, and each action was
  possible there.
\<close>

theorem execution_refines_tasks:
  assumes "exec S (members T) cc n entry w0 ls w" and "runs_tasks S w0 T" and "separate S (members T)"
    and "frames_within n cc" and "n \<le> 268435456"
  shows "all_possible ls T \<and> runs_tasks S w (fold act ls T)"
  by (rule exec_runs [OF assms(1,2) refl assms(3-5)])

text \<open>
  C4. Context switches are transparent: a thread that has been off the processor, for any number
  of switches between the others, comes back with exactly the registers its frame held, and not a
  byte of its stack has changed.
\<close>

theorem switched_thread_resumes:
  assumes "exec S (members T) cc n entry w0 ls w" and "runs_tasks S w0 T" and "separate S (members T)"
    and "frames_within n cc" and "n \<le> 268435456"
    and "away c ls T" and "c \<in> members T" and "c \<noteq> running T" and "current_thread (sc w) = c"
  shows "core w = frame_regs (ram w0) (load32 (ram w0) c) \<and> (\<forall>x\<in>S c. ram w x = ram w0 x)"
proof -
  have "stopped (S c) (ram w0) c (ctx T c)"
    using assms(2,7,8) by (auto simp: runs_tasks_def members_def)
  then show ?thesis
    using comes_back [OF assms] by (simp add: stopped_def)
qed

text \<open>
  The stub of the timer interrupt leaves by \<^verbatim>\<open>lret\<close>, which takes two of the three words the
  processor pushed: as long as the threads only loop, each timer interrupt takes one word of
  stack from a thread and no one gives it back.
\<close>

lemma interrupts_consume_stack:
  assumes "exec S (members T) cc n entry w0 ls w" and "runs_tasks S w0 T" and "separate S (members T)"
    and "frames_within n cc" and "n \<le> 268435456" and "steady ls T"
  shows "(\<Sum>t\<in>members T. stack_pointer w t) =
    (\<Sum>t\<in>members T. stack_pointer w0 t) - 4 * of_nat (count_list ls Interrupt)"
proof -
  have run: "all_possible ls T" "runs_tasks S w (fold act ls T)"
    using exec_runs [OF assms(1,2) refl assms(3-5)] by simp_all
  have "(\<Sum>t\<in>members T. stack_pointer w t) = stack_total (fold act ls T)"
    unfolding stack_total_def members_acts [OF run(1)]
    using stack_pointer_tasks [OF run(2), unfolded members_acts [OF run(1)]] by simp
  moreover have "(\<Sum>t\<in>members T. stack_pointer w0 t) = stack_total T"
    unfolding stack_total_def using stack_pointer_tasks [OF assms(2)] by simp
  moreover have "tasks_ok T"
    using assms(2) by (simp add: runs_tasks_def)
  ultimately show ?thesis
    using stack_total_acts [OF _ run(1) assms(6)] by simp
qed

text \<open>
  C19. The word an interrupt leaves on the stack is the flags of the interrupted thread, which are
  not restored: the thread goes on with the flags of the compiled handler. Its other registers
  are untouched, and interrupts are on.
\<close>

theorem interrupt_loses_flags:
  fixes entry :: u32
  assumes "runs_tasks S w T" and "separate S (members T)" and "frames_within n cc" and "n \<le> 268435456"
    and "fits (S (running T)) (ESP (core w) - of_nat (60 + n)) (60 + n)"
    and "(clock T + 1) mod 20 \<noteq> 0"
  defines "w' \<equiv> timer_interrupt cc entry w"
  shows "core w' = (core w)\<lparr>ESP := ESP (core w) - 4\<rparr> \<and> stack_top w' = flags_word w
    \<and> (\<exists>f. eflags w' = flags_after cc f) \<and> int_flag (wires w')"
proof -
  let ?c = "running T"
  have cur: "current_thread (sc w) = ?c" "core w = live T"
    using runs_tasks_current [OF assms(1)] by simp_all
  have c: "?c \<in> members T"
    by (simp add: members_def)
  have "runs_tasks S w' (interrupt_tasks T)"
    unfolding w'_def using assms(5) cur
    by (intro timer_interrupt_step [OF assms(1,2) subset_refl assms(3,4)]) simp
  from runs_tasks_current [OF this] have regs: "core w' = (core w)\<lparr>ESP := ESP (core w) - 4\<rparr>"
    using assms(6) by (simp add: interrupt_tasks_def Let_def interrupted_def cur)
  have f: "fits (S ?c) (ESP (core w) - 60) 60"
    using fits_part [OF assms(5), of n 60] by (simp add: algebra_simps)
  have sep: "word_at (current_thread (sc w)) \<inter> S ?c = {}" "SCREEN + 3840 \<notin> S ?c"
    using separate_parts(1) [OF assms(2) c c] screen_cell [of 3840] cur by auto
  have "load32 (ram w') (ESP (core w) - 60 + of_nat 56) = load32 (irq_frame w) (ESP (core w) - 60 + of_nat 56)"
    by (rule load32_fits [OF fits_span [of 60]])
      (simp_all add: w'_def timer_interrupt_eq irq_ram_frame [OF assms(3,4) f sep])
  then have "stack_top w' = flags_word w"
    by (simp add: stack_top_def regs irq_frame_words)
  then show ?thesis
    using regs by (auto simp: w'_def timer_interrupt_eq EOI_master_def sti_def)
qed

section \<open>Two threads on a machine\<close>

definition byte_range :: "nat \<Rightarrow> nat \<Rightarrow> u32 set" where
  "byte_range lo hi = {x. lo \<le> unat x \<and> unat x < hi}"

lemma fits_byte_range: "lo \<le> unat a \<Longrightarrow> unat a + n \<le> hi \<Longrightarrow> hi \<le> 4294967296 \<Longrightarrow> fits (byte_range lo hi) a n"
  unfolding fits_def byte_range_def using unat_add_no_wrap [of a] by auto

definition sample_stacks :: "u32 \<Rightarrow> u32 set" where
  "sample_stacks t = (if t = 0x507000 then byte_range 0x508000 0x50c038 else byte_range 0x50c038 0x512038)"

definition sample_ram :: bmem where
  "sample_ram = (\<lambda>x. if x = 0x507001 then 0xc0 else if x = 0x507002 then 0x50 else 0)"

definition sample_regs :: regs where
  "sample_regs = \<lparr>EAX = 0, EBX = 0, ECX = 0, EDX = 0, ESI = 0, EDI = 0, EBP = 0, ESP = 0x512000,
     EIP = 0x201100, CS = 0x20, DS = 0x28, ES = 0x28, FS = 0x28, GS = 0x30\<rparr>"

definition sample_machine :: "u32 \<Rightarrow> machine" where
  "sample_machine t = \<lparr>core = sample_regs, eflags = 2, ram = sample_ram,
     sc = two_threads\<lparr>ticks := t\<rparr>, wires = \<lparr>history = [], int_flag = True\<rparr>\<rparr>"

definition sample_tasks :: "u32 \<Rightarrow> tasks" where
  "sample_tasks t = \<lparr>running = 0x503000, waiting = [0x507000], blocked = {}, live = sample_regs,
     ctx = (\<lambda>c. frame_regs sample_ram (load32 sample_ram c)), clock = t\<rparr>"

definition plain_calls :: compiled where
  "plain_calls = \<lparr>below = (\<lambda>sp m. m), flags_after = (\<lambda>f. f)\<rparr>"

lemma sample_members: "members (sample_tasks t) = {0x503000, 0x507000}"
  by (simp add: members_def sample_tasks_def)

lemma sample_calls: "frames_within 0 plain_calls"
  by (simp add: frames_within_def plain_calls_def)

lemma sample_separate: "separate sample_stacks {0x503000, 0x507000}"
proof -
  have "(x - SCREEN) = of_nat (unat x - 0xb8000)" if "0x500000 \<le> unat x" for x :: u32
    using that unat_diff_above [of SCREEN x] by (simp add: layout word_eq_of_nat)
  then have "x \<notin> screen_cells" if "0x500000 \<le> unat x" for x
    using that unat_diff_above [of SCREEN x] by (simp add: screen_cells_def layout)
  then show ?thesis
    by (auto simp: separate_def sample_stacks_def byte_range_def word_at_def)
qed

lemma sample_runs: "runs_tasks sample_stacks (sample_machine t) (sample_tasks t)"
proof -
  have l: "load32 sample_ram 0x507000 = 0x50c000"
    by (simp add: load32_def sample_ram_def push_bit_eq_mult)
  have "fits (sample_stacks 0x507000) 0x50c000 56"
    by (simp add: sample_stacks_def fits_byte_range)
  then show ?thesis
    using two_threads_schedules
    by (simp add: runs_tasks_def sample_machine_def sample_tasks_def schedules_ticks tasks_ok_def stopped_def l)
qed

lemma sample_exec:
  "exec sample_stacks (members (sample_tasks t)) plain_calls 0 0x202000 (sample_machine t) [Interrupt]
     (timer_interrupt plain_calls 0x202000 (sample_machine t))"
proof -
  have "fits (sample_stacks 0x503000) (0x512000 - 60) 60"
    by (simp add: sample_stacks_def fits_byte_range)
  then have "exec sample_stacks (members (sample_tasks t)) plain_calls 0 0x202000 (sample_machine t) ([] @ [Interrupt])
     (timer_interrupt plain_calls 0x202000 (sample_machine t))"
    by (intro exec_interrupt exec_start) (simp_all add: sample_machine_def two_threads_def sample_regs_def)
  then show ?thesis by simp
qed

theorem execution_refines_tasks_witness:
  "runs_tasks sample_stacks (timer_interrupt plain_calls 0x202000 (sample_machine 59)) (interrupt_tasks (sample_tasks 59))
   \<and> running (interrupt_tasks (sample_tasks 59)) = 0x507000"
  using execution_refines_tasks [OF sample_exec [of 59] sample_runs _ sample_calls] sample_separate
  by (simp add: sample_members) (simp add: sample_tasks_def interrupt_tasks_def Let_def)

theorem switched_thread_resumes_witness:
  "core (timer_interrupt plain_calls 0x202000 (sample_machine 59)) = frame_regs sample_ram 0x50c000"
proof -
  let ?w = "timer_interrupt plain_calls 0x202000 (sample_machine 59)"
  have "schedules (two_threads\<lparr>ticks := 59\<rparr>) 0x503000 [0x507000]"
    by (simp add: schedules_ticks two_threads_schedules)
  from timer_handler_schedules [OF this] have "current_thread (sc ?w) = 0x507000"
    by (simp add: timer_interrupt_eq sample_machine_def schedules_def)
  moreover have "away 0x507000 [Interrupt] (sample_tasks 59)"
    by (simp add: away_def sample_tasks_def)
  ultimately have "core ?w = frame_regs (ram (sample_machine 59)) (load32 (ram (sample_machine 59)) 0x507000)"
    using switched_thread_resumes [OF sample_exec [of 59] sample_runs _ sample_calls, of "0x507000"] sample_separate
    by (simp add: sample_members) (simp add: sample_tasks_def)
  then show ?thesis
    by (simp add: sample_machine_def load32_def sample_ram_def push_bit_eq_mult)
qed

theorem interrupt_loses_flags_witness:
  "stack_top (timer_interrupt plain_calls 0x202000 (sample_machine 40)) = 0x202
   \<and> ESP (core (timer_interrupt plain_calls 0x202000 (sample_machine 40))) = 0x511ffc"
proof -
  have "fits (sample_stacks 0x503000) (0x512000 - 60) 60"
    by (simp add: sample_stacks_def fits_byte_range)
  moreover have "flags_word (sample_machine 40) = 0x202"
    by (simp add: flags_word_def sample_machine_def layout set_bit_eq_or push_bit_eq_mult)
  ultimately show ?thesis
    using interrupt_loses_flags [OF sample_runs [of 40] _ sample_calls, of "0x202000"] sample_separate
    by (simp add: sample_members) (simp add: sample_tasks_def sample_machine_def sample_regs_def)
qed

end
