(* ===== verification/Syscall.thy ===== *)
theory Syscall
  imports TaskRuns Block
begin

text \<open>
  System calls from entry to return: \<^verbatim>\<open>sys_entry\<close> for a call that does not switch, and
  \<^verbatim>\<open>thread_yield\<close> of \<^verbatim>\<open>src/kernel/thread/init.c\<close>, which leaves the processor in the middle
  of the handler and comes back when its thread is dispatched again.
\<close>

section \<open>thread\_yield\<close>

text \<open>\<^verbatim>\<open>movl $1, %eax; int $0x80\<close>, where the second instruction ends at \<^verbatim>\<open>resume\<close>.\<close>

definition thread_yield_call :: "u32 \<Rightarrow> u32 \<Rightarrow> machine \<Rightarrow> machine" where
  "thread_yield_call entry resume w =
     (let w = w\<lparr>core := (core w)\<lparr>EAX := 1, EIP := resume\<rparr>\<rparr>
      in sys_enter (enter_gate (ucast KERNEL_CS) entry w))"

text \<open>Back from \<^verbatim>\<open>yield\<close>, the handler returns: the stack pointer is at the arguments again.\<close>

definition handler_return :: "u32 \<Rightarrow> machine \<Rightarrow> machine" where
  "handler_return depth w = w\<lparr>core := (core w)\<lparr>ESP := ESP (core w) + (depth - 4)\<rparr>\<rparr>"

section \<open>The message\<close>

definition message_at :: "u32 set \<Rightarrow> bmem \<Rightarrow> u32 \<Rightarrow> bool" where
  "message_at A m p \<longleftrightarrow> (\<exists>bs. cstr m p bs \<and> length bs \<le> 80
     \<and> (\<forall>i\<le>length bs. p + of_nat i \<notin> A \<and> p + of_nat i \<notin> screen_cells))"

lemma message_at_cong:
  assumes "message_at A m p" and "\<And>x. x \<notin> A \<Longrightarrow> x \<notin> screen_cells \<Longrightarrow> m' x = m x"
  shows "message_at A m' p"
proof -
  obtain bs where bs: "cstr m p bs" "length bs \<le> 80"
    "\<forall>i\<le>length bs. p + of_nat i \<notin> A \<and> p + of_nat i \<notin> screen_cells"
    using assms(1) by (auto simp: message_at_def)
  have "cstr m' p bs"
    by (rule cstr_cong [OF bs(1)]) (use assms(2) bs(3) in blast)
  with bs(2,3) show ?thesis
    by (auto simp: message_at_def)
qed

lemma dis_str_message:
  assumes "message_at A m p"
  obtains k m' where "dis_str m p c 0 0 = Inr (k, m')" and "\<And>x. x \<notin> screen_cells \<Longrightarrow> m' x = m x"
proof -
  obtain bs where bs: "cstr m p bs" "length bs \<le> 80"
    "\<forall>i\<le>length bs. p + of_nat i \<notin> screen_cells"
    using assms by (auto simp: message_at_def)
  have far: "2 * length bs \<le> unat (p + of_nat k - SCREEN)" if "k < length bs" for k
  proof -
    have "p + of_nat k \<notin> screen_cells"
      using bs(3) that by simp
    then show ?thesis
      using bs(2) by (simp add: screen_cells_def)
  qed
  have "shown 0 c bs m x = m x" if "x \<notin> screen_cells" for x
    using that bs(2) by (simp add: screen_cells_def shown_def Let_def)
  moreover have "dis_str m p c 0 0 = Inr (int (length bs), shown 0 c bs m)"
    using dis_str_shown [OF bs(1), of 0 0 c] bs(2) far by simp
  ultimately show thesis
    using that by blast
qed

section \<open>Entry and exit of a call\<close>

text \<open>The region \<^verbatim>\<open>A\<close> holds the call's stack and nothing of the screen.\<close>

definition call_stack :: "u32 set \<Rightarrow> nat \<Rightarrow> machine \<Rightarrow> bool" where
  "call_stack A n w \<longleftrightarrow> fits A (ESP (core w) - of_nat (84 + n)) (84 + n) \<and> A \<inter> screen_cells = {}"

lemma call_stack_parts:
  assumes "call_stack A n w"
  shows "fits A (ESP (core w) - 84) 84" and "fits A (ESP (core w) - 60) 60"
    and "fits A (ESP (core w) - 84 - of_nat n) n"
    and "x \<in> span (ESP (core w) - 60) 60 \<Longrightarrow> x \<in> A \<and> x \<notin> screen_cells"
proof -
  have A: "fits A (ESP (core w) - of_nat (84 + n)) (84 + n)" "A \<inter> screen_cells = {}"
    using assms by (simp_all add: call_stack_def)
  show "fits A (ESP (core w) - 84) 84" "fits A (ESP (core w) - 84 - of_nat n) n"
    using fits_part [OF A(1), of n 84] fits_part [OF A(1), of 0 n] by (simp_all add: algebra_simps)
  then show f: "fits A (ESP (core w) - 60) 60"
    using fits_part [of A "ESP (core w) - 84" 84 24 60] by simp
  show "x \<in> span (ESP (core w) - 60) 60 \<Longrightarrow> x \<in> A \<and> x \<notin> screen_cells"
    using fits_span_subset [OF f] A(2) by blast
qed

lemma span_mono: "a' = a + of_nat k \<Longrightarrow> k + n \<le> m \<Longrightarrow> m \<le> 4294967296 \<Longrightarrow> span a' n \<subseteq> span a m"
  using fits_span_subset [OF fits_part [OF fits_span [of m a], of k n]] by simp

lemma sys_exit_outside:
  assumes "ESP (core v) = ESP (core w) - 84" and "fits A (ESP (core w) - 60) 60" and "x \<notin> A"
  shows "ram (sys_exit v) x = ram v x"
proof -
  have out: "x \<notin> word_at (ESP (core w) - k)" if "k \<in> {4, 8, 12}" for k
    using word_at_fits [OF assms(2), of "60 - k"] that assms(3) by auto
  show ?thesis
    unfolding sys_exit_eq(5) assms(1) using out [of 4] out [of 8] out [of 12] by (simp add: store32_outside)
qed

lemma enter_sc [simp]: "sc (sys_enter (enter_gate sel entry w)) = sc w"
  by (simp add: sys_enter_eq)

lemma enter_ESP [simp]: "ESP (core (sys_enter (enter_gate sel entry w))) = ESP (core w) - 84"
  by (simp add: sys_enter_eq)

lemma enter_top [simp]: "stack_top (sys_enter (enter_gate sel entry w)) = EAX (core w)"
  by (simp add: sys_enter_eq stack_top_def)

text \<open>A call that does not switch.\<close>

lemma sys_entry_runs:
  assumes stack: "call_stack A n w" and cc: "frames_within n cc" "n \<le> 268435456"
    and msg: "message_at A (ram w) msg" and num: "EAX (core w) \<noteq> THREAD_YIELD"
  shows "gives (sys_entry cc depth ret msg (enter_gate sel entry w)) (\<lambda>w'.
    core w' = after_syscall w \<and> eflags w' = flags_word w \<and> int_flag (wires w') = int_flag (wires w)
    \<and> sc w' = sc w \<and> (\<forall>x. x \<notin> A \<longrightarrow> x \<notin> screen_cells \<longrightarrow> ram w' x = ram w x))"
proof -
  let ?v = "sys_enter (enter_gate sel entry w)" and ?b = "ESP (core w) - 60"
  note parts = call_stack_parts [OF stack]
  have enter: "x \<notin> A \<Longrightarrow> ram ?v x = ram w x" for x
    by (rule sys_enter_ram(2) [OF parts(1)])
  obtain k m where m: "dis_str (ram ?v) msg 0xc 0 0 = Inr (k, m)" "\<And>x. x \<notin> screen_cells \<Longrightarrow> m x = ram ?v x"
    using dis_str_message [OF message_at_cong [OF msg enter]] by blast
  let ?u = "call_c cc (\<lambda>w. w) (?v\<lparr>ram := m\<rparr>)"
  have run: "sys_entry cc depth ret msg (enter_gate sel entry w) = Inr (sys_exit ?u)"
    using m(1) num by (simp add: sys_entry_def syscall_handler_def Let_def)
  have u: "ESP (core ?u) = ESP (core w) - 84" "sc ?u = sc w"
    and ram: "ram ?u = below cc (ESP (core w) - 84) m"
    by (simp_all add: call_c_def Let_def)
  have frame: "ram ?u x = irq_frame w x" if x: "x \<in> span ?b 60" for x
  proof -
    have "x \<in> span (ESP (core w) - 84) 84"
      using x span_mono [of ?b "ESP (core w) - 84" 24 60 84] by auto
    then have "ram ?u x = m x"
      unfolding ram using cc(2) by (intro below_span [OF cc(1)]) auto
    also have "\<dots> = ram ?v x"
      using m(2) parts(4) [OF x] by blast
    finally show ?thesis
      using sys_enter_ram(1) [OF x] by simp
  qed
  have "ram (sys_exit ?u) x = ram w x" if "x \<notin> A" "x \<notin> screen_cells" for x
  proof -
    have "ram (sys_exit ?u) x = ram ?u x"
      by (rule sys_exit_outside [OF u(1) parts(2) that(1)])
    also have "\<dots> = m x"
      unfolding ram by (rule below_outside [OF cc(1) parts(3) that(1)])
    finally show ?thesis
      using m(2) [OF that(2)] enter [OF that(1)] by simp
  qed
  then show ?thesis
    unfolding run using sys_exit_from_frame [OF u(1) frame] u(2) by simp
qed

section \<open>A yield through the system call\<close>

text \<open>
  From the interrupt instruction to the switch the thread only writes its own stack and the screen,
  so these are steps of its own, followed by the yield.
\<close>

definition yield_stack :: "u32 set \<Rightarrow> u32 \<Rightarrow> nat \<Rightarrow> machine \<Rightarrow> bool" where
  "yield_stack A depth n w \<longleftrightarrow> call_stack A 0 w \<and> word_at (ESP (core w) - 84 - depth) \<subseteq> A
     \<and> fits A (ESP (core w) - 84 - depth - of_nat (52 + n)) (56 + n) \<and> 4 \<le> unat depth \<and> unat depth \<le> 0x10000"

lemma thread_yield_runs:
  fixes w :: machine and resume :: u32
  defines "w0 \<equiv> w\<lparr>core := (core w)\<lparr>EAX := 1, EIP := resume\<rparr>\<rparr>"
  assumes run: "runs_tasks S w T" and sep: "separate S (members T)" and wait: "waiting T \<noteq> []"
    and cc: "frames_within n cc" "n \<le> 268435456"
    and stack: "yield_stack (S (running T)) depth n w"
    and msg: "message_at (S (running T)) (ram w) msg"
  shows "gives (syscall_handler cc depth ret msg 1 (thread_yield_call entry resume w)) (\<lambda>w'. \<exists>r.
    ESP r = ESP (core w) - 84 - depth \<and> runs_tasks S w' (yield_tasks ret (T\<lparr>live := r\<rparr>))
    \<and> (\<forall>x\<in>span (ESP (core w) - 60) 60. ram w' x = irq_frame w0 x))"
proof -
  let ?c = "running T" and ?v = "thread_yield_call entry resume w" and ?b = "ESP (core w) - 60"
  let ?sp = "ESP (core w) - 84 - depth"
  have v: "?v = sys_enter (enter_gate (ucast KERNEL_CS) entry w0)"
    by (simp add: thread_yield_call_def w0_def)
  have E: "ESP (core w0) = ESP (core w)" "ram w0 = ram w" "sc w0 = sc w"
    by (simp_all add: w0_def)
  have "call_stack (S ?c) 0 w0"
    using stack by (simp add: yield_stack_def call_stack_def E)
  note parts = call_stack_parts [OF this, unfolded E]
  have enter: "x \<notin> S ?c \<Longrightarrow> ram ?v x = ram w x" for x
    unfolding v using sys_enter_ram(2) [of "S ?c" w0] parts(1) by (simp add: E)
  obtain k m where m: "dis_str (ram ?v) msg 0xc 0 0 = Inr (k, m)" "\<And>x. x \<notin> screen_cells \<Longrightarrow> m x = ram ?v x"
    using dis_str_message [OF message_at_cong [OF msg enter]] by blast
  let ?u = "?v\<lparr>core := (core ?v)\<lparr>ESP := ?sp\<rparr>, ram := store32 m ?sp ret\<rparr>"
  have handler: "syscall_handler cc depth ret msg 1 ?v = Inr (yield cc ?u)"
    using m(1) by (simp add: syscall_handler_def THREAD_YIELD_def call_yield_def Let_def v E)
  have u: "ram ?u x = ram w x" if "x \<notin> S ?c" "x \<notin> screen_cells" for x
  proof -
    have "x \<notin> word_at ?sp"
      using that stack by (auto simp: yield_stack_def)
    then show ?thesis
      using m(2) [OF that(2)] enter [OF that(1)] by (simp add: store32_outside)
  qed
  have c: "?c \<in> members T" and cur: "current_thread (sc w) = ?c" "core w = live T"
    using runs_tasks_current [OF run] by (simp_all add: members_def)
  note sp = separate_parts [OF sep]
  have "own_step S (members T) w ?u"
    using sp(1) [OF _ c] sp(2) [OF _ c] sp(3) [OF _ c] u
    by (auto simp: own_step_def own_memory_def cur v E)
  from own_step_tasks [OF run this] have run': "runs_tasks S ?u (T\<lparr>live := core ?u\<rparr>)"
    by simp
  have "yield cc ?u = yield cc ?u" "stack_top ?u = ret"
    by (simp_all add: stack_top_def)
  moreover have "fits (S ?c) (?sp - of_nat (52 + n)) (56 + n)"
    using stack by (simp add: yield_stack_def)
  ultimately have "runs_tasks S (yield cc ?u) (yield_tasks ret (T\<lparr>live := core ?u\<rparr>))"
    using yield_step [OF run' _ _ _ cc, of "members T"] sep wait by (simp add: members_def)
  moreover have "ram (yield cc ?u) x = irq_frame w0 x" if x: "x \<in> span ?b 60" for x
  proof -
    have d: "unat depth + 20 \<le> 0x10014" "unat (depth + 20) = unat depth + 20"
      using stack unat_add_no_wrap [of depth 20] by (simp_all add: yield_stack_def)
    have b: "?b = ?sp + 4 + (depth + 20)"
      by simp
    have "unat (depth + 20) + 60 \<le> 4294967296"
      using d by linarith
    from unat_span_up [OF x [unfolded b] this]
    have "unat (x - (?sp + 4)) = unat (x - ?b) + unat (depth + 20)"
      unfolding b .
    then have above: "x \<in> span (?sp + 4) 0x20000"
      using x d by (simp add: span_def)
    have "x \<in> S ?c" "x \<notin> screen_cells"
      using parts(4) [OF x] by simp_all
    then have "x \<notin> word_at ?c"
      using sp(1) [OF c c] by blast
    then have "ram (yield cc ?u) x = ram ?u x"
      using yield_ram_above [OF cc, of x ?u "0x20000"] above by (simp add: yield_eq cur v E)
    also have "\<dots> = m x"
    proof -
      have "?sp + 4 - 4 = ?sp" by simp
      then have "store32 m ?sp ret x = m x"
        using store32_above [OF above, of 4 m ret] by (simp only:) simp
      then show ?thesis by simp
    qed
    also have "\<dots> = ram ?v x"
      using m(2) \<open>x \<notin> screen_cells\<close> by simp
    finally show ?thesis
      unfolding v using sys_enter_ram(1) [of x w0] x by (simp add: E)
  qed
  ultimately show ?thesis
    unfolding handler by (intro gives_Inr [THEN iffD2] exI [of _ "core ?u"]) simp
qed

text \<open>Back on the processor, the thread finds its call's frame where it left it.\<close>

lemma yield_call_exits:
  fixes w :: machine and resume :: u32
  defines "w0 \<equiv> w\<lparr>core := (core w)\<lparr>EAX := 1, EIP := resume\<rparr>\<rparr>"
  assumes "ESP (core w2) = ESP (core w) - 84 - depth + 4"
    and "\<And>x. x \<in> span (ESP (core w) - 60) 60 \<Longrightarrow> ram w2 x = irq_frame w0 x"
  shows "core (sys_exit (handler_return depth w2)) = (core w)\<lparr>EAX := resume, EBX := ucast (CS (core w)),
      ECX := flags_word w, EIP := resume\<rparr>"
    and "eflags (sys_exit (handler_return depth w2)) = flags_word w"
    and "int_flag (wires (sys_exit (handler_return depth w2))) = int_flag (wires w)"
proof -
  let ?v = "handler_return depth w2"
  have v: "ESP (core ?v) = ESP (core w0) - 84"
    using assms(2) by (simp add: handler_return_def w0_def)
  have same: "ram ?v x = irq_frame w0 x" if "x \<in> span (ESP (core w0) - 60) 60" for x
    using assms(3) that by (simp add: handler_return_def w0_def)
  have "flags_word w0 = flags_word w"
    by (simp add: flags_word_def w0_def)
  then show "core (sys_exit ?v) = (core w)\<lparr>EAX := resume, EBX := ucast (CS (core w)),
      ECX := flags_word w, EIP := resume\<rparr>" "eflags (sys_exit ?v) = flags_word w"
    "int_flag (wires (sys_exit ?v)) = int_flag (wires w)"
    using sys_exit_from_frame(1-3) [OF v same] by (simp_all add: after_syscall_def w0_def)
qed

section \<open>Properties\<close>

text \<open>
  C17. A system call that does not switch returns to its caller with the stack pointer, the flags
  and the interrupt flag it had, and changes nothing outside its stack and the screen. But the
  swap of the return words goes through three registers behind the restore: \<^verbatim>\<open>eax\<close>, \<^verbatim>\<open>ebx\<close> and
  \<^verbatim>\<open>ecx\<close> come back with the return address, the code segment and the flags.
\<close>

theorem sys_entry_returns:
  assumes "call_stack A n w" and "frames_within n cc" and "n \<le> 268435456"
    and "message_at A (ram w) msg" and "EAX (core w) \<noteq> THREAD_YIELD"
  shows "gives (sys_entry cc depth ret msg (enter_gate sel entry w)) (\<lambda>w'.
    core w' = (core w)\<lparr>EAX := EIP (core w), EBX := ucast (CS (core w)), ECX := flags_word w\<rparr>
    \<and> eflags w' = flags_word w \<and> int_flag (wires w') = int_flag (wires w)
    \<and> sc w' = sc w \<and> (\<forall>x. x \<notin> A \<longrightarrow> x \<notin> screen_cells \<longrightarrow> ram w' x = ram w x))"
  using sys_entry_runs [OF assms] by (simp only: after_syscall_def)

text \<open>
  C7. \<^verbatim>\<open>thread_yield\<close> gives the processor to the first ready thread; and whatever the other
  threads do in between, when its thread runs again it continues behind the call of \<^verbatim>\<open>yield\<close>, the
  handler returns, and \<^verbatim>\<open>sys_entry\<close> leaves at the instruction after the interrupt with the
  caller's stack pointer, flags and registers, but for the three that \<^verbatim>\<open>sys_entry\<close> overwrites.
\<close>

theorem thread_yield_returns:
  assumes run: "runs_tasks S w T" and sep: "separate S (members T)" and wait: "waiting T \<noteq> []"
    and cc: "frames_within n cc" "n \<le> 268435456"
    and stack: "yield_stack (S (running T)) depth n w"
    and msg: "message_at (S (running T)) (ram w) msg"
  shows "gives (syscall_handler cc depth ret msg 1 (thread_yield_call entry resume w)) (\<lambda>w1.
    current_thread (sc w1) = hd (waiting T)
    \<and> (\<forall>irq ls w2. exec S (members T) cc n irq w1 ls w2 \<longrightarrow> away (running T) ls (yield_tasks ret T)
        \<longrightarrow> current_thread (sc w2) = running T \<longrightarrow> EIP (core w2) = ret
      \<and> core (sys_exit (handler_return depth w2)) = (core w)\<lparr>EAX := resume, EBX := ucast (CS (core w)),
          ECX := flags_word w, EIP := resume\<rparr>
      \<and> eflags (sys_exit (handler_return depth w2)) = flags_word w
      \<and> int_flag (wires (sys_exit (handler_return depth w2))) = int_flag (wires w)))"
proof (rule gives_mono [OF thread_yield_runs [OF run sep wait cc stack msg]], erule exE, elim conjE)
  fix w1 r
  let ?c = "running T" and ?T = "yield_tasks ret (T\<lparr>live := r\<rparr>)"
  assume r: "ESP r = ESP (core w) - 84 - depth" and T: "runs_tasks S w1 ?T"
    and same: "\<forall>x\<in>span (ESP (core w) - 60) 60. ram w1 x = irq_frame (w\<lparr>core := (core w)\<lparr>EAX := 1, EIP := resume\<rparr>\<rparr>) x"
  have ok: "tasks_ok T"
    using runs_tasks_current [OF run] by simp
  then have mem: "members ?T = members T" "running ?T = hd (waiting T)" "?c \<noteq> running ?T"
    using wait by (cases "waiting T"; auto simp: members_def yield_tasks_def Let_def tasks_ok_def)+
  have c: "?c \<in> members T" and queue: "queue_of (yield_tasks ret T) = queue_of ?T"
    by (simp_all add: members_def queue_of_def yield_tasks_def Let_def)
  have result: "EIP (core w2) = ret \<and> core (sys_exit (handler_return depth w2)) = (core w)\<lparr>EAX := resume,
      EBX := ucast (CS (core w)), ECX := flags_word w, EIP := resume\<rparr>
      \<and> eflags (sys_exit (handler_return depth w2)) = flags_word w
      \<and> int_flag (wires (sys_exit (handler_return depth w2))) = int_flag (wires w)"
    if x: "exec S (members T) cc n irq w1 ls w2" and a: "away ?c ls (yield_tasks ret T)"
      and cur: "current_thread (sc w2) = ?c" for irq ls w2
  proof -
    have again: "core w2 = ctx ?T ?c" "\<forall>x\<in>S ?c. ram w2 x = ram w1 x"
      using comes_back [of S ?T cc n irq w1 ls w2 ?c] T sep cc x a cur c mem away_same_queue [OF queue]
      by simp_all
    have at: "ESP (core w2) = ESP (core w) - 84 - depth + 4" "EIP (core w2) = ret"
      using again(1) r by (simp_all add: yield_tasks_def far_returned_def Let_def)
    have "call_stack (S ?c) 0 w"
      using stack by (simp add: yield_stack_def)
    then have "ram w2 x = irq_frame (w\<lparr>core := (core w)\<lparr>EAX := 1, EIP := resume\<rparr>\<rparr>) x"
      if "x \<in> span (ESP (core w) - 60) 60" for x
      using that call_stack_parts(4) again(2) same by auto
    from yield_call_exits [OF at(1) this] show ?thesis
      using at(2) by simp
  qed
  have "current_thread (sc w1) = hd (waiting T)"
    using runs_tasks_current [OF T] mem(2) by simp
  then show "current_thread (sc w1) = hd (waiting T)
    \<and> (\<forall>irq ls w2. exec S (members T) cc n irq w1 ls w2 \<longrightarrow> away ?c ls (yield_tasks ret T)
        \<longrightarrow> current_thread (sc w2) = ?c \<longrightarrow> EIP (core w2) = ret
      \<and> core (sys_exit (handler_return depth w2)) = (core w)\<lparr>EAX := resume, EBX := ucast (CS (core w)),
          ECX := flags_word w, EIP := resume\<rparr>
      \<and> eflags (sys_exit (handler_return depth w2)) = flags_word w
      \<and> int_flag (wires (sys_exit (handler_return depth w2))) = int_flag (wires w))"
    by (intro conjI allI impI) (use result in blast)+
qed

lemma sample_message: "message_at (sample_stacks 0x503000) sample_ram 0x200000"
  unfolding message_at_def
  by (intro exI [of _ "[]"])
    (simp add: sample_stacks_def byte_range_def screen_cells_def sample_ram_def layout)

theorem sys_entry_returns_witness:
  "gives (sys_entry plain_calls 64 0x201500 0x200000 (enter_gate 0x20 0x202100 (sample_machine 40)))
     (\<lambda>w. EBX (core w) = 0x20 \<and> ESP (core w) = 0x512000)"
proof -
  have "fits (sample_stacks 0x503000) (0x512000 - 84) 84"
    by (simp add: sample_stacks_def fits_byte_range)
  then have "call_stack (sample_stacks 0x503000) 0 (sample_machine 40)"
    using sample_separate by (auto simp: call_stack_def sample_machine_def sample_regs_def separate_def)
  note call = sys_entry_returns [OF this sample_calls, of "0x200000" 64 "0x201500" "0x20" "0x202100"]
  show ?thesis
    by (rule gives_mono [OF call])
      (use sample_message in \<open>simp_all add: sample_machine_def sample_regs_def layout\<close>)
qed

theorem thread_yield_returns_witness:
  "gives (syscall_handler plain_calls 64 0x201500 0x200000 1 (thread_yield_call 0x202100 0x201102 (sample_machine 40)))
     (\<lambda>w. current_thread (sc w) = 0x507000)"
proof -
  have f: "fits (sample_stacks 0x503000) (0x512000 - 84) 84" "fits (sample_stacks 0x503000) (0x512000 - 148) 4"
    "fits (sample_stacks 0x503000) (0x512000 - 148 - 52) 56"
    by (simp_all add: sample_stacks_def fits_byte_range)
  then have "yield_stack (sample_stacks 0x503000) 64 0 (sample_machine 40)"
    using sample_separate
    by (auto simp: yield_stack_def call_stack_def sample_machine_def sample_regs_def separate_def fits_word)
  then have hyps: "yield_stack (sample_stacks (running (sample_tasks 40))) 64 0 (sample_machine 40)"
    "message_at (sample_stacks (running (sample_tasks 40))) (ram (sample_machine 40)) 0x200000"
    "separate sample_stacks (members (sample_tasks 40))" "waiting (sample_tasks 40) \<noteq> []"
    using sample_message sample_separate sample_members by (simp_all add: sample_tasks_def sample_machine_def)
  note call = thread_yield_returns [OF sample_runs hyps(3,4) sample_calls _ hyps(1,2), of "0x201500" "0x202100" "0x201102"]
  show ?thesis
    by (rule gives_mono [OF call]) (simp_all add: sample_tasks_def)
qed

end
