(* ===== verification/Boot.thy ===== *)
theory Boot
  imports TaskRuns
begin

text \<open>
  The start of the threads: the state that \<^verbatim>\<open>init_thread\<close> leaves is one that \<^verbatim>\<open>Tasks\<close> speaks of,
  and the first time slice ends in the first test thread.
\<close>

section \<open>The three stacks\<close>

text \<open>
  The two unions overlap: the second starts inside the first. The parts that are kept apart are the
  upper end of the first, above the thread structures, and the second from there on.
\<close>

definition boot_stacks :: "image \<Rightarrow> u32 \<Rightarrow> u32 set" where
  "boot_stacks im t =
     (if t = 0x507000 then byte_range 0x508000 0x50c038
      else if t = 0x503000 then byte_range 0x50c038 0x512038
      else byte_range (unat (init_stack im)) (unat (init_stack im) + 0x8038))"

definition placed :: "image \<Rightarrow> bool" where
  "placed im \<longleftrightarrow> 0x200000 \<le> unat (init_struct im) \<and> unat (init_struct im) + 4 \<le> 0x300000
     \<and> 0x200000 \<le> unat (init_stack im) \<and> unat (init_stack im) + 0x8038 \<le> 0x300000
     \<and> (unat (init_struct im) + 4 \<le> unat (init_stack im) \<or> unat (init_stack im) + 0x8038 \<le> unat (init_struct im))"

lemma word_at_range: "unat a + 4 \<le> 4294967296 \<Longrightarrow> word_at a \<subseteq> byte_range (unat a) (unat a + 4)"
proof
  fix x assume "unat a + 4 \<le> 4294967296" and x: "x \<in> word_at a"
  then have "unat (a + of_nat k) = unat a + k" if "k < 4" for k
    using that by (intro unat_add_no_wrap) simp
  from this [of 1] this [of 2] this [of 3] x show "x \<in> byte_range (unat a) (unat a + 4)"
    by (auto simp: word_at_def byte_range_def)
qed

lemma byte_range_apart: "b \<le> c \<or> d \<le> a \<Longrightarrow> byte_range a b \<inter> byte_range c d = {}"
  by (auto simp: byte_range_def)

lemma above_screen: "0x200000 \<le> unat x \<Longrightarrow> x \<notin> screen_cells"
  using unat_diff_above [of SCREEN x] by (simp add: screen_cells_def layout)

lemma above_screen_range: "0x200000 \<le> a \<Longrightarrow> A \<subseteq> byte_range a b \<Longrightarrow> A \<inter> screen_cells = {}"
  using above_screen by (auto simp: byte_range_def)

lemma boot_separate:
  assumes "placed im"
  shows "separate (boot_stacks im) {init_struct im, 0x507000, 0x503000}"
proof -
  let ?i = "init_struct im" and ?s = "unat (init_stack im)"
  have p: "0x200000 \<le> unat ?i" "unat ?i + 4 \<le> 0x300000" "0x200000 \<le> ?s" "?s + 0x8038 \<le> 0x300000"
      "unat ?i + 4 \<le> ?s \<or> ?s + 0x8038 \<le> unat ?i"
    using assms by (simp_all add: placed_def)
  have i: "?i \<noteq> 0x507000" "?i \<noteq> 0x503000"
    using p(2) by auto
  have st: "boot_stacks im ?i = byte_range ?s (?s + 0x8038)" "boot_stacks im 0x507000 = byte_range 0x508000 0x50c038"
      "boot_stacks im 0x503000 = byte_range 0x50c038 0x512038"
    using i by (simp_all add: boot_stacks_def)
  have d: "byte_range ?s (?s + 0x8038) \<inter> byte_range 0x508000 0x50c038 = {}"
      "byte_range ?s (?s + 0x8038) \<inter> byte_range 0x50c038 0x512038 = {}"
      "byte_range 0x508000 0x50c038 \<inter> byte_range 0x50c038 0x512038 = {}"
    by (rule byte_range_apart; use p(4) in simp)+
  have w: "word_at ?i \<subseteq> byte_range (unat ?i) (unat ?i + 4)" "word_at 0x507000 \<subseteq> byte_range 0x507000 0x507004"
      "word_at 0x503000 \<subseteq> byte_range 0x503000 0x503004"
    using word_at_range [of ?i] word_at_range [of "0x507000"] word_at_range [of "0x503000"] p(2) by simp_all
  have off: "byte_range ?s (?s + 0x8038) \<inter> screen_cells = {}" "byte_range 0x508000 0x50c038 \<inter> screen_cells = {}"
      "byte_range 0x50c038 0x512038 \<inter> screen_cells = {}"
    by (rule above_screen_range [OF _ subset_refl]; use p(3) in simp)+
  have offw: "word_at ?i \<inter> screen_cells = {}" "word_at 0x507000 \<inter> screen_cells = {}" "word_at 0x503000 \<inter> screen_cells = {}"
    using above_screen_range [OF p(1) w(1)] above_screen_range [OF _ w(2)] above_screen_range [OF _ w(3)] by simp_all
  have sw: "boot_stacks im t \<inter> word_at u = {}" if "t \<in> {?i, 0x507000, 0x503000}" "u \<in> {?i, 0x507000, 0x503000}" for t u
  proof -
    let ?lo = "if t = ?i then ?s else if t = 0x507000 then 0x508000 else 0x50c038"
      and ?hi = "if t = ?i then ?s + 0x8038 else if t = 0x507000 then 0x50c038 else 0x512038"
    have "boot_stacks im t = byte_range ?lo ?hi"
      using that(1) i by (auto simp: st)
    moreover have "word_at u \<subseteq> byte_range (unat u) (unat u + 4)"
      using that(2) w by auto
    moreover have "?hi \<le> unat u \<or> unat u + 4 \<le> ?lo"
      using that p i by auto
    ultimately show ?thesis
      using byte_range_apart [of ?hi "unat u" "unat u + 4" ?lo] by blast
  qed
  have ss: "boot_stacks im t \<inter> boot_stacks im u = {}"
    if "t \<in> {?i, 0x507000, 0x503000}" "u \<in> {?i, 0x507000, 0x503000}" "t \<noteq> u" for t u
    using that by (elim insertE emptyE) (simp_all add: st d Int_commute)
  have ww: "word_at t \<inter> word_at u = {}"
    if "t \<in> {?i, 0x507000, 0x503000}" "u \<in> {?i, 0x507000, 0x503000}" "t \<noteq> u" for t u
  proof -
    have "word_at x \<subseteq> byte_range (unat x) (unat x + 4)" if "x \<in> {?i, 0x507000, 0x503000}" for x
      using that w by auto
    moreover have "unat t + 4 \<le> unat u \<or> unat u + 4 \<le> unat t"
      using that p(2) by auto
    ultimately show ?thesis
      using that(1,2) byte_range_apart [of "unat t + 4" "unat u" "unat u + 4" "unat t"] by blast
  qed
  have sc: "(boot_stacks im t \<union> word_at t) \<inter> screen_cells = {}" if "t \<in> {?i, 0x507000, 0x503000}" for t
  proof -
    have "boot_stacks im t \<inter> screen_cells = {}"
      using that by (elim insertE emptyE) (simp_all only: st off)
    moreover have "word_at t \<inter> screen_cells = {}"
      using that by (elim insertE emptyE) (simp_all only: offw)
    ultimately show ?thesis
      by (simp add: Int_Un_distrib2)
  qed
  show ?thesis
    unfolding separate_def by (intro ballI conjI impI; rule sw ss ww sc; assumption)
qed

section \<open>The tasks the init thread leaves\<close>

text \<open>The registers of a thread that has not run: those \<^verbatim>\<open>set_regs\<close> stored, the rest from memory.\<close>

definition fresh_regs :: "u32 \<Rightarrow> u32 \<Rightarrow> regs \<Rightarrow> bool" where
  "fresh_regs fn sp r \<longleftrightarrow> EIP r = fn \<and> ESP r = sp \<and> CS r = ucast KERNEL_CS \<and> DS r = ucast KERNEL_DS
     \<and> ES r = ucast KERNEL_DS \<and> FS r = ucast KERNEL_DS \<and> GS r = ucast DIS_GS"

lemma thread_at_stopped:
  assumes "thread_at m t u bs pid fn" and "fits A (u + 0x8000) 56"
  shows "stopped A m t (frame_regs m (load32 m t))" and "fresh_regs fn (u + 0x8038) (frame_regs m (load32 m t))"
proof -
  have l: "load32 m t = u + 0x8000"
    using assms(1) by (simp add: thread_at_def layout)
  have "switch_to m (u + 0x8000) = \<lparr>f_gs = DIS_GS, f_fs = KERNEL_DS, f_es = KERNEL_DS, f_ds = KERNEL_DS,
       f_eip = fn, f_cs = KERNEL_CS, f_esp = u + 0x8000 + 56\<rparr>"
    using assms(1) by (simp add: thread_at_def frame_at_def KERNEL_STACK_SIZE_def)
  then show "fresh_regs fn (u + 0x8038) (frame_regs m (load32 m t))"
    unfolding l by (simp add: fresh_regs_def frame_regs_def switch_to_def)
  show "stopped A m t (frame_regs m (load32 m t))"
    using assms(2) by (simp add: stopped_def l)
qed

text \<open>The machine of the init thread behind \<^verbatim>\<open>init_thread\<close>, and its tasks.\<close>

definition init_tasks :: "image \<Rightarrow> machine \<Rightarrow> tasks" where
  "init_tasks im w = \<lparr>running = init_struct im, waiting = [0x507000, 0x503000], blocked = {}, live = core w,
     ctx = (\<lambda>t. frame_regs (ram w) (load32 (ram w) t)), clock = ticks (sc w)\<rparr>"

lemma init_tasks_run:
  assumes "schedules (sc w) (init_struct im) [0x507000, 0x503000]"
    and "thread_at (ram w) 0x507000 0x504000 bs1 pid fn1" and "thread_at (ram w) 0x503000 0x50a000 bs2 pid fn2"
  shows "runs_tasks (boot_stacks im) w (init_tasks im w)"
    and "fresh_regs fn1 0x50c038 (ctx (init_tasks im w) 0x507000)"
    and "fresh_regs fn2 0x512038 (ctx (init_tasks im w) 0x503000)"
proof -
  have f: "fits (boot_stacks im 0x507000) (0x504000 + 0x8000) 56" "fits (boot_stacks im 0x503000) (0x50a000 + 0x8000) 56"
    by (simp_all add: boot_stacks_def fits_byte_range)
  note t1 = thread_at_stopped [OF assms(2) f(1)] and t2 = thread_at_stopped [OF assms(3) f(2)]
  show "runs_tasks (boot_stacks im) w (init_tasks im w)"
    using assms(1) t1(1) t2(1) schedules_distinct [OF assms(1)]
    by (simp add: runs_tasks_def init_tasks_def tasks_ok_def)
  show "fresh_regs fn1 0x50c038 (ctx (init_tasks im w) 0x507000)"
    "fresh_regs fn2 0x512038 (ctx (init_tasks im w) 0x503000)"
    using t1(2) t2(2) by (simp_all add: init_tasks_def)
qed

section \<open>The first time slice\<close>

text \<open>Actions of threads that only compute: interrupts and own instructions.\<close>

definition computes :: "action list \<Rightarrow> bool" where
  "computes ls \<longleftrightarrow> (\<forall>a\<in>set ls. case a of Interrupt \<Rightarrow> True | Own r \<Rightarrow> True | _ \<Rightarrow> False)"

lemma within_slice:
  assumes "computes ls" and "unat (clock T) mod 20 + count_list ls Interrupt < 20"
    and "unat (clock T) + 20 < 4294967296"
  shows "running (fold act ls T) = running T \<and> waiting (fold act ls T) = waiting T
    \<and> unat (clock (fold act ls T)) = unat (clock T) + count_list ls Interrupt
    \<and> (\<forall>c. c \<noteq> running T \<longrightarrow> ctx (fold act ls T) c = ctx T c)"
  using assms
proof (induction ls rule: rev_induct)
  case Nil
  then show ?case by simp
next
  case (snoc a ls)
  let ?T = "fold act ls T"
  have IH: "running ?T = running T" "waiting ?T = waiting T"
      "unat (clock ?T) = unat (clock T) + count_list ls Interrupt"
      "\<And>c. c \<noteq> running T \<Longrightarrow> ctx ?T c = ctx T c"
    using snoc by (simp_all add: computes_def)
  show ?case
  proof (cases a)
    case Interrupt
    then have n: "unat (clock T) mod 20 + count_list ls Interrupt + 1 < 20"
      using snoc.prems(2) by simp
    then have u: "unat (clock ?T + 1) = unat (clock T) + count_list ls Interrupt + 1"
      using IH(3) snoc.prems(3) unat_add_no_wrap [of "clock ?T" 1] by simp
    then have "unat (clock ?T + 1) mod 20 \<noteq> 0"
      using n by presburger
    then have "(clock ?T + 1) mod 20 \<noteq> 0"
      by (simp add: unat_eq_0 [symmetric] unat_mod del: unat_eq_0)
    then have "act Interrupt ?T = ?T\<lparr>ctx := (ctx ?T)(running ?T := interrupted (live ?T)), clock := clock ?T + 1,
        live := interrupted (live ?T)\<rparr>"
      by (simp add: interrupt_tasks_def Let_def)
    moreover have "fold act (ls @ [a]) T = act Interrupt ?T"
      by (simp add: Interrupt)
    ultimately show ?thesis
      using IH u by (simp add: Interrupt)
  next
    case (Own r)
    then show ?thesis
      using IH by simp
  next
    case (Yield u)
    then have False
      using snoc.prems(1) by (simp add: computes_def)
    then show ?thesis ..
  next
    case (Wake u)
    then have False
      using snoc.prems(1) by (simp add: computes_def)
    then show ?thesis ..
  qed
qed

lemma computes_interrupts:
  "computes (replicate k Interrupt)" "count_list (replicate k Interrupt) Interrupt = k"
  by (simp add: computes_def) (induction k; simp)

text \<open>While the running thread only loops, each interrupt of the slice takes a word of its stack.\<close>

lemma slice_live:
  assumes "unat (clock T) mod 20 + k < 20" and "unat (clock T) + 20 < 4294967296"
  shows "live (fold act (replicate k Interrupt) T) = (live T)\<lparr>ESP := ESP (live T) - 4 * of_nat k\<rparr>"
  using assms(1)
proof (induction k)
  case 0
  then show ?case by simp
next
  case (Suc k)
  let ?T = "fold act (replicate k Interrupt) T" and ?ls = "replicate (Suc k) Interrupt"
  note c = computes_interrupts
  have nxt: "fold act ?ls T = act Interrupt ?T"
    by (simp add: replicate_append_same [symmetric] del: replicate.simps)
  have "running (act Interrupt ?T) = running ?T"
    using within_slice [OF c(1), of T "Suc k"] within_slice [OF c(1), of T k] Suc.prems assms(2)
    by (simp only: c(2) nxt)
  then have "live (act Interrupt ?T) = interrupted (live ?T)"
    by (simp add: interrupt_tasks_def Let_def split: if_splits)
  then show ?case
    unfolding nxt using Suc by (simp add: interrupted_def algebra_simps)
qed

text \<open>With room on the stack the slice goes on to its end.\<close>

lemma slice_interrupts:
  assumes run: "runs_tasks S w T" and sep: "separate S (members T)" and cc: "frames_within n cc" "n \<le> 268435456"
    and flag: "int_flag (wires w)"
    and room: "fits (S (running T)) (ESP (core w) - of_nat (60 + 4 * K + n)) (60 + 4 * K + n)"
    and slice: "unat (clock T) mod 20 + K < 20" "unat (clock T) + 20 < 4294967296"
  shows "k \<le> Suc K \<Longrightarrow> exec S (members T) cc n entry w (replicate k Interrupt) ((timer_interrupt cc entry ^^ k) w)
    \<and> int_flag (wires ((timer_interrupt cc entry ^^ k) w))"
proof (induction k)
  case 0
  then show ?case
    using flag by (simp add: exec_start)
next
  case (Suc k)
  let ?w = "(timer_interrupt cc entry ^^ k) w" and ?T = "fold act (replicate k Interrupt) T"
  have k: "k \<le> K" "unat (clock T) mod 20 + k < 20" and IH:
      "exec S (members T) cc n entry w (replicate k Interrupt) ?w" "int_flag (wires ?w)"
    using Suc slice by simp_all
  have "runs_tasks S ?w ?T"
    using exec_runs [OF IH(1) run refl sep cc] by simp
  moreover have "running ?T = running T"
    using within_slice [OF computes_interrupts(1), of T k] k(2) slice(2) by (simp add: computes_interrupts)
  ultimately have at: "current_thread (sc ?w) = running T" "ESP (core ?w) = ESP (core w) - 4 * of_nat k"
    using slice_live [OF k(2) slice(2)] runs_tasks_current [OF run]
      runs_tasks_current [of S ?w ?T] by simp_all
  have "fits (S (running T)) (ESP (core w) - of_nat (60 + 4 * K + n) + of_nat (4 * (K - k))) (60 + n)"
    by (rule fits_part [OF room]) simp
  moreover have "ESP (core w) - of_nat (60 + 4 * K + n) + of_nat (4 * (K - k)) = ESP (core ?w) - of_nat (60 + n)"
    using k(1) by (simp add: at of_nat_diff algebra_simps)
  ultimately have "fits (S (current_thread (sc ?w))) (ESP (core ?w) - of_nat (60 + n)) (60 + n)"
    by (simp only: at)
  note step = exec_interrupt [OF IH this]
  have "int_flag (wires (timer_interrupt cc entry ?w))"
    by (simp add: timer_interrupt_eq EOI_master_def sti_def)
  with step show ?case
    by (simp add: replicate_append_same)
qed

text \<open>
  From the boot to the first test thread: whatever the init thread and the timer do, the interrupt
  that ends the first time slice enters \<^verbatim>\<open>test_LOCK1\<close>.
\<close>

lemma first_slice:
  assumes "schedules (sc w) (init_struct im) [0x507000, 0x503000]" and "placed im"
    and "thread_at (ram w) 0x507000 0x504000 bs1 pid fn1" and "thread_at (ram w) 0x503000 0x50a000 bs2 pid fn2"
    and "exec (boot_stacks im) {init_struct im, 0x507000, 0x503000} cc n entry w (ls @ [Interrupt]) w'"
    and "frames_within n cc" and "n \<le> 268435456"
    and "computes ls" and "unat (ticks (sc w)) mod 20 + count_list ls Interrupt = 19"
    and "unat (ticks (sc w)) + 20 < 4294967296"
  shows "schedules (sc w') 0x507000 [0x503000, init_struct im] \<and> fresh_regs fn1 0x50c038 (core w')"
proof -
  let ?T = "init_tasks im w"
  let ?T' = "fold act ls ?T"
  have i: "init_struct im \<notin> {0x507000, 0x503000}"
    using assms(2) by (auto simp: placed_def)
  note T = init_tasks_run [OF assms(1,3,4)]
  have m: "members ?T = {init_struct im, 0x507000, 0x503000}"
    by (auto simp: members_def init_tasks_def)
  have run: "runs_tasks (boot_stacks im) w' (act Interrupt ?T')"
    using exec_runs [OF assms(5) T(1) m [symmetric] _ assms(6,7)] boot_separate [OF assms(2)] m by simp
  have c: "clock ?T = ticks (sc w)" "running ?T = init_struct im" "waiting ?T = [0x507000, 0x503000]"
    by (simp_all add: init_tasks_def)
  have T': "running ?T' = init_struct im" "waiting ?T' = [0x507000, 0x503000]"
      "unat (clock ?T') = unat (clock ?T) + count_list ls Interrupt" "ctx ?T' 0x507000 = ctx ?T 0x507000"
    using within_slice [OF assms(8), of ?T] assms(9,10) i c by (simp_all add: c)
  have u: "unat (clock ?T') + 1 = unat (clock ?T) + count_list ls Interrupt + 1"
    using T'(3) by simp
  then have "unat (clock ?T') + 1 < 4294967296"
    using assms(9,10) c(1) by simp
  from word_mod_20 [OF this] have "(clock ?T' + 1) mod 20 = 0"
    unfolding u using assms(9) c(1) by presburger
  then have "running (act Interrupt ?T') = 0x507000" "waiting (act Interrupt ?T') = [0x503000, init_struct im]"
      "live (act Interrupt ?T') = ctx ?T 0x507000"
    using T' i by (auto simp: interrupt_tasks_def Let_def)
  with run T(2) show ?thesis
    by (simp add: runs_tasks_def)
qed

lemma first_slice_happens:
  assumes "schedules (sc w) (init_struct im) [0x507000, 0x503000]" and "placed im"
    and "thread_at (ram w) 0x507000 0x504000 bs1 pid fn1" and "thread_at (ram w) 0x503000 0x50a000 bs2 pid fn2"
    and "frames_within n cc" and "n \<le> 268435456" and "int_flag (wires w)"
    and "fits (boot_stacks im (init_struct im)) (ESP (core w) - of_nat (132 + n)) (132 + n)"
    and "unat (ticks (sc w)) mod 20 = 1" and "unat (ticks (sc w)) + 20 < 4294967296"
  shows "exec (boot_stacks im) {init_struct im, 0x507000, 0x503000} cc n entry w
    (replicate 18 Interrupt @ [Interrupt]) ((timer_interrupt cc entry ^^ 19) w)"
proof -
  let ?T = "init_tasks im w"
  have m: "members ?T = {init_struct im, 0x507000, 0x503000}" "running ?T = init_struct im" "clock ?T = ticks (sc w)"
    by (auto simp: members_def init_tasks_def)
  have "exec (boot_stacks im) (members ?T) cc n entry w (replicate 19 Interrupt) ((timer_interrupt cc entry ^^ 19) w)"
    using slice_interrupts [OF init_tasks_run(1) [OF assms(1,3,4)] _ assms(5-7), of 18 19 entry]
      boot_separate [OF assms(2)] assms(8-10) by (simp add: m)
  moreover have "replicate 19 Interrupt = replicate 18 Interrupt @ [Interrupt]"
    by (simp add: eval_nat_numeral)
  ultimately show ?thesis
    by (simp only: m)
qed

end
