(* ===== verification/Paging.thy ===== *)
theory Paging
  imports PageAlloc
begin

text \<open>
  Paging set-up, \<^verbatim>\<open>src/kernel/mm/page.h\<close> and \<^verbatim>\<open>page.c\<close> (lines 97 to 166): the number
  of pages and page tables for the RAM the E820 map reports, the loops that fill the page
  directory at 1 MB and the page tables behind it, and the switch to paging. The loops are
  modelled as the state after their first \<^verbatim>\<open>k\<close> rounds.
\<close>

section \<open>Constants\<close>

definition PAGE_ENTRYS :: nat where [layout]: "PAGE_ENTRYS = 0x1000 div 4"
definition PAGE_DIR_LOCAL :: u32 where [layout]: "PAGE_DIR_LOCAL = 0x100000"
definition PAGE_TABLE_LOCAL :: u32 where [layout]: "PAGE_TABLE_LOCAL = 0x101000"

section \<open>How many pages and tables\<close>

text \<open>The loop keeps the last RAM entry of the map; \<^verbatim>\<open>&memory_map[0]\<close> if there is none.\<close>

function last_ram :: "mm_info \<Rightarrow> nat \<Rightarrow> e820_ARDS \<Rightarrow> e820_ARDS outcome" where
  "last_ram g i tmp_map =
     (if i < unat (memory_map_cnt (kernel_info g))
      then bind_outcome (memory_map_at g i) (\<lambda>e.
        last_ram g (Suc i) (if e820_type e = 1 then e else tmp_map))
      else Inr tmp_map)"
  by pat_completeness auto
termination
  by (relation "measure (\<lambda>(g, i, e). unat (memory_map_cnt (kernel_info g)) - i)") auto

declare last_ram.simps [simp del]

definition get_page_cnt :: "mm_info \<Rightarrow> u32 outcome" where
  "get_page_cnt g =
     bind_outcome (memory_map_at g 0) (\<lambda>e0.
     bind_outcome (last_ram g 0 e0) (\<lambda>tmp_map.
       let end_address = baselow tmp_map + lenthlow tmp_map
       in Inr ((end_address + PAGE_SIZE - 1) div PAGE_SIZE)))"

definition get_ptet_cnt :: "u32 \<Rightarrow> u32" where
  "get_ptet_cnt cnt = (cnt + 1023) div 1024"

section \<open>set\_page\<close>

record page_fill =
  pf_mem :: bmem
  pagebase :: u32
  tmptable :: u32

primrec fill_table :: "nat \<Rightarrow> page_fill \<Rightarrow> page_fill" where
  "fill_table 0 f = f"
| "fill_table (Suc PG) f =
     (let f = fill_table PG f in
      f\<lparr>pf_mem := store32 (pf_mem f) (tmptable f + 4 * of_nat PG) (pagebase f OR 0x7),
        pagebase := pagebase f + PAGE_SIZE\<rparr>)"

primrec fill_dir :: "nat \<Rightarrow> u32 \<Rightarrow> page_fill \<Rightarrow> page_fill" where
  "fill_dir 0 tmpdir f = f"
| "fill_dir (Suc PT) tmpdir f =
     (let f = fill_dir PT tmpdir f;
          f = f\<lparr>pf_mem := store32 (pf_mem f) (tmpdir + 4 * of_nat PT)
                 ((tmptable f AND NOT (PAGE_SIZE - 1)) OR 0x7)\<rparr>;
          f = fill_table PAGE_ENTRYS f
      in f\<lparr>tmptable := tmptable f + 4 * of_nat PAGE_ENTRYS\<rparr>)"

primrec fill_dirs :: "nat \<Rightarrow> nat \<Rightarrow> page_fill \<Rightarrow> page_fill \<times> u32" where
  "fill_dirs 0 PTET_cnt f = (f, PAGE_DIR_LOCAL)"
| "fill_dirs (Suc PD) PTET_cnt f =
     (let (f, tmpdir) = fill_dirs PD PTET_cnt f
      in (fill_dir PTET_cnt tmpdir f, tmpdir + 4 * of_nat PAGE_ENTRYS))"

record vm_state =
  pages :: page_state
  cr0 :: u32
  cr3 :: u32

definition set_page :: "mm_info \<Rightarrow> vm_state \<Rightarrow> vm_state outcome" where
  "set_page g s =
     bind_outcome (get_page_cnt g) (\<lambda>PAGE_cnt.
       let PTET_cnt = get_ptet_cnt PAGE_cnt;
           PDET_cnt = get_ptet_cnt PTET_cnt;
           f = \<lparr>pf_mem = mem (pages s), pagebase = PAGE_SIZE * 0, tmptable = PAGE_TABLE_LOCAL\<rparr>;
           f = fst (fill_dirs (unat PDET_cnt) (unat PTET_cnt) f);
           s = s\<lparr>pages := (pages s)\<lparr>mem := pf_mem f\<rparr>, cr3 := PAGE_DIR_LOCAL,
                 cr0 := cr0 s OR 0x80000000\<rparr>
       in bind_outcome (init_page_bit_map g (pages s)) (\<lambda>p. Inr (s\<lparr>pages := p\<rparr>)))"

section \<open>Bounds on the counts\<close>

lemma unat_div_u32: "unat ((a :: u32) div b) = unat a div unat b"
  by (rule unat_div_distrib)

lemma page_count_bound: "unat ((e :: u32) div PAGE_SIZE) < 1048576"
  using unat_u32_bound [of e] by (simp add: unat_div_u32 layout less_mult_imp_div_less)

lemma unat_get_ptet_cnt:
  "unat c < 4294966272 \<Longrightarrow> unat (get_ptet_cnt c) = (unat c + 1023) div 1024"
  using unat_add_no_wrap [of c 1023] by (simp add: get_ptet_cnt_def unat_div_u32)

lemma get_page_cnt_bound: "get_page_cnt g = Inr c \<Longrightarrow> unat c < 1048576"
  using page_count_bound by (auto simp: get_page_cnt_def bind_outcome_Inr)

lemma ptet_cnt_bounds:
  assumes "get_page_cnt g = Inr c"
  shows "unat (get_ptet_cnt c) \<le> 1024" and "unat (get_ptet_cnt (get_ptet_cnt c)) \<le> 1"
    and "get_ptet_cnt c \<noteq> 0 \<Longrightarrow> unat (get_ptet_cnt (get_ptet_cnt c)) = 1"
proof -
  have c: "unat c < 1048576"
    using assms by (rule get_page_cnt_bound)
  then have t: "unat (get_ptet_cnt c) = (unat c + 1023) div 1024"
    by (simp add: unat_get_ptet_cnt)
  with c show le: "unat (get_ptet_cnt c) \<le> 1024"
    by simp
  then have d: "unat (get_ptet_cnt (get_ptet_cnt c)) = (unat (get_ptet_cnt c) + 1023) div 1024"
    by (simp add: unat_get_ptet_cnt)
  with le show "unat (get_ptet_cnt (get_ptet_cnt c)) \<le> 1"
    by simp
  assume "get_ptet_cnt c \<noteq> 0"
  then have "0 < unat (get_ptet_cnt c)"
    by (simp add: unat_gt_0)
  with le d show "unat (get_ptet_cnt (get_ptet_cnt c)) = 1"
    by simp
qed

section \<open>What the loops write\<close>

text \<open>
  Directory and tables together are an array of 32-bit cells at 1 MB: cells 0 to 1023 are the
  directory, the cells from \<^verbatim>\<open>1024 * (t + 1)\<close> on are table \<^verbatim>\<open>t\<close>.
\<close>

abbreviation pcell :: "page_fill \<Rightarrow> nat \<Rightarrow> u32" where
  "pcell f \<equiv> cell (pf_mem f) PAGE_DIR_LOCAL"

lemma fill_table_cells:
  assumes tab: "tmptable f = PAGE_DIR_LOCAL + 4 * of_nat c"
  shows "c + k < 268435456 \<Longrightarrow> tmptable (fill_table k f) = tmptable f
    \<and> pagebase (fill_table k f) = pagebase f + of_nat k * PAGE_SIZE
    \<and> (\<forall>x < 268435456. pcell (fill_table k f) x =
      (if c \<le> x \<and> x < c + k then (pagebase f + of_nat (x - c) * PAGE_SIZE) OR 0x7 else pcell f x))"
proof (induction k)
  case 0
  then show ?case by auto
next
  case (Suc k)
  then have IH: "tmptable (fill_table k f) = tmptable f"
      "pagebase (fill_table k f) = pagebase f + of_nat k * PAGE_SIZE"
      "\<And>x. x < 268435456 \<Longrightarrow> pcell (fill_table k f) x =
        (if c \<le> x \<and> x < c + k then (pagebase f + of_nat (x - c) * PAGE_SIZE) OR 0x7 else pcell f x)"
    by auto
  have "tmptable (fill_table k f) + 4 * of_nat k = PAGE_DIR_LOCAL + 4 * of_nat (c + k)"
    by (simp add: IH(1) tab algebra_simps)
  then have "fill_table (Suc k) f = (fill_table k f)
      \<lparr>pf_mem := store32 (pf_mem (fill_table k f)) (PAGE_DIR_LOCAL + 4 * of_nat (c + k))
        (pagebase (fill_table k f) OR 0x7), pagebase := pagebase (fill_table k f) + PAGE_SIZE\<rparr>"
    by (simp only: fill_table.simps Let_def)
  then have "pcell (fill_table (Suc k) f) x =
      (if x = c + k then (pagebase f + of_nat k * PAGE_SIZE) OR 0x7 else pcell (fill_table k f) x)"
    if "x < 268435456" for x
    using that Suc.prems cell_store32 [of x "c + k"] by (simp add: IH(2) del: of_nat_add)
  then show ?case
    using IH by (auto simp: Let_def algebra_simps)
qed

definition first_fill :: "bmem \<Rightarrow> page_fill" where
  "first_fill m = \<lparr>pf_mem = m, pagebase = PAGE_SIZE * 0, tmptable = PAGE_TABLE_LOCAL\<rparr>"

definition dir_entry_word :: "nat \<Rightarrow> u32" where
  "dir_entry_word x = ((PAGE_DIR_LOCAL + 4 * of_nat (1024 * Suc x)) AND NOT (PAGE_SIZE - 1)) OR 0x7"

lemma fill_dir_cells:
  "t \<le> 1024 \<Longrightarrow>
    tmptable (fill_dir t PAGE_DIR_LOCAL (first_fill m)) = PAGE_DIR_LOCAL + 4 * of_nat (1024 * Suc t)
    \<and> pagebase (fill_dir t PAGE_DIR_LOCAL (first_fill m)) = of_nat (1024 * t) * PAGE_SIZE
    \<and> (\<forall>x < 268435456. pcell (fill_dir t PAGE_DIR_LOCAL (first_fill m)) x =
      (if x < t then dir_entry_word x
       else if 1024 \<le> x \<and> x < 1024 * Suc t then (of_nat (x - 1024) * PAGE_SIZE) OR 0x7
       else cell m PAGE_DIR_LOCAL x))"
proof (induction t)
  case 0
  then show ?case by (auto simp: first_fill_def layout)
next
  case (Suc t)
  let ?f = "fill_dir t PAGE_DIR_LOCAL (first_fill m)"
  let ?g = "?f\<lparr>pf_mem := store32 (pf_mem ?f) (PAGE_DIR_LOCAL + 4 * of_nat t)
    ((tmptable ?f AND NOT (PAGE_SIZE - 1)) OR 0x7)\<rparr>"
  have t: "t < 1024" using Suc.prems by simp
  with Suc.IH have IH: "tmptable ?f = PAGE_DIR_LOCAL + 4 * of_nat (1024 * Suc t)"
      "pagebase ?f = of_nat (1024 * t) * PAGE_SIZE"
      "\<And>x. x < 268435456 \<Longrightarrow> pcell ?f x = (if x < t then dir_entry_word x
         else if 1024 \<le> x \<and> x < 1024 * Suc t then (of_nat (x - 1024) * PAGE_SIZE) OR 0x7
         else cell m PAGE_DIR_LOCAL x)"
    by (simp_all only: less_imp_le)
  have g: "pcell ?g x = (if x = t then dir_entry_word t else pcell ?f x)" if "x < 268435456" for x
    using that t by (simp add: cell_store32 dir_entry_word_def IH(1))
  have "tmptable ?g = PAGE_DIR_LOCAL + 4 * of_nat (1024 * Suc t)"
      "1024 * Suc t + PAGE_ENTRYS < 268435456"
    using IH(1) t by (simp_all add: layout)
  note table = fill_table_cells [OF this]
  define G where "G = fill_table PAGE_ENTRYS ?g"
  have T: "tmptable G = PAGE_DIR_LOCAL + 4 * of_nat (1024 * Suc t)"
      "pagebase G = of_nat (1024 * t) * PAGE_SIZE + of_nat PAGE_ENTRYS * PAGE_SIZE"
    using table IH(1,2) by (simp_all add: G_def)
  have T3: "pcell G x = (if 1024 * Suc t \<le> x \<and> x < 1024 * Suc t + PAGE_ENTRYS
      then (of_nat (1024 * t) * PAGE_SIZE + of_nat (x - 1024 * Suc t) * PAGE_SIZE) OR 0x7
      else pcell ?g x)" if "x < 268435456" for x
  proof -
    have "pagebase ?g = of_nat (1024 * t) * PAGE_SIZE"
      using IH(2) by simp
    from table [THEN conjunct2, THEN conjunct2, rule_format, OF that, unfolded this]
    show ?thesis by (simp only: G_def)
  qed
  have step: "fill_dir (Suc t) PAGE_DIR_LOCAL (first_fill m) =
      G\<lparr>tmptable := tmptable G + 4 * of_nat PAGE_ENTRYS\<rparr>"
    by (simp add: Let_def G_def)
  have base: "of_nat (1024 * t) * PAGE_SIZE + of_nat (x - 1024 * Suc t) * PAGE_SIZE
      = of_nat (x - 1024) * PAGE_SIZE" if "1024 * Suc t \<le> x" for x
  proof -
    have "x - 1024 = 1024 * t + (x - 1024 * Suc t)"
      using that by simp
    then show ?thesis
      by (simp only: of_nat_add distrib_right)
  qed
  have "pcell (fill_dir (Suc t) PAGE_DIR_LOCAL (first_fill m)) x =
      (if 1024 * Suc t \<le> x \<and> x < 1024 * Suc t + PAGE_ENTRYS then (of_nat (x - 1024) * PAGE_SIZE) OR 0x7
       else if x = t then dir_entry_word t else pcell ?f x)" if "x < 268435456" for x
  proof -
    have "pcell (fill_dir (Suc t) PAGE_DIR_LOCAL (first_fill m)) x = pcell G x"
      unfolding step by simp
    then show ?thesis
      unfolding T3 [OF that] g [OF that] using base [of x]
      by (cases "1024 * Suc t \<le> x") (simp_all only: simp_thms if_True if_False)
  qed
  then have "pcell (fill_dir (Suc t) PAGE_DIR_LOCAL (first_fill m)) x = (if x < Suc t then dir_entry_word x
       else if 1024 \<le> x \<and> x < 1024 * Suc (Suc t) then (of_nat (x - 1024) * PAGE_SIZE) OR 0x7
       else cell m PAGE_DIR_LOCAL x)" if "x < 268435456" for x
    using that t IH(3) [OF that] by (cases "x < 1024 * Suc t"; cases "x = t") (simp_all add: layout)
  moreover have "tmptable (fill_dir (Suc t) PAGE_DIR_LOCAL (first_fill m))
      = PAGE_DIR_LOCAL + 4 * of_nat (1024 * Suc (Suc t))"
    using T unfolding step by (simp add: layout algebra_simps)
  moreover have "pagebase (fill_dir (Suc t) PAGE_DIR_LOCAL (first_fill m))
      = of_nat (1024 * Suc t) * PAGE_SIZE"
    using T unfolding step by (simp add: layout algebra_simps)
  ultimately show ?case
    by blast
qed

lemma store32_frame_above:
  assumes "4 * Suc x \<le> unat (b - a)"
  shows "store32 m (a + 4 * of_nat x) v b = m b"
proof (rule store32_frame)
  have "4 * x < 4294967296"
    by (rule le_less_trans [OF _ unat_u32_bound [of "b - a"]]) (use assms in simp)
  then have "unat (of_nat (4 * x) :: u32) = 4 * x"
    by (rule unat_of_nat_u32)
  then have x: "unat (4 * of_nat x :: u32) = 4 * x"
    by simp
  have "b - (a + 4 * of_nat x) = (b - a) - 4 * of_nat x"
    by (simp add: algebra_simps)
  moreover have "unat ((b - a) - 4 * of_nat x) = unat (b - a) - 4 * x"
    using assms x by (simp add: unat_sub word_le_nat_alt)
  ultimately have "unat (b - (a + 4 * of_nat x)) = unat (b - a) - 4 * x"
    by (simp only:)
  then show "4 \<le> b - (a + 4 * of_nat x)"
    unfolding word_le_nat_alt using assms by simp
qed

lemma fill_table_frame:
  assumes "tmptable f = PAGE_DIR_LOCAL + 4 * of_nat c"
  shows "4 * (c + k) \<le> unat (b - PAGE_DIR_LOCAL) \<Longrightarrow> c + k < 268435456 \<Longrightarrow>
    pf_mem (fill_table k f) b = pf_mem f b"
proof (induction k)
  case 0
  then show ?case by simp
next
  case (Suc k)
  have "tmptable (fill_table k f) + 4 * of_nat k = PAGE_DIR_LOCAL + 4 * of_nat (c + k)"
    using fill_table_cells [OF assms, of k] Suc.prems by (simp add: assms algebra_simps)
  then show ?case
    using Suc store32_frame_above [of "c + k" b PAGE_DIR_LOCAL]
    by (simp add: Let_def del: of_nat_add)
qed

lemma fill_dir_frame:
  "4096 * Suc t \<le> unat (b - PAGE_DIR_LOCAL) \<Longrightarrow> t \<le> 1024 \<Longrightarrow>
    pf_mem (fill_dir t PAGE_DIR_LOCAL (first_fill m)) b = m b"
proof (induction t)
  case 0
  then show ?case by (simp add: first_fill_def)
next
  case (Suc t)
  let ?f = "fill_dir t PAGE_DIR_LOCAL (first_fill m)"
  let ?g = "?f\<lparr>pf_mem := store32 (pf_mem ?f) (PAGE_DIR_LOCAL + 4 * of_nat t)
    ((tmptable ?f AND NOT (PAGE_SIZE - 1)) OR 0x7)\<rparr>"
  have tab: "tmptable ?g = PAGE_DIR_LOCAL + 4 * of_nat (1024 * Suc t)"
    using fill_dir_cells [of t m] Suc.prems by simp
  have "pf_mem (fill_table PAGE_ENTRYS ?g) b = pf_mem ?g b"
    using Suc.prems by (intro fill_table_frame [OF tab]) (simp_all add: layout)
  moreover have "pf_mem ?g b = pf_mem ?f b"
    using store32_frame_above [of t b PAGE_DIR_LOCAL] Suc.prems by simp
  ultimately show ?case
    using Suc by (simp add: Let_def)
qed

section \<open>Address translation\<close>

text \<open>
  The two-level page walk of the processor, as the specification the tables are checked
  against: directory entry, table entry, both with the present bit set.
\<close>

definition walk :: "bmem \<Rightarrow> u32 \<Rightarrow> u32 \<Rightarrow> u32 option" where
  "walk m dir v =
     (let pde = load32 m ((dir AND NOT (mask 12)) + 4 * drop_bit 22 v) in
      if \<not> bit pde 0 then None
      else let pte = load32 m ((pde AND NOT (mask 12)) + 4 * (drop_bit 12 v AND mask 10)) in
      if \<not> bit pte 0 then None
      else Some ((pte AND NOT (mask 12)) OR (v AND mask 12)))"

lemma page_entry:
  fixes x :: u32
  shows "(push_bit 12 x OR 0x7) AND NOT (mask 12) = push_bit 12 x" and "bit (push_bit 12 x OR 0x7) 0"
    and "push_bit 12 x AND NOT (mask 12) = push_bit 12 x"
proof -
  have "(push_bit 12 x OR mask 3) AND NOT (mask 12) = push_bit 12 x"
    by (rule bit_word_eqI)
      (auto simp: bit_or_iff bit_and_iff bit_not_iff bit_mask_iff bit_push_bit_iff)
  then show "(push_bit 12 x OR 0x7) AND NOT (mask 12) = push_bit 12 x"
    by (simp add: mask_numeral)
  show "bit (push_bit 12 x OR 0x7) 0"
    by (simp add: bit_or_iff)
  show "push_bit 12 x AND NOT (mask 12) = push_bit 12 x"
    by (rule bit_word_eqI) (auto simp: bit_and_iff bit_not_iff bit_mask_iff bit_push_bit_iff)
qed

lemma page_split: "push_bit 12 (drop_bit 12 v) OR (v AND mask 12) = (v :: u32)"
  by (rule bit_word_eqI) (auto simp: bit_or_iff bit_and_iff bit_mask_iff bit_push_bit_iff bit_drop_bit_eq)

lemma of_nat_page: "of_nat n * PAGE_SIZE = push_bit 12 (of_nat n)"
  by (simp add: layout push_bit_eq_mult)

lemma table_addr: "PAGE_DIR_LOCAL + 4 * of_nat (1024 * n) = push_bit 12 (of_nat (256 + n))"
  by (simp add: layout push_bit_eq_mult)

text \<open>The two indices the walk takes from an address.\<close>

lemma page_index:
  fixes v :: u32
  assumes "d = unat v div 4194304" and "e = unat v div 4096 mod 1024"
  shows "drop_bit 22 v = of_nat d" and "drop_bit 12 v AND mask 10 = of_nat e"
    and "drop_bit 12 v = of_nat (1024 * d + e)"
proof -
  show "drop_bit 22 v = of_nat d"
    using drop_bit_of_nat [of 22 v] by (simp add: assms(1))
  have p: "drop_bit 12 v = of_nat (unat v div 4096)"
    using drop_bit_of_nat [of 12 v] by simp
  have "unat v div 4096 = 1024 * d + e"
    using div_mult2_eq [of "unat v" 4096 1024] by (simp add: assms)
  with p show "drop_bit 12 v = of_nat (1024 * d + e)"
    by simp
  have "unat v div 4096 < 4294967296"
    by (rule le_less_trans [OF div_le_dividend unat_u32_bound])
  then have "unat (drop_bit 12 v AND mask 10) = e"
    unfolding unat_and_mask p by (simp add: assms(2))
  then show "drop_bit 12 v AND mask 10 = of_nat e"
    by (rule word_eq_of_nat)
qed

lemma walk_identity:
  assumes "\<And>x. x < 1024 * Suc t \<Longrightarrow> cell m PAGE_DIR_LOCAL x =
      (if x < t then dir_entry_word x
       else if 1024 \<le> x \<and> x < 1024 * Suc t then (of_nat (x - 1024) * PAGE_SIZE) OR 0x7
       else c x)"
    and "t \<le> 1024" and "unat v div 4194304 < t"
  shows "walk m PAGE_DIR_LOCAL v = Some v"
proof -
  define d e where "d = unat v div 4194304" and "e = unat v div 4096 mod 1024"
  note dv = page_index(1) [OF d_def e_def] and ev = page_index(2) [OF d_def e_def]
    and pv = page_index(3) [OF d_def e_def]
  have dir: "PAGE_DIR_LOCAL AND NOT (mask 12) = PAGE_DIR_LOCAL"
    using page_entry(3) [of "0x100"] by (simp add: layout)
  have "d < t" "e < 1024"
    using assms(3) by (simp_all add: d_def e_def)
  have entry: "dir_entry_word d = push_bit 12 (of_nat (256 + Suc d)) OR 0x7"
  proof -
    have "PAGE_SIZE - 1 = mask 12"
      by (simp add: layout mask_numeral)
    then show ?thesis
      by (simp only: dir_entry_word_def table_addr page_entry(3))
  qed
  have pde: "load32 m (PAGE_DIR_LOCAL + 4 * of_nat d) = push_bit 12 (of_nat (256 + Suc d)) OR 0x7"
    using assms(1) [of d] \<open>d < t\<close> entry by (simp add: cell_def)
  have "load32 m (push_bit 12 (of_nat (256 + Suc d)) + 4 * of_nat e)
      = cell m PAGE_DIR_LOCAL (1024 * Suc d + e)"
    unfolding cell_def table_addr [symmetric] by (simp add: algebra_simps)
  also have "\<dots> = push_bit 12 (of_nat (1024 * d + e)) OR 0x7"
    using assms(1) [of "1024 * Suc d + e"] assms(2) \<open>d < t\<close> \<open>e < 1024\<close>
      of_nat_page [of "1024 * d + e"] by simp
  finally show ?thesis
    unfolding walk_def Let_def dir dv pde page_entry ev
    by (simp only: page_entry not_True_eq_False if_False page_split flip: pv)
qed

section \<open>set\_page as a whole\<close>

lemma last_ram_returns:
  assumes "unat (memory_map_cnt (kernel_info g)) \<le> length (memory_map g)"
  shows "\<exists>e. last_ram g i e0 = Inr e"
proof (induction "unat (memory_map_cnt (kernel_info g)) - i" arbitrary: i e0)
  case 0
  then show ?case by (subst last_ram.simps) simp
next
  case (Suc d)
  with assms show ?case by (subst last_ram.simps) (simp add: memory_map_at_def)
qed

lemma get_page_cnt_returns:
  assumes "unat (memory_map_cnt (kernel_info g)) \<le> length (memory_map g)" and "0 < length (memory_map g)"
  shows "\<exists>c. get_page_cnt g = Inr c"
  using last_ram_returns [OF assms(1)] assms(2)
  by (auto simp: get_page_cnt_def memory_map_at_def bind_outcome_Inr Let_def)

lemma bitmap_bytes_bound: "unat (((e :: u32) div PAGE_SIZE + 8 - 1) div 8) \<le> 131072"
proof -
  define q where "q = e div PAGE_SIZE"
  have q: "unat q < 1048576"
    unfolding q_def by (rule page_count_bound)
  then have "unat (q + of_nat 7) = unat q + 7"
    by (intro unat_add_no_wrap) simp
  moreover have "q + 8 - 1 = q + of_nat 7"
    by simp
  ultimately have "unat ((q + 8 - 1) div 8) = (unat q + 7) div 8"
    unfolding unat_div_u32 by (simp only:) simp
  with q show ?thesis
    by (simp flip: q_def)
qed

lemma init_page_bit_map_frame:
  assumes "unat (memory_map_cnt (kernel_info g)) \<le> length (memory_map g)"
  shows "\<exists>p. init_page_bit_map g s = Inr p \<and>
    (\<forall>b. 131072 \<le> unat (b - page_bit_map) \<longrightarrow> mem p b = mem s b)"
proof -
  let ?l = "foldl longer_ram 0 (take (unat (memory_map_cnt (kernel_info g))) (memory_map g)) - page_bit_map"
  let ?c = "(?l + PAGE_SIZE - 1) div PAGE_SIZE"
  let ?n = "(?c + 8 - 1) div 8"
  let ?p = "s\<lparr>mem := (clear_bytes (unat ?n) page_bit_map (mem s))(page_bit_map := push_bit 7 1),
    page_cnt := ?c, page_bit_map_cnt := ?n\<rparr>"
  have "init_page_bit_map g s = Inr ?p"
    using max_lenth_within [OF assms, of 0 0]
    by (simp only: init_page_bit_map_def drop_0 bind_outcome.simps Let_def)
  moreover have "mem ?p b = mem s b" if "131072 \<le> unat (b - page_bit_map)" for b
  proof -
    have "unat ?n \<le> 131072"
      by (rule bitmap_bytes_bound)
    moreover have "b \<noteq> page_bit_map"
      using that by auto
    ultimately show ?thesis
      using that by (simp add: clear_bytes_apply)
  qed
  ultimately show ?thesis by blast
qed

lemma init_page_bit_map_fresh:
  assumes "unat (memory_map_cnt (kernel_info g)) \<le> length (memory_map g)"
    and "0x510000 \<le> unat (foldl longer_ram 0 (take (unat (memory_map_cnt (kernel_info g))) (memory_map g)))"
    and "init_page_bit_map g s = Inr p"
  shows "mem p page_bit_map = 0x80" and "2 \<le> unat (page_bit_map_cnt p)"
proof -
  define L where "L = foldl longer_ram 0 (take (unat (memory_map_cnt (kernel_info g))) (memory_map g))"
  define l where "l = L - page_bit_map"
  let ?c = "(l + PAGE_SIZE - 1) div PAGE_SIZE"
  have p: "mem p page_bit_map = push_bit 7 1" "page_bit_map_cnt p = (?c + 8 - 1) div 8"
    using assms(3) max_lenth_within [OF assms(1), of 0 0]
    by (auto simp: init_page_bit_map_def l_def L_def Let_def)
  then show "mem p page_bit_map = 0x80"
    by simp
  have l: "0x10000 \<le> unat l" "unat l < 4294967296 - 0x500000"
    using assms(2) [folded L_def] unat_u32_bound [of L] by (simp_all add: l_def unat_sub_if_size layout less_diff_conv2)
  then have "unat (l + of_nat 4095) = unat l + 4095"
    by (intro unat_add_no_wrap) simp
  moreover have "?c = (l + of_nat 4095) div PAGE_SIZE"
    by (simp add: layout algebra_simps)
  moreover have "unat PAGE_SIZE = 4096"
    by (simp add: layout)
  ultimately have c: "unat ?c = (unat l + 4095) div 4096"
    by (simp only: unat_div_u32)
  then have "unat (?c + of_nat 7) = unat ?c + 7"
    using l by (intro unat_add_no_wrap) simp
  moreover have "page_bit_map_cnt p = (?c + of_nat 7) div 8"
    by (simp add: p(2) algebra_simps)
  moreover have "unat (8 :: u32) = 8"
    by simp
  ultimately have "unat (page_bit_map_cnt p) = (unat ?c + 7) div 8"
    by (simp only: unat_div_u32)
  with c l show "2 \<le> unat (page_bit_map_cnt p)"
    by simp
qed

lemma set_page_eq:
  fixes s :: vm_state
  assumes "get_page_cnt g = Inr c"
  defines "M \<equiv> pf_mem (fill_dir (unat (get_ptet_cnt c)) PAGE_DIR_LOCAL (first_fill (mem (pages s))))"
  shows "set_page g s = bind_outcome (init_page_bit_map g ((pages s)\<lparr>mem := M\<rparr>))
    (\<lambda>p. Inr (s\<lparr>cr3 := PAGE_DIR_LOCAL, cr0 := cr0 s OR 0x80000000, pages := p\<rparr>))"
proof -
  let ?T = "get_ptet_cnt c"
  have "fst (fill_dirs (unat (get_ptet_cnt ?T)) (unat ?T) (first_fill (mem (pages s))))
      = fill_dir (unat ?T) PAGE_DIR_LOCAL (first_fill (mem (pages s)))"
  proof (cases "?T = 0")
    case True
    then have "unat (get_ptet_cnt ?T) = 0"
      using unat_get_ptet_cnt [of ?T] by simp
    with True show ?thesis by simp
  next
    case False
    then have "unat (get_ptet_cnt ?T) = Suc 0"
      using ptet_cnt_bounds(3) [OF assms(1)] by simp
    then show ?thesis by simp
  qed
  then show ?thesis
    by (simp add: set_page_def assms(1) M_def Let_def first_fill_def)
qed

text \<open>The cells of the directory and the tables lie below the page bitmap.\<close>

lemma cell_below_bitmap:
  assumes "\<And>b. 131072 \<le> unat (b - page_bit_map) \<Longrightarrow> m' b = m b" and "x < 1048576"
  shows "cell m' PAGE_DIR_LOCAL x = cell m PAGE_DIR_LOCAL x"
  unfolding cell_def
proof (rule load32_cong)
  fix i :: nat
  assume "i < 4"
  let ?k = "4 * x + i"
  have k: "?k < 4194304"
    using assms(2) \<open>i < 4\<close> by simp
  then have lt: "4290772992 + ?k < 4294967296"
    by simp
  have "PAGE_DIR_LOCAL + 4 * of_nat x + of_nat i - page_bit_map = of_nat (4290772992 + ?k)"
    by (simp add: layout)
  then have "unat (PAGE_DIR_LOCAL + 4 * of_nat x + of_nat i - page_bit_map) = 4290772992 + ?k"
    using unat_of_nat_u32 [OF lt] by (simp only:)
  then show "m' (PAGE_DIR_LOCAL + 4 * of_nat x + of_nat i) = m (PAGE_DIR_LOCAL + 4 * of_nat x + of_nat i)"
    by (intro assms(1)) simp
qed

lemma set_page_cells:
  assumes "unat (memory_map_cnt (kernel_info g)) \<le> length (memory_map g)"
    and "get_page_cnt g = Inr c" and "unat (get_ptet_cnt c) \<le> 1023"
  defines "T \<equiv> unat (get_ptet_cnt c)"
  shows "\<exists>s'. set_page g s = Inr s' \<and> cr3 s' = PAGE_DIR_LOCAL \<and> cr0 s' = cr0 s OR 0x80000000
    \<and> (\<forall>x < 1024 * Suc T. cell (mem (pages s')) PAGE_DIR_LOCAL x =
      (if x < T then dir_entry_word x
       else if 1024 \<le> x \<and> x < 1024 * Suc T then (of_nat (x - 1024) * PAGE_SIZE) OR 0x7
       else cell (mem (pages s)) PAGE_DIR_LOCAL x))
    \<and> (\<forall>b. 131072 \<le> unat (b - page_bit_map) \<and> 4096 * Suc T \<le> unat (b - PAGE_DIR_LOCAL)
      \<longrightarrow> mem (pages s') b = mem (pages s) b)"
proof -
  let ?M = "pf_mem (fill_dir T PAGE_DIR_LOCAL (first_fill (mem (pages s))))"
  obtain p where p: "init_page_bit_map g ((pages s)\<lparr>mem := ?M\<rparr>) = Inr p"
      "\<And>b. 131072 \<le> unat (b - page_bit_map) \<Longrightarrow> mem p b = ?M b"
    using init_page_bit_map_frame [OF assms(1), of "(pages s)\<lparr>mem := ?M\<rparr>"] by auto
  let ?s = "s\<lparr>cr3 := PAGE_DIR_LOCAL, cr0 := cr0 s OR 0x80000000, pages := p\<rparr>"
  have T: "T \<le> 1024" "1024 * Suc T \<le> 1048576"
    using assms(3) by (simp_all add: T_def)
  have "set_page g s = Inr ?s"
    using set_page_eq [OF assms(2), of s] p(1) by (simp add: T_def)
  moreover have "cell (mem p) PAGE_DIR_LOCAL x = (if x < T then dir_entry_word x
      else if 1024 \<le> x \<and> x < 1024 * Suc T then (of_nat (x - 1024) * PAGE_SIZE) OR 0x7
      else cell (mem (pages s)) PAGE_DIR_LOCAL x)" if "x < 1024 * Suc T" for x
  proof -
    have "x < 1048576" "x < 268435456"
      using that T(2) by simp_all
    then show ?thesis
      using fill_dir_cells [OF T(1), of "mem (pages s)"] cell_below_bitmap [of "mem p" ?M x] p(2)
      by simp
  qed
  moreover have "mem p b = mem (pages s) b"
    if "131072 \<le> unat (b - page_bit_map)" "4096 * Suc T \<le> unat (b - PAGE_DIR_LOCAL)" for b
    using p(2) [OF that(1)] fill_dir_frame [OF that(2) T(1)] by simp
  ultimately show ?thesis
    by (intro exI [of _ ?s]) simp
qed

lemma page_in_tables:
  assumes "get_page_cnt g = Inr c" and "unat v < unat c * 4096"
  shows "unat v div 4194304 < unat (get_ptet_cnt c)"
proof -
  have "unat c < 1048576"
    using assms(1) by (rule get_page_cnt_bound)
  then have T: "unat (get_ptet_cnt c) = (unat c + 1023) div 1024"
    by (simp add: unat_get_ptet_cnt)
  have "unat v div 4096 < unat c"
    using assms(2) by (simp add: less_mult_imp_div_less)
  then have "unat v div 4096 div 1024 < unat (get_ptet_cnt c)"
    unfolding T by linarith
  then show ?thesis
    using div_mult2_eq [of "unat v" 4096 1024] by simp
qed

text \<open>
  Up to 255 tables end below the kernel image, so that what is written from there on leaves the
  translation as it is; and the image is left alone below the bitmap.
\<close>

lemma set_page_boot:
  fixes s :: vm_state
  assumes n: "unat (memory_map_cnt (kernel_info g)) \<le> length (memory_map g)"
    and c: "get_page_cnt g = Inr c" "unat (get_ptet_cnt c) \<le> 255"
    and ram: "0x510000 \<le> unat (foldl longer_ram 0 (take (unat (memory_map_cnt (kernel_info g))) (memory_map g)))"
  shows "\<exists>v. set_page g s = Inr v \<and> bit (cr0 v) 31
    \<and> (\<forall>m a. (\<forall>b. unat b < 0x200000 \<longrightarrow> m b = mem (pages v) b) \<longrightarrow> unat a < unat c * 4096
        \<longrightarrow> walk m (cr3 v) a = Some a)
    \<and> (\<forall>b. 0x200000 \<le> unat b \<longrightarrow> unat b < 0x500000 \<longrightarrow> mem (pages v) b = mem (pages s) b)
    \<and> mem (pages v) page_bit_map = 0x80 \<and> 2 \<le> unat (page_bit_map_cnt (pages v))"
proof -
  let ?T = "unat (get_ptet_cnt c)"
  have T: "?T \<le> 1023"
    using c(2) by simp
  obtain v where v: "set_page g s = Inr v" "cr3 v = PAGE_DIR_LOCAL" "cr0 v = cr0 s OR 0x80000000"
      and cells: "\<And>x. x < 1024 * Suc ?T \<Longrightarrow> cell (mem (pages v)) PAGE_DIR_LOCAL x =
        (if x < ?T then dir_entry_word x
         else if 1024 \<le> x \<and> x < 1024 * Suc ?T then (of_nat (x - 1024) * PAGE_SIZE) OR 0x7
         else cell (mem (pages s)) PAGE_DIR_LOCAL x)"
      and same: "\<And>b. 131072 \<le> unat (b - page_bit_map) \<Longrightarrow> 4096 * Suc ?T \<le> unat (b - PAGE_DIR_LOCAL)
        \<Longrightarrow> mem (pages v) b = mem (pages s) b"
    using set_page_cells [OF n c(1) T, of s] by blast
  have "cell m PAGE_DIR_LOCAL x = cell (mem (pages v)) PAGE_DIR_LOCAL x"
    if m: "\<forall>b. unat b < 0x200000 \<longrightarrow> m b = mem (pages v) b" and "x < 1024 * Suc ?T" for m x
    unfolding cell_def
  proof (rule load32_cong)
    fix i :: nat assume i: "i < 4"
    have x: "x < 262144"
      using that(2) c(2) by simp
    have "unat (PAGE_DIR_LOCAL + of_nat (4 * x + i)) = unat PAGE_DIR_LOCAL + (4 * x + i)"
      using x i by (intro unat_add_no_wrap) (simp add: layout)
    moreover have "PAGE_DIR_LOCAL + 4 * of_nat x + of_nat i = PAGE_DIR_LOCAL + of_nat (4 * x + i)"
      by simp
    ultimately have "unat (PAGE_DIR_LOCAL + 4 * of_nat x + of_nat i) < 0x200000"
      using x i by (simp only:) (simp add: layout)
    then show "m (PAGE_DIR_LOCAL + 4 * of_nat x + of_nat i) = mem (pages v) (PAGE_DIR_LOCAL + 4 * of_nat x + of_nat i)"
      using m by blast
  qed
  note kept = this
  have "walk m (cr3 v) a = Some a"
    if "\<forall>b. unat b < 0x200000 \<longrightarrow> m b = mem (pages v) b" "unat a < unat c * 4096" for m a
    unfolding v(2)
    by (rule walk_identity [of ?T m "cell (mem (pages s)) PAGE_DIR_LOCAL"])
      (use that cells T page_in_tables [OF c(1)] kept [OF that(1)] in simp_all)
  moreover have "mem (pages v) b = mem (pages s) b" if "0x200000 \<le> unat b" "unat b < 0x500000" for b
  proof (rule same)
    show "131072 \<le> unat (b - page_bit_map)"
      using that by (simp add: unat_sub_if_size word_size layout)
    show "4096 * Suc ?T \<le> unat (b - PAGE_DIR_LOCAL)"
      using that c(2) by (simp add: unat_sub_if_size layout)
  qed
  moreover have "mem (pages v) page_bit_map = 0x80 \<and> 2 \<le> unat (page_bit_map_cnt (pages v))"
    using v(1) [unfolded set_page_eq [OF c(1)]] init_page_bit_map_fresh [OF n ram]
    by (auto simp: bind_outcome_Inr)
  moreover have "bit (cr0 v) 31"
    by (simp add: v(3) bit_or_iff bit_numeral_rec)
  ultimately show ?thesis
    using v(1) by blast
qed

section \<open>Properties\<close>

text \<open>
  C22. After \<^verbatim>\<open>set_page\<close> paging is on, CR3 holds the directory, and every virtual address
  inside the RAM the map reported translates to itself (up to 1023 page tables, the room there
  is below the page bitmap).
\<close>

theorem set_page_identity:
  assumes "unat (memory_map_cnt (kernel_info g)) \<le> length (memory_map g)"
    and "get_page_cnt g = Inr c" and "unat (get_ptet_cnt c) \<le> 1023"
  shows "\<exists>s'. set_page g s = Inr s' \<and> bit (cr0 s') 31 \<and> cr3 s' = PAGE_DIR_LOCAL
    \<and> (\<forall>v. unat v < unat c * 4096 \<longrightarrow> walk (mem (pages s')) (cr3 s') v = Some v)"
proof -
  let ?T = "unat (get_ptet_cnt c)"
  obtain s' where s': "set_page g s = Inr s'" "cr3 s' = PAGE_DIR_LOCAL" "cr0 s' = cr0 s OR 0x80000000"
      and cells: "\<And>x. x < 1024 * Suc ?T \<Longrightarrow> cell (mem (pages s')) PAGE_DIR_LOCAL x =
        (if x < ?T then dir_entry_word x
         else if 1024 \<le> x \<and> x < 1024 * Suc ?T then (of_nat (x - 1024) * PAGE_SIZE) OR 0x7
         else cell (mem (pages s)) PAGE_DIR_LOCAL x)"
    using set_page_cells [OF assms, of s] by blast
  have "walk (mem (pages s')) PAGE_DIR_LOCAL v = Some v" if "unat v < unat c * 4096" for v
    by (rule walk_identity [OF cells]) (use page_in_tables [OF assms(2) that] assms(3) in simp_all)
  moreover have "bit (cr0 s OR 0x80000000) 31"
    by (simp add: bit_or_iff bit_numeral_rec)
  ultimately show ?thesis
    using s' by auto
qed

lemma get_page_cnt_small_map: "get_page_cnt small_map = Inr 0x1fe0"
proof -
  have "last_ram small_map 1 e = Inr e" for e
    by (subst last_ram.simps) (simp add: small_map_def)
  then have "last_ram small_map 0 e = Inr (hd (memory_map small_map))" for e
    by (subst last_ram.simps) (simp add: small_map_def memory_map_at_def)
  then show ?thesis
    by (simp add: get_page_cnt_def memory_map_at_def small_map_def layout)
qed

theorem set_page_identity_witness:
  "\<exists>s'. set_page small_map \<lparr>pages = fresh_pages, cr0 = 0x11, cr3 = 0\<rparr> = Inr s'
    \<and> cr3 s' = 0x100000 \<and> walk (mem (pages s')) (cr3 s') 0x1fdffff = Some 0x1fdffff"
proof -
  have "unat (memory_map_cnt (kernel_info small_map)) \<le> length (memory_map small_map)"
    by (simp add: small_map_def)
  moreover have "unat (get_ptet_cnt 0x1fe0) \<le> 1023"
    by (simp add: get_ptet_cnt_def)
  ultimately obtain s' where
      "set_page small_map \<lparr>pages = fresh_pages, cr0 = 0x11, cr3 = 0\<rparr> = Inr s'"
      "cr3 s' = PAGE_DIR_LOCAL"
      "\<And>v. unat v < unat (0x1fe0 :: u32) * 4096 \<Longrightarrow> walk (mem (pages s')) (cr3 s') v = Some v"
    using set_page_identity [OF _ get_page_cnt_small_map] by metis
  then show ?thesis
    by (simp add: layout)
qed

text \<open>
  The counts stay within the hardware's limits whatever the E820 map says: at most 1024
  page tables, so at most one page directory is filled, and exactly one when there is RAM.
\<close>

lemma page_table_counts:
  assumes "get_page_cnt g = Inr c"
  shows "unat (get_ptet_cnt c) \<le> 1024 \<and> unat (get_ptet_cnt (get_ptet_cnt c)) = (if c = 0 then 0 else 1)"
proof (cases "c = 0")
  case True
  then show ?thesis by (simp add: get_ptet_cnt_def)
next
  case False
  have c: "unat c < 1048576"
    using assms by (rule get_page_cnt_bound)
  then have "unat (get_ptet_cnt c) = (unat c + 1023) div 1024"
    by (simp add: unat_get_ptet_cnt)
  moreover have "0 < unat c"
    using False by (simp add: unat_gt_0)
  ultimately have "get_ptet_cnt c \<noteq> 0"
    by auto
  with ptet_cnt_bounds [OF assms] False show ?thesis by simp
qed

text \<open>
  C40. The page tables grow towards the kernel image at 2 MB. With at most 255 tables every
  byte between the image and the page bitmap is untouched; from 256 tables on (RAM above
  1020 MB) the first word of the running kernel is overwritten by a page table entry.
\<close>

theorem set_page_kernel_image:
  assumes "unat (memory_map_cnt (kernel_info g)) \<le> length (memory_map g)"
    and "get_page_cnt g = Inr c" and "unat (get_ptet_cnt c) \<le> 1023"
  shows "\<exists>s'. set_page g s = Inr s'
    \<and> (unat (get_ptet_cnt c) \<le> 255 \<longrightarrow>
        (\<forall>b. KERNEL_LOAD_ADDRESS \<le> b \<and> b < page_bit_map \<longrightarrow> mem (pages s') b = mem (pages s) b))
    \<and> (256 \<le> unat (get_ptet_cnt c) \<longrightarrow> load32 (mem (pages s')) KERNEL_LOAD_ADDRESS = 0x3fc00007)"
proof -
  let ?T = "unat (get_ptet_cnt c)"
  obtain s' where s': "set_page g s = Inr s'"
      and cells: "\<And>x. x < 1024 * Suc ?T \<Longrightarrow> cell (mem (pages s')) PAGE_DIR_LOCAL x =
        (if x < ?T then dir_entry_word x
         else if 1024 \<le> x \<and> x < 1024 * Suc ?T then (of_nat (x - 1024) * PAGE_SIZE) OR 0x7
         else cell (mem (pages s)) PAGE_DIR_LOCAL x)"
      and frame: "\<And>b. 131072 \<le> unat (b - page_bit_map) \<Longrightarrow> 4096 * Suc ?T \<le> unat (b - PAGE_DIR_LOCAL)
        \<Longrightarrow> mem (pages s') b = mem (pages s) b"
    using set_page_cells [OF assms, of s] by blast
  have "mem (pages s') b = mem (pages s) b"
    if "?T \<le> 255" "KERNEL_LOAD_ADDRESS \<le> b" "b < page_bit_map" for b
  proof (rule frame)
    have b: "0x200000 \<le> unat b" "unat b < 0x500000"
      using that(2,3) by (simp_all add: layout word_le_nat_alt word_less_nat_alt)
    then show "131072 \<le> unat (b - page_bit_map)"
      by (simp add: layout unat_sub_if_size word_size)
    show "4096 * Suc ?T \<le> unat (b - PAGE_DIR_LOCAL)"
      using b that(1) by (simp add: layout unat_sub_if_size word_size)
  qed
  moreover have "load32 (mem (pages s')) KERNEL_LOAD_ADDRESS = 0x3fc00007" if "256 \<le> ?T"
    using cells [of 262144] that assms(3) by (simp add: cell_def layout)
  ultimately show ?thesis
    using s' by blast
qed

text \<open>A machine with 2 GB of RAM in one range.\<close>

definition big_map :: mm_info where
  "big_map = small_map\<lparr>memory_map := [\<lparr>baselow = 0x100000, basehigh = 0, lenthlow = 0x7ff00000,
     lenthhigh = 0, e820_type = 1\<rparr>]\<rparr>"

theorem set_page_kernel_image_witness:
  "\<exists>s'. set_page big_map \<lparr>pages = fresh_pages, cr0 = 0x11, cr3 = 0\<rparr> = Inr s'
    \<and> load32 (mem (pages s')) 0x200000 = 0x3fc00007"
proof -
  have "last_ram big_map 1 e = Inr e" for e
    by (subst last_ram.simps) (simp add: big_map_def small_map_def)
  then have "last_ram big_map 0 e = Inr (hd (memory_map big_map))" for e
    by (subst last_ram.simps) (simp add: big_map_def small_map_def memory_map_at_def)
  then have c: "get_page_cnt big_map = Inr 0x80000"
    by (simp add: get_page_cnt_def memory_map_at_def big_map_def layout)
  have "unat (memory_map_cnt (kernel_info big_map)) \<le> length (memory_map big_map)"
      "unat (get_ptet_cnt 0x80000) \<le> 1023" "256 \<le> unat (get_ptet_cnt 0x80000)"
    by (simp_all add: big_map_def small_map_def get_ptet_cnt_def)
  then show ?thesis
    using set_page_kernel_image [OF _ c, of "\<lparr>pages = fresh_pages, cr0 = 0x11, cr3 = 0\<rparr>"]
    by (auto simp: KERNEL_LOAD_ADDRESS_def)
qed

end
