(* ===== verification/KernelStart.thy ===== *)
theory KernelStart
  imports Boot Desc Idt Paging Block
begin

text \<open>
  \<^verbatim>\<open>src/kernel/kernel.c\<close>: the start of the kernel, which calls every component once: segments, task
  state, memory information, paging, interrupt tables, timer, init thread. The states of the
  components become one state; \<^verbatim>\<open>kernel_of\<close> is the part of it that \<^verbatim>\<open>Thread\<close> works on.
\<close>

section \<open>kernel.c\<close>

record start_state =
  st_gdt :: gdt_state
  st_esp :: u32
  st_info :: mm_info
  st_vm :: vm_state
  st_idt :: idt_state
  st_sync :: sync
  st_pid :: u32

definition kernel_of :: "start_state \<Rightarrow> kernel" where
  "kernel_of s = \<lparr>k_pages = pages (st_vm s), k_sync = (st_sync s)\<lparr>IF := int_flag (ports (st_idt s))\<rparr>,
     max_pid = st_pid s\<rparr>"

definition with_kernel :: "kernel \<Rightarrow> start_state \<Rightarrow> start_state" where
  "with_kernel k s = s\<lparr>st_vm := (st_vm s)\<lparr>pages := k_pages k\<rparr>, st_sync := k_sync k, st_pid := max_pid k\<rparr>"

text \<open>
  \<^verbatim>\<open>creat_init\<close> does not return: it dispatches the init thread, whose first registers are the frame
  in the result. Addresses of functions are \<^verbatim>\<open>a\<close>, that of the interrupt table \<^verbatim>\<open>idt_addr\<close>.
\<close>

definition start_kernel ::
  "image \<Rightarrow> (string \<Rightarrow> u32) \<Rightarrow> device \<Rightarrow> u32 \<Rightarrow> start_state \<Rightarrow> (frame \<times> start_state) outcome" where
  "start_kernel im a dev idt_addr s =
     (let s = s\<lparr>st_esp := 0x1fffff\<rparr>;
          s = s\<lparr>st_gdt := load_tss (st_gdt s)\<rparr>;
          s = s\<lparr>st_info := get_memory_info (mem (pages (st_vm s)))\<rparr>
      in bind_outcome (set_page (st_info s) (st_vm s)) (\<lambda>v.
        let s = s\<lparr>st_vm := v\<rparr>;
            s = s\<lparr>st_idt := map_ports disable_irqs (st_idt s)\<rparr>;
            s = s\<lparr>st_idt := load_idt a idt_addr (st_idt s)\<rparr>
        in bind_outcome (init_timer a dev (st_idt s)) (\<lambda>i.
          let s = s\<lparr>st_idt := i\<rparr>;
              (f, k) = creat_init im (kernel_of s)
          in Inr (f, with_kernel k s))))"

text \<open>\<^verbatim>\<open>kernel_start\<close> changes the segment table, whose far jump goes on in \<^verbatim>\<open>start_kernel\<close>.\<close>

definition kernel_start ::
  "image \<Rightarrow> (string \<Rightarrow> u32) \<Rightarrow> device \<Rightarrow> u32 \<Rightarrow> u32 \<Rightarrow> u32 \<Rightarrow> start_state \<Rightarrow> (frame \<times> start_state) outcome" where
  "kernel_start im a dev idt_addr tss_addr gdt_addr s =
     start_kernel im a dev idt_addr (s\<lparr>st_gdt := change_gdt tss_addr gdt_addr (st_gdt s)\<rparr>)"

section \<open>Where the linker puts the image\<close>

text \<open>
  The structure and the stack union of the init thread are blocks of the image between 2 and 3 MB,
  apart from each other and from the strings.
\<close>

definition struct_bytes :: "image \<Rightarrow> u32 set" where
  "struct_bytes im = byte_range (unat (init_struct im)) (unat (init_struct im) + 0x1000)
     \<union> byte_range (unat (init_stack im)) (unat (init_stack im) + 0x10000)"

definition linked :: "image \<Rightarrow> bool" where
  "linked im \<longleftrightarrow> 0x200000 \<le> unat (init_struct im) \<and> unat (init_struct im) + 0x1000 \<le> 0x300000
     \<and> 0x200000 \<le> unat (init_stack im) \<and> unat (init_stack im) + 0x10000 \<le> 0x300000
     \<and> (unat (init_struct im) + 0x1000 \<le> unat (init_stack im) \<or> unat (init_stack im) + 0x10000 \<le> unat (init_struct im))"

definition linked_string :: "image \<Rightarrow> bmem \<Rightarrow> u32 \<Rightarrow> u8 list \<Rightarrow> bool" where
  "linked_string im m p bs \<longleftrightarrow> image_string m p bs \<and> (\<forall>i\<le>length bs. p + of_nat i \<notin> struct_bytes im)"

lemma linked_placed: "linked im \<Longrightarrow> placed im"
  by (auto simp: linked_def placed_def)

lemma outside_range:
  fixes x a :: u32
  assumes "x \<notin> byte_range (unat a) (unat a + n)" and "unat a + n \<le> 4294967296"
  shows "n \<le> unat (x - a)"
proof (cases "unat a \<le> unat x")
  case True
  then show ?thesis
    using assms(1) unat_diff_above [of a x] by (simp add: byte_range_def)
next
  case False
  then show ?thesis
    using assms(2) unat_diff_below [of x a] by simp
qed

lemma outside_structs:
  assumes "linked im" and "x \<notin> struct_bytes im"
  shows "32 \<le> unat (x - init_struct im)" and "72 \<le> unat (x - (init_stack im + KERNEL_STACK_SIZE))"
proof -
  have r: "unat (init_stack im + KERNEL_STACK_SIZE) = unat (init_stack im) + 0x8000"
    using assms(1) unat_add_no_wrap [of "init_stack im" "unat KERNEL_STACK_SIZE"] by (simp add: linked_def layout)
  have "x \<notin> byte_range (unat (init_struct im)) (unat (init_struct im) + 32)"
    "x \<notin> byte_range (unat (init_stack im + KERNEL_STACK_SIZE)) (unat (init_stack im + KERNEL_STACK_SIZE) + 72)"
    using assms(2) unfolding r by (auto simp: struct_bytes_def byte_range_def)
  then show "32 \<le> unat (x - init_struct im)" "72 \<le> unat (x - (init_stack im + KERNEL_STACK_SIZE))"
    using assms(1) r by (auto intro!: outside_range simp: linked_def)
qed

lemma linked_apart:
  assumes "linked im"
  shows "apart 0x100 (init_struct im) (init_stack im + KERNEL_STACK_SIZE)"
proof -
  let ?t = "init_struct im" and ?r = "init_stack im + KERNEL_STACK_SIZE"
  have r: "unat ?r = unat (init_stack im) + 0x8000"
    using assms unat_add_no_wrap [of "init_stack im" "unat KERNEL_STACK_SIZE"] by (simp add: linked_def layout)
  have "unat ?t + 0x1000 \<le> unat ?r \<or> unat ?r + 0x8000 \<le> unat ?t" "unat ?t < 0x300000" "unat ?r < 0x300000"
    using assms unfolding r by (auto simp: linked_def)
  then show ?thesis
    unfolding apart_def word_le_nat_alt
    using unat_diff_above [of ?t ?r] unat_diff_above [of ?r ?t] unat_diff_below [of ?t ?r] unat_diff_below [of ?r ?t]
    by auto
qed

lemma linked_string_keeps:
  assumes "linked_string im m p bs"
    and "\<And>x. 0x200000 \<le> unat x \<Longrightarrow> unat x < 0x300000 \<Longrightarrow> x \<notin> struct_bytes im \<Longrightarrow> m' x = m x"
  shows "linked_string im m' p bs"
proof -
  have s: "image_string m p bs" "\<And>i. i \<le> length bs \<Longrightarrow> p + of_nat i \<notin> struct_bytes im"
    using assms(1) by (simp_all add: linked_string_def)
  have "m' (p + of_nat i) = m (p + of_nat i)" if "i \<le> length bs" for i
    using that image_string_byte [OF s(1) that] s(1) by (intro assms(2) s(2)) (simp_all add: image_string_def)
  then have "cstr m' p bs"
    using s(1) by (auto simp: image_string_def intro: cstr_cong)
  with s show ?thesis
    by (simp add: linked_string_def image_string_def)
qed

section \<open>The start as a whole\<close>

text \<open>
  What the start relies on: an E820 map of at most the five entries that are copied, whose RAM
  takes at most 253 page tables, which leaves the top 8 KB below the image for the running stack,
  and of which the longest range reaches past the first pages behind the bitmap; two controllers
  that are initialised, and tables of their declared lengths.
\<close>

definition ram_fits :: "bmem \<Rightarrow> u32 \<Rightarrow> bool" where
  "ram_fits m c \<longleftrightarrow> (let g = get_memory_info m; n = unat (memory_map_cnt (kernel_info g))
     in n \<le> 5 \<and> get_page_cnt g = Inr c \<and> unat (get_ptet_cnt c) \<le> 253
       \<and> 0x510000 \<le> unat (foldl longer_ram 0 (take n (memory_map g))))"

definition idle_irqs :: "idt_state \<Rightarrow> bool" where
  "idle_irqs k \<longleftrightarrow> length (idt k) = IDTNUM \<and> expected (master (ports k)) = [] \<and> expected (slave (ports k)) = []"

lemma set_page_ram_fits:
  assumes "ram_fits (mem (pages s)) c"
  shows "\<exists>v. set_page (get_memory_info (mem (pages s))) s = Inr v \<and> bit (cr0 v) 31
    \<and> (\<forall>m a. (\<forall>b. unat b < 0x200000 \<longrightarrow> m b = mem (pages v) b) \<longrightarrow> unat a < unat c * 4096
        \<longrightarrow> walk m (vm_state.cr3 v) a = Some a)
    \<and> (\<forall>b. 0x200000 \<le> unat b \<longrightarrow> unat b < 0x500000 \<longrightarrow> mem (pages v) b = mem (pages s) b)
    \<and> mem (pages v) page_bit_map = 0x80 \<and> 2 \<le> unat (page_bit_map_cnt (pages v))"
  by (rule set_page_boot) (use assms in \<open>simp_all add: ram_fits_def Let_def\<close>)

lemma kernel_start_runs:
  fixes s :: start_state
  defines "m \<equiv> mem (pages (st_vm s))"
  assumes "ram_fits m c" and "idle_irqs (st_idt s)" and "masks_readable dev"
    and im: "linked im" "linked_string im m (str_init_thread im) bs" "length bs = 11"
  shows "gives (kernel_start im a dev ia ta ga s) (\<lambda>(f, s').
      f = schedule (mem (pages (st_vm s'))) (init_struct im)
    \<and> thread_at (mem (pages (st_vm s'))) (init_struct im) (init_stack im) bs 0 (fn_init_thread im)
    \<and> st_gdt s' = load_tss (change_gdt ta ga (st_gdt s))
    \<and> bit (cr0 (st_vm s')) 31
    \<and> (\<forall>v. unat v < unat c * 4096 \<longrightarrow> walk (mem (pages (st_vm s'))) (vm_state.cr3 (st_vm s')) v = Some v)
    \<and> only_timer (st_idt s') \<and> int_flag (ports (st_idt s'))
    \<and> reads_gate (gate (st_idt s') 0x30) (a ''irq00_handler'') 0x20 0x8e
    \<and> reads_gate (gate (st_idt s') 0x80) (a ''sys_entry'') 0x20 0x8e
    \<and> (\<forall>(v, g)\<in>set exception_table. reads_gate (gate (st_idt s') v) (a g) 0x20 0x8f)
    \<and> fresh_kernel (kernel_of s') \<and> current_thread (sch (st_sync s')) = init_struct im
    \<and> ticks (sch (st_sync s')) = ticks (sch (st_sync s)) \<and> st_pid s' = st_pid s
    \<and> (\<forall>x. 0x200000 \<le> unat x \<longrightarrow> unat x < 0x300000 \<longrightarrow> x \<notin> struct_bytes im
        \<longrightarrow> mem (pages (st_vm s')) x = m x))"
proof -
  obtain v where v: "set_page (get_memory_info m) (st_vm s) = Inr v" "bit (cr0 v) 31"
      and walks: "\<And>m' a. (\<forall>b. unat b < 0x200000 \<longrightarrow> m' b = mem (pages v) b) \<Longrightarrow> unat a < unat c * 4096
        \<Longrightarrow> walk m' (vm_state.cr3 v) a = Some a"
      and image: "\<And>b. 0x200000 \<le> unat b \<Longrightarrow> unat b < 0x500000 \<Longrightarrow> mem (pages v) b = m b"
      and bitmap: "mem (pages v) page_bit_map = 0x80" "2 \<le> unat (page_bit_map_cnt (pages v))"
    using set_page_ram_fits [of "st_vm s" c] assms(2) unfolding m_def by blast
  obtain i where i: "init_timer a dev (load_idt a ia (map_ports disable_irqs (st_idt s))) = Inr i"
      "only_timer i" "int_flag (ports i)" "reads_gate (gate i 0x30) (a ''irq00_handler'') 0x20 0x8e"
      "reads_gate (gate i 0x80) (a ''sys_entry'') 0x20 0x8e"
      "\<forall>(v, g)\<in>set exception_table. reads_gate (gate i v) (a g) 0x20 0x8f"
    using irq_started [OF assms(4), of "st_idt s" a ia] assms(3) by (auto simp: idle_irqs_def)
  let ?s = "s\<lparr>st_gdt := load_tss (change_gdt ta ga (st_gdt s)), st_esp := 0x1fffff, st_info := get_memory_info m,
      st_vm := v, st_idt := i\<rparr>"
  have "linked_string im (mem (pages v)) (str_init_thread im) bs"
    by (rule linked_string_keeps [OF im(2)]) (use image in simp)
  then have str: "cstr (k_mem (kernel_of ?s)) (str_init_thread im) bs"
      "\<And>j. j \<le> length bs \<Longrightarrow> 32 \<le> unat (str_init_thread im + of_nat j - init_struct im)"
    using outside_structs(1) [OF im(1)] by (auto simp: linked_string_def image_string_def kernel_of_def)
  obtain m' where k: "creat_init im (kernel_of ?s) = (schedule m' (init_struct im),
      (kernel_of ?s)\<lparr>k_pages := (k_pages (kernel_of ?s))\<lparr>mem := m'\<rparr>,
        k_sync := (k_sync (kernel_of ?s))\<lparr>sch := (sch (k_sync (kernel_of ?s)))\<lparr>
          heap := INIT_LIST_HEAD (heap (sch (k_sync (kernel_of ?s)))) (elem_of (init_struct im)),
          current_thread := init_struct im\<rparr>\<rparr>\<rparr>)"
      and t: "thread_at m' (init_struct im) (init_stack im) bs 0 (fn_init_thread im)"
      and same: "\<And>x. x \<notin> struct_bytes im \<Longrightarrow> m' x = mem (pages v) x"
    using creat_init_ok [OF str(1) im(3) str(2) linked_apart [OF im(1)]] outside_structs [OF im(1)]
    by (fastforce simp: kernel_of_def)
  have low: "x \<notin> struct_bytes im" if "unat x < 0x200000 \<or> 0x300000 \<le> unat x" for x
    using that im(1) by (auto simp: struct_bytes_def byte_range_def linked_def)
  have bits: "m' page_bit_map = 0x80"
    using same [OF low] bitmap(1) by (simp add: layout)
  have tables: "walk m' (vm_state.cr3 v) a = Some a" if "unat a < unat c * 4096" for a
    using walks [OF _ that] same low by blast
  show ?thesis
    using v i k t bits bitmap(2) tables same image
    by (simp add: kernel_start_def start_kernel_def m_def kernel_of_def with_kernel_def fresh_kernel_def Let_def)
qed

section \<open>The init thread behind the start\<close>

lemma linked_facts:
  assumes "linked im"
  shows "placed im" and "init_struct im \<notin> {0x507000, 0x503000}" and "elem_of (init_struct im) \<noteq> 0"
proof -
  have "unat (init_struct im + ELEM_OFFSET) = unat (init_struct im) + unat ELEM_OFFSET"
    using assms unat_add_no_wrap [of "init_struct im" "unat ELEM_OFFSET"] by (simp add: linked_def layout)
  then show "elem_of (init_struct im) \<noteq> 0"
    using assms by (auto simp: linked_def elem_of_def)
  show "placed im" "init_struct im \<notin> {0x507000, 0x503000}"
    using assms linked_placed by (auto simp: linked_def)
qed

lemma kernel_boots:
  fixes s :: start_state
  defines "m \<equiv> mem (pages (st_vm s))"
  assumes "ram_fits m c" and "idle_irqs (st_idt s)" and "masks_readable dev"
    and im: "linked im" "linked_string im m (str_init_thread im) bs" "length bs = 11"
      "linked_string im m (str_running im) bs0" "length bs0 \<le> 80"
      "linked_string im m (str_test_LOCK1 im) bs1" "length bs1 \<le> 16"
      "linked_string im m (str_test_LOCK2 im) bs2" "length bs2 \<le> 16"
      "wait_list (test_lock im) \<notin> {elem_of 0x507000, elem_of 0x503000}"
  shows "gives (bind_outcome (kernel_start im a dev ia ta ga s) (\<lambda>(f, s'). init_thread im (kernel_of s'))) (\<lambda>k'.
      schedules (sch (k_sync k')) (init_struct im) [0x507000, 0x503000]
    \<and> thread_at (k_mem k') 0x507000 0x504000 bs1 (st_pid s + 1) (fn_test_lock1 im)
    \<and> thread_at (k_mem k') 0x503000 0x50a000 bs2 (st_pid s + 1) (fn_test_lock2 im)
    \<and> wake_ring (k_sync k') (test_lock im) [] \<and> \<not> lock_busy (k_sync k') (test_lock im)
    \<and> IF (k_sync k') \<and> ticks (sch (k_sync k')) = ticks (sch (st_sync s)))"
proof (rule gives_bind [OF kernel_start_runs [OF assms(2-4) [unfolded m_def] im(1) im(2) [unfolded m_def] im(3)]],
    clarify)
  fix s' :: start_state
  assume fresh: "fresh_kernel (kernel_of s')"
    and sync: "ticks (sch (st_sync s')) = ticks (sch (st_sync s))" "st_pid s' = st_pid s"
    and same: "\<forall>x. 0x200000 \<le> unat x \<longrightarrow> unat x < 0x300000 \<longrightarrow> x \<notin> struct_bytes im
        \<longrightarrow> mem (pages (st_vm s')) x = mem (pages (st_vm s)) x"
  have str: "image_string (k_mem (kernel_of s')) p bs" if "linked_string im m p bs" for p bs
  proof -
    have "linked_string im (mem (pages (st_vm s'))) p bs"
      by (rule linked_string_keeps [OF that]) (use same in \<open>simp add: m_def\<close>)
    then show ?thesis
      by (simp add: linked_string_def kernel_of_def)
  qed
  have k: "max_pid (kernel_of s') = st_pid s" "ticks (sch (k_sync (kernel_of s'))) = ticks (sch (st_sync s))"
    using sync by (simp_all add: kernel_of_def)
  show "gives (init_thread im (kernel_of s')) (\<lambda>k'.
      schedules (sch (k_sync k')) (init_struct im) [0x507000, 0x503000]
    \<and> thread_at (k_mem k') 0x507000 0x504000 bs1 (st_pid s + 1) (fn_test_lock1 im)
    \<and> thread_at (k_mem k') 0x503000 0x50a000 bs2 (st_pid s + 1) (fn_test_lock2 im)
    \<and> wake_ring (k_sync k') (test_lock im) [] \<and> \<not> lock_busy (k_sync k') (test_lock im)
    \<and> IF (k_sync k') \<and> ticks (sch (k_sync k')) = ticks (sch (st_sync s)))"
    using init_thread_run [OF fresh str [OF im(4)] im(5) str [OF im(6)] im(7) str [OF im(8)] im(9)
      linked_facts(2,3) [OF im(1)] im(10)] unfolding k by (simp add: gives_def)
qed

section \<open>Properties\<close>

text \<open>
  C6. \<^verbatim>\<open>kernel_start\<close> runs to its end: it enters the init thread on its own stack with flat
  segments and the screen in \<^verbatim>\<open>gs\<close>, paging is on and every address of the RAM translates to
  itself, although the page directory is built over the information the loader left at 1 MB; every
  exception, the timer and the system call have their gates, and no other interrupt can arrive.
\<close>

theorem kernel_start_enters_init:
  fixes s :: start_state
  assumes "ram_fits (mem (pages (st_vm s))) c" and "idle_irqs (st_idt s)" and "masks_readable dev"
    and "length (gdt (st_gdt s)) = GDTNUM"
    and "linked im" and "linked_string im (mem (pages (st_vm s))) (str_init_thread im) bs" and "length bs = 11"
  shows "gives (kernel_start im a dev ia ta ga s) (\<lambda>(f, s').
      f = \<lparr>f_gs = DIS_GS, f_fs = KERNEL_DS, f_es = KERNEL_DS, f_ds = KERNEL_DS,
        f_eip = fn_init_thread im, f_cs = KERNEL_CS, f_esp = init_stack im + 0x8038\<rparr>
    \<and> (\<forall>off. linear (st_gdt s') (ucast (f_cs f)) off = Some off \<and> linear (st_gdt s') (ucast (f_ds f)) off = Some off
        \<and> linear (st_gdt s') (ucast (f_gs f)) off = (if off \<le> 0xffff then Some (0xb8000 + off) else None))
    \<and> bit (cr0 (st_vm s')) 31
    \<and> (\<forall>v. unat v < unat c * 4096 \<longrightarrow> walk (mem (pages (st_vm s'))) (vm_state.cr3 (st_vm s')) v = Some v)
    \<and> (\<forall>i<16. deliverable (st_idt s') i \<longrightarrow> i = 0)
    \<and> reads_gate (gate (st_idt s') 0x30) (a ''irq00_handler'') 0x20 0x8e
    \<and> reads_gate (gate (st_idt s') 0x80) (a ''sys_entry'') 0x20 0x8e
    \<and> (\<forall>(v, g)\<in>set exception_table. reads_gate (gate (st_idt s') v) (a g) 0x20 0x8f))"
proof (rule gives_mono [OF kernel_start_runs [OF assms(1-3,5-7)]], clarify)
  fix s' :: start_state
  let ?m = "mem (pages (st_vm s'))"
  let ?f = "schedule ?m (init_struct im)"
  assume t: "thread_at ?m (init_struct im) (init_stack im) bs 0 (fn_init_thread im)"
    and g: "st_gdt s' = load_tss (change_gdt ta ga (st_gdt s))"
    and irqs: "only_timer (st_idt s')"
  have f: "?f = \<lparr>f_gs = DIS_GS, f_fs = KERNEL_DS, f_es = KERNEL_DS, f_ds = KERNEL_DS,
        f_eip = fn_init_thread im, f_cs = KERNEL_CS, f_esp = init_stack im + 0x8038\<rparr>"
    by (rule schedule_thread_at [OF t])
  have sel: "ucast KERNEL_CS = (0x20 :: u16)" "ucast KERNEL_DS = (0x28 :: u16)" "ucast DIS_GS = (0x48 :: u16)"
    by (simp_all add: layout push_bit_eq_mult)
  assume rest: "bit (cr0 (st_vm s')) 31"
      "\<forall>v. unat v < unat c * 4096 \<longrightarrow> walk ?m (vm_state.cr3 (st_vm s')) v = Some v"
      "reads_gate (gate (st_idt s') 0x30) (a ''irq00_handler'') 0x20 0x8e"
      "reads_gate (gate (st_idt s') 0x80) (a ''sys_entry'') 0x20 0x8e"
      "\<forall>(v, g)\<in>set exception_table. reads_gate (gate (st_idt s') v) (a g) 0x20 0x8f"
  show "?f = \<lparr>f_gs = DIS_GS, f_fs = KERNEL_DS, f_es = KERNEL_DS, f_ds = KERNEL_DS,
        f_eip = fn_init_thread im, f_cs = KERNEL_CS, f_esp = init_stack im + 0x8038\<rparr>
    \<and> (\<forall>off. linear (st_gdt s') (ucast (f_cs ?f)) off = Some off \<and> linear (st_gdt s') (ucast (f_ds ?f)) off = Some off
        \<and> linear (st_gdt s') (ucast (f_gs ?f)) off = (if off \<le> 0xffff then Some (0xb8000 + off) else None))
    \<and> bit (cr0 (st_vm s')) 31
    \<and> (\<forall>v. unat v < unat c * 4096 \<longrightarrow> walk ?m (vm_state.cr3 (st_vm s')) v = Some v)
    \<and> (\<forall>i<16. deliverable (st_idt s') i \<longrightarrow> i = 0)
    \<and> reads_gate (gate (st_idt s') 0x30) (a ''irq00_handler'') 0x20 0x8e
    \<and> reads_gate (gate (st_idt s') 0x80) (a ''sys_entry'') 0x20 0x8e
    \<and> (\<forall>(v, g)\<in>set exception_table. reads_gate (gate (st_idt s') v) (a g) 0x20 0x8f)"
    unfolding f g
    using rest deliverable_only_timer [OF irqs] change_gdt_linear [OF assms(4), of ta ga]
    by (intro conjI) (simp_all add: sel)
qed

text \<open>
  C5. From \<^verbatim>\<open>kernel_start\<close> to the first test thread: the init thread creates the two threads; when
  the machine goes on from the memory and the scheduler that it leaves, the nineteenth interrupt
  (\<^verbatim>\<open>ticks\<close> starts at 1),
  whatever the init thread computes in between, enters \<^verbatim>\<open>test_LOCK1\<close> with the segments
  \<^verbatim>\<open>set_regs\<close> chose and the stack at the end of its union, and leaves the other test thread and the
  init thread ready, in this order. With room on the stack these interrupts do happen.
\<close>

theorem boot_enters_test_lock1:
  fixes s :: start_state
  assumes "ram_fits (mem (pages (st_vm s))) c" and "idle_irqs (st_idt s)" and "masks_readable dev"
    and "linked im" and "linked_string im (mem (pages (st_vm s))) (str_init_thread im) bs" and "length bs = 11"
    and "linked_string im (mem (pages (st_vm s))) (str_running im) bs0" and "length bs0 \<le> 80"
    and "linked_string im (mem (pages (st_vm s))) (str_test_LOCK1 im) bs1" and "length bs1 \<le> 16"
    and "linked_string im (mem (pages (st_vm s))) (str_test_LOCK2 im) bs2" and "length bs2 \<le> 16"
    and "wait_list (test_lock im) \<notin> {elem_of 0x507000, elem_of 0x503000}"
    and "ticks (sch (st_sync s)) = 1" and "frames_within n cc" and "n \<le> 268435456"
  shows "gives (bind_outcome (kernel_start im a dev ia ta ga s) (\<lambda>(f, s'). init_thread im (kernel_of s'))) (\<lambda>k'.
    \<forall>w. ram w = k_mem k' \<longrightarrow> sc w = sch (k_sync k') \<longrightarrow>
      (\<forall>ls w'. exec (boot_stacks im) {init_struct im, 0x507000, 0x503000} cc n entry w (ls @ [Interrupt]) w'
          \<longrightarrow> computes ls \<longrightarrow> count_list ls Interrupt = 18 \<longrightarrow>
        schedules (sc w') 0x507000 [0x503000, init_struct im] \<and> fresh_regs (fn_test_lock1 im) 0x50c038 (core w'))
      \<and> (int_flag (wires w) \<longrightarrow> fits (boot_stacks im (init_struct im)) (ESP (core w) - of_nat (132 + n)) (132 + n) \<longrightarrow>
        exec (boot_stacks im) {init_struct im, 0x507000, 0x503000} cc n entry w
          (replicate 18 Interrupt @ [Interrupt]) ((timer_interrupt cc entry ^^ 19) w)))"
proof (rule gives_mono [OF kernel_boots [OF assms(1-13)]], elim conjE, intro allI conjI impI)
  fix k' and w :: machine and ls w'
  note p = linked_placed [OF assms(4)]
  assume k: "schedules (sch (k_sync k')) (init_struct im) [0x507000, 0x503000]"
      "thread_at (k_mem k') 0x507000 0x504000 bs1 (st_pid s + 1) (fn_test_lock1 im)"
      "thread_at (k_mem k') 0x503000 0x50a000 bs2 (st_pid s + 1) (fn_test_lock2 im)"
      "ticks (sch (k_sync k')) = ticks (sch (st_sync s))"
    and w: "ram w = k_mem k'" "sc w = sch (k_sync k')"
  have t: "ticks (sc w) = 1"
    using k(4) w(2) assms(14) by simp
  note at = k(1-3) [folded w]
  show "schedules (sc w') 0x507000 [0x503000, init_struct im]" "fresh_regs (fn_test_lock1 im) 0x50c038 (core w')"
    if "exec (boot_stacks im) {init_struct im, 0x507000, 0x503000} cc n entry w (ls @ [Interrupt]) w'"
      "computes ls" "count_list ls Interrupt = 18"
    using first_slice [OF at(1) p at(2,3) that(1) assms(15,16) that(2)] that(3) t by simp_all
  show "exec (boot_stacks im) {init_struct im, 0x507000, 0x503000} cc n entry w
      (replicate 18 Interrupt @ [Interrupt]) ((timer_interrupt cc entry ^^ 19) w)"
    if "int_flag (wires w)" "fits (boot_stacks im (init_struct im)) (ESP (core w) - of_nat (132 + n)) (132 + n)"
    using first_slice_happens [OF at(1) p at(2,3) assms(15,16) that] t by simp
qed

section \<open>A machine just loaded\<close>

text \<open>
  Strings of the image at 2 MB, one E820 entry, 0x1ee0000 bytes of RAM from 1 MB on, at 0x8000, and its
  number in the information at 1 MB.
\<close>

definition reset_mem :: bmem where
  "reset_mem = (\<lambda>a. if 0x200000 \<le> unat a \<and> unat a < 0x20000b then 105 else if a = 0x200010 then 65
     else if a = 0x200020 then 66 else if a = 0x8002 then 0x10 else if a = 0x800a then 0xee
     else if a = 0x800b \<or> a = 0x8010 \<or> a = 0x100008 then 1 else 0)"

definition reset_state :: start_state where
  "reset_state = \<lparr>st_gdt = zero_gdt_state, st_esp = 0x7bff, st_info = small_map,
     st_vm = \<lparr>pages = \<lparr>mem = reset_mem, page_cnt = 0, page_bit_map_cnt = 0\<rparr>, cr0 = 1, vm_state.cr3 = 0\<rparr>,
     st_idt = cold_idt, st_sync = \<lparr>sch = two_threads\<lparr>ticks := 1\<rparr>, counter = (\<lambda>_. 0), IF = False\<rparr>, st_pid = 0\<rparr>"

lemma reset_info:
  "memory_map_cnt (kernel_info (get_memory_info reset_mem)) = 1"
  "memory_map (get_memory_info reset_mem) ! 0 = \<lparr>baselow = 0x100000, basehigh = 0, lenthlow = 0x1ee0000,
     lenthhigh = 0, e820_type = 1\<rparr>"
  by (simp_all add: get_memory_info_def read_kernel_info_def read_ARDS_def load32_def reset_mem_def layout
      push_bit_eq_mult)

lemma reset_ram: "ram_fits (mem (pages (st_vm reset_state))) 0x1fe0"
proof -
  let ?g = "get_memory_info reset_mem"
  have at: "memory_map_at ?g 0 = Inr \<lparr>baselow = 0x100000, basehigh = 0, lenthlow = 0x1ee0000,
     lenthhigh = 0, e820_type = 1\<rparr>"
    by (simp add: memory_map_at_def reset_info)
  have n: "unat (memory_map_cnt (kernel_info ?g)) = 1"
    by (simp add: reset_info)
  have "last_ram ?g 0 e = Inr \<lparr>baselow = 0x100000, basehigh = 0, lenthlow = 0x1ee0000,
     lenthhigh = 0, e820_type = 1\<rparr>" for e
    by (simp add: last_ram.simps [of ?g 0] last_ram.simps [of ?g "Suc 0"] n at)
  then have "get_page_cnt ?g = Inr 0x1fe0"
    by (simp add: get_page_cnt_def at layout)
  moreover have "take 1 (memory_map ?g) = [memory_map ?g ! 0]"
    using take_Suc_conv_app_nth [of 0 "memory_map ?g"] by simp
  ultimately show ?thesis
    by (simp add: ram_fits_def reset_state_def n reset_info longer_ram_def get_ptet_cnt_def Let_def)
qed

lemma reset_linked: "linked boot_image"
  by (simp add: linked_def boot_image_def)

lemma cstr_replicate:
  assumes "\<And>i. i < n \<Longrightarrow> m (p + of_nat i) = c" and "m (p + of_nat n) = 0" and "c \<noteq> 0"
  shows "cstr m p (replicate n c)"
  using assms
proof (induction n arbitrary: p)
  case (Suc n)
  have "cstr m (p + 1) (replicate n c)"
    using Suc.prems(1) [of "Suc _"] Suc.prems(2,3) by (intro Suc.IH) (simp_all add: add.assoc)
  then show ?case
    using Suc.prems(1) [of 0] Suc.prems(3) by simp
qed simp

lemma reset_strings:
  fixes m :: bmem
  defines "m \<equiv> mem (pages (st_vm reset_state))"
  shows "linked_string boot_image m (str_init_thread boot_image) (replicate 11 105)"
    and "linked_string boot_image m (str_running boot_image) [65]"
    and "linked_string boot_image m (str_test_LOCK1 boot_image) [65]"
    and "linked_string boot_image m (str_test_LOCK2 boot_image) [66]"
proof -
  have beside: "a + of_nat i \<notin> struct_bytes boot_image" if "unat a + i < 0x208000" for a :: u32 and i
  proof -
    have "unat (a + of_nat i) = unat a + i"
      using that by (intro unat_add_no_wrap) simp
    then show ?thesis
      using that by (simp add: struct_bytes_def byte_range_def boot_image_def)
  qed
  have at: "unat (0x200000 + of_nat i :: u32) = 0x200000 + i" if "i \<le> 11" for i
    using that unat_add_no_wrap [of "0x200000 :: u32" i] by simp
  have "cstr reset_mem 0x200000 (replicate 11 105)"
    using at by (intro cstr_replicate) (simp_all add: reset_mem_def)
  then show "linked_string boot_image m (str_init_thread boot_image) (replicate 11 105)"
    using beside by (simp add: m_def linked_string_def image_string_def reset_state_def) (simp add: boot_image_def)
  show "linked_string boot_image m (str_running boot_image) [65]"
      "linked_string boot_image m (str_test_LOCK1 boot_image) [65]"
      "linked_string boot_image m (str_test_LOCK2 boot_image) [66]"
    using beside by (simp_all add: m_def linked_string_def image_string_def reset_state_def)
      (simp_all add: boot_image_def reset_mem_def)
qed

lemma reset_irqs: "idle_irqs (st_idt reset_state)" "length (gdt (st_gdt reset_state)) = GDTNUM"
  using cold_idt_ok by (simp_all add: idle_irqs_def reset_state_def zero_gdt_state_def)

theorem kernel_start_enters_init_witness:
  "gives (kernel_start boot_image (\<lambda>_. 0x202000) data_sheet 0x206000 0x204000 0x203000 reset_state) (\<lambda>(f, s').
     f_eip f = 0x201000 \<and> f_esp f = 0x218038
     \<and> walk (mem (pages (st_vm s'))) (vm_state.cr3 (st_vm s')) 0x1fdffff = Some 0x1fdffff)"
proof -
  note start = kernel_start_enters_init [OF reset_ram reset_irqs(1) masks_readable_data_sheet reset_irqs(2)
      reset_linked reset_strings(1) length_replicate, of "\<lambda>_. 0x202000" "0x206000" "0x204000" "0x203000"]
  show ?thesis
    by (rule gives_mono [OF start]) (auto simp: boot_image_def)
qed

definition init_machine :: "kernel \<Rightarrow> machine" where
  "init_machine k = \<lparr>core = sample_regs\<lparr>ESP := 0x218000\<rparr>, eflags = 2, ram = k_mem k, sc = sch (k_sync k),
     wires = \<lparr>history = [], int_flag = True\<rparr>\<rparr>"

theorem boot_enters_test_lock1_witness:
  "gives (bind_outcome (kernel_start boot_image (\<lambda>_. 0x202000) data_sheet 0x206000 0x204000 0x203000 reset_state)
      (\<lambda>(f, s'). init_thread boot_image (kernel_of s'))) (\<lambda>k'.
     EIP (core ((timer_interrupt plain_calls 0x202000 ^^ 19) (init_machine k'))) = 0x201100)"
proof -
  have lock: "wait_list (test_lock boot_image) \<notin> {elem_of 0x507000, elem_of 0x503000}"
    by (simp add: boot_image_def wait_list_def elem_of_def layout)
  have t: "ticks (sch (st_sync reset_state)) = 1"
    by (simp add: reset_state_def)
  have n: "length [65 :: u8] \<le> 80" "length [65 :: u8] \<le> 16" "length [66 :: u8] \<le> 16" "(0 :: nat) \<le> 268435456"
    by simp_all
  note boot = boot_enters_test_lock1 [OF reset_ram reset_irqs(1) masks_readable_data_sheet reset_linked
      reset_strings(1) length_replicate reset_strings(2) n(1) reset_strings(3) n(2) reset_strings(4) n(3)
      lock t sample_calls n(4), of "\<lambda>_. 0x202000" "0x206000" "0x204000" "0x203000" "0x202000"]
  have room: "fits (boot_stacks boot_image (init_struct boot_image)) (0x218000 - 132) 132"
    by (simp add: boot_stacks_def boot_image_def fits_byte_range)
  show ?thesis
  proof (rule gives_mono [OF boot])
    fix k' assume run: "\<forall>w. ram w = k_mem k' \<longrightarrow> sc w = sch (k_sync k') \<longrightarrow>
      (\<forall>ls w'. exec (boot_stacks boot_image) {init_struct boot_image, 0x507000, 0x503000} plain_calls 0 0x202000 w
            (ls @ [Interrupt]) w' \<longrightarrow> computes ls \<longrightarrow> count_list ls Interrupt = 18 \<longrightarrow>
        schedules (sc w') 0x507000 [0x503000, init_struct boot_image]
          \<and> fresh_regs (fn_test_lock1 boot_image) 0x50c038 (core w'))
      \<and> (int_flag (wires w) \<longrightarrow>
        fits (boot_stacks boot_image (init_struct boot_image)) (ESP (core w) - of_nat (132 + 0)) (132 + 0) \<longrightarrow>
        exec (boot_stacks boot_image) {init_struct boot_image, 0x507000, 0x503000} plain_calls 0 0x202000 w
          (replicate 18 Interrupt @ [Interrupt]) ((timer_interrupt plain_calls 0x202000 ^^ 19) w))"
    have m: "ram (init_machine k') = k_mem k'" "sc (init_machine k') = sch (k_sync k')"
      by (simp_all add: init_machine_def)
    note both = run [THEN spec, THEN mp, OF m(1), THEN mp, OF m(2)]
    have "exec (boot_stacks boot_image) {init_struct boot_image, 0x507000, 0x503000} plain_calls 0 0x202000
        (init_machine k') (replicate 18 Interrupt @ [Interrupt])
        ((timer_interrupt plain_calls 0x202000 ^^ 19) (init_machine k'))"
      using both [THEN conjunct2] room by (simp add: init_machine_def)
    from both [THEN conjunct1, rule_format, OF this computes_interrupts]
    have "fresh_regs (fn_test_lock1 boot_image) 0x50c038
        (core ((timer_interrupt plain_calls 0x202000 ^^ 19) (init_machine k')))"
      by (rule conjunct2)
    then show "EIP (core ((timer_interrupt plain_calls 0x202000 ^^ 19) (init_machine k'))) = 0x201100"
      by (simp add: fresh_regs_def boot_image_def)
  qed
qed

end
