(* ===== verification/Uptime.thy ===== *)
theory Uptime
  imports Boot
begin

text \<open>
  How long the kernel runs: the words of stack that timer interrupts do not give back, counted
  without wrap-around while every interrupt finds room on the stack it uses.
\<close>

section \<open>An interrupt within a region\<close>

definition room_at :: "(u32 \<Rightarrow> nat) \<Rightarrow> tasks \<Rightarrow> nat" where
  "room_at lo T = (\<Sum>t\<in>members T. unat (ESP (task_regs T t)) - lo t)"

definition inside :: "(u32 \<Rightarrow> nat) \<Rightarrow> tasks \<Rightarrow> bool" where
  "inside lo T \<longleftrightarrow> (\<forall>t\<in>members T. lo t \<le> unat (ESP (task_regs T t)))"

lemma word_of_stack:
  assumes "fits (byte_range lo hi) (e - of_nat (60 + n)) (60 + n)" and "hi \<le> 4294967292"
  shows "lo \<le> unat (e - 4)" and "unat (e - 4) + 4 = unat e"
proof -
  have at: "e - of_nat (60 + n) + of_nat i \<in> byte_range lo hi" if "i < 60 + n" for i
    using assms(1) that by (simp add: fits_def)
  have "e - of_nat (60 + n) + of_nat (56 + n) = e - 4"
    by simp
  with at [of "56 + n"] have b: "lo \<le> unat (e - 4)" "unat (e - 4) < hi"
    by (simp_all only: byte_range_def) simp_all
  then show "lo \<le> unat (e - 4)"
    by simp
  have "unat (e - 4 + 4) = unat (e - 4) + 4"
    using b(2) assms(2) unat_add_no_wrap [of "e - 4" 4] by simp
  then show "unat (e - 4) + 4 = unat e"
    by simp
qed

lemma room_interrupt:
  assumes "tasks_ok T" and "inside lo T" and "hi (running T) \<le> 4294967292"
    and "fits (byte_range (lo (running T)) (hi (running T))) (ESP (live T) - of_nat (60 + n)) (60 + n)"
  shows "inside lo (interrupt_tasks T)" and "room_at lo (interrupt_tasks T) + 4 = room_at lo T"
proof -
  let ?c = "running T" and ?T = "interrupt_tasks T"
  have fin: "finite (members T)" and c: "?c \<in> members T"
    using assms(1) by (simp_all add: members_def tasks_ok_def)
  have mem: "members ?T = members T"
    using members_act [of Interrupt T] by simp
  note step = word_of_stack [OF assms(4,3)]
  have at: "ESP (task_regs ?T ?c) = ESP (live T) - 4" "ESP (task_regs T ?c) = ESP (live T)"
    unfolding task_regs_interrupt [OF assms(1) c] by (simp_all add: interrupted_def task_regs_def)
  have other: "ESP (task_regs ?T t) = ESP (task_regs T t)" if "t \<in> members T" "t \<noteq> ?c" for t
    using task_regs_interrupt [OF assms(1) that(1)] that(2) by simp
  show "inside lo ?T"
    using assms(2) step(1) at other unfolding inside_def mem by (metis (no_types))
  have "(\<Sum>t\<in>members T - {?c}. unat (ESP (task_regs ?T t)) - lo t) =
      (\<Sum>t\<in>members T - {?c}. unat (ESP (task_regs T t)) - lo t)"
    by (rule sum.cong) (simp_all add: other)
  then show "room_at lo ?T + 4 = room_at lo T"
    unfolding room_at_def mem sum.remove [OF fin c] at using step by simp
qed

lemma room_same:
  assumes "possible a T" and "keeps_esp a T" and "a \<noteq> Interrupt"
  shows "inside lo (act a T) = inside lo T" and "room_at lo (act a T) = room_at lo T"
proof -
  have "ESP (task_regs (act a T) t) = ESP (task_regs T t)" for t
    using assms(2,3) by (cases a) (simp_all add: task_regs_def)
  then show "inside lo (act a T) = inside lo T" "room_at lo (act a T) = room_at lo T"
    by (simp_all add: inside_def room_at_def members_act [OF assms(1)])
qed

lemma steady_snoc: "steady (ls @ [a]) T \<longleftrightarrow> steady ls T \<and> keeps_esp a (fold act ls T)"
  by (induction ls arbitrary: T) auto

section \<open>Executions\<close>

lemma exec_room:
  assumes "exec S U cc n entry w0 ls w" and "runs_tasks S w0 T" and "U = members T" and "separate S (members T)"
    and "frames_within n cc" and "n \<le> 268435456" and "steady ls T" and "inside lo T"
    and S: "\<And>t. t \<in> members T \<Longrightarrow> S t = byte_range (lo t) (hi t) \<and> hi t \<le> 4294967292"
  shows "inside lo (fold act ls T) \<and> room_at lo (fold act ls T) + 4 * count_list ls Interrupt = room_at lo T"
  using assms
proof (induction rule: exec.induct)
  case exec_start
  then show ?case by simp
next
  case (exec_interrupt ls w)
  let ?T = "fold act ls T"
  have IH: "inside lo ?T" "room_at lo ?T + 4 * count_list ls Interrupt = room_at lo T"
    using exec_interrupt by (simp_all add: steady_snoc)
  have run: "all_possible ls T" "runs_tasks S w ?T"
    using exec_runs [OF exec_interrupt.hyps(1)] exec_interrupt.prems by blast+
  then have c: "running ?T \<in> members T" and ok: "tasks_ok ?T"
    using members_acts [OF run(1)] runs_tasks_current [OF run(2)] by (auto simp: members_def)
  have "fits (S (running ?T)) (ESP (live ?T) - of_nat (60 + n)) (60 + n)"
    using exec_interrupt.hyps runs_tasks_current [OF run(2)] by simp
  then show ?case
    using room_interrupt [OF ok IH(1), of hi n] S [OF c] IH(2) by simp
next
  case (exec_own ls w w')
  let ?a = "Own (core w')"
  have "possible ?a (fold act ls T)" "keeps_esp ?a (fold act ls T)"
    using exec_own.prems(6) by (simp_all add: steady_snoc)
  then show ?case
    using exec_own.IH exec_own.prems room_same [of ?a "fold act ls T" lo] by (simp add: steady_snoc del: act.simps)
next
  case (exec_yield ls w)
  then show ?case
    by (simp add: steady_snoc)
next
  case (exec_wake ls w u w')
  let ?a = "Wake u"
  have "all_possible (ls @ [?a]) T"
    using exec_runs [OF exec.exec_wake [OF exec_wake.hyps]] exec_wake.prems by blast
  then have "possible ?a (fold act ls T)"
    by (simp add: all_possible_snoc)
  then show ?case
    using exec_wake.IH exec_wake.prems room_same [of ?a "fold act ls T" lo] by (simp add: steady_snoc del: act.simps)
qed

lemma start_inside:
  assumes "runs_tasks S w T"
    and "\<And>t. t \<in> members T \<Longrightarrow> S t = byte_range (lo t) (hi t) \<and> hi t \<le> 4294967240"
    and "lo (running T) \<le> unat (ESP (live T))"
  shows "inside lo T"
  unfolding inside_def
proof
  fix t assume t: "t \<in> members T"
  show "lo t \<le> unat (ESP (task_regs T t))"
  proof (cases "t = running T")
    case True
    then show ?thesis
      using assms(3) by (simp add: task_regs_def)
  next
    case False
    then have st: "stopped (S t) (ram w) t (ctx T t)"
      using assms(1) t by (auto simp: runs_tasks_def members_def)
    let ?sp = "load32 (ram w) t"
    have f: "fits (byte_range (lo t) (hi t)) ?sp 56" and r: "ESP (ctx T t) = ?sp + 56"
      using st assms(2) [OF t] ESP_frame_regs [of "ram w" ?sp] by (auto simp: stopped_def)
    have "?sp + of_nat 0 \<in> byte_range (lo t) (hi t)"
      using f unfolding fits_def by (rule allE [of _ 0]) simp
    then have b: "lo t \<le> unat ?sp" "unat ?sp < hi t"
      by (simp_all add: byte_range_def)
    have "unat (?sp + of_nat 56) = unat ?sp + 56"
      using b(2) assms(2) [OF t] by (intro unat_add_no_wrap) simp
    then show ?thesis
      using b(1) r False by (simp add: task_regs_def)
  qed
qed

lemma room_stack_pointers:
  assumes "runs_tasks S w T"
  shows "room_at lo T = (\<Sum>t\<in>members T. unat (stack_pointer w t) - lo t)"
  unfolding room_at_def using stack_pointer_tasks [OF assms] by simp

text \<open>With room on every stack the interrupts do follow each other.\<close>

definition ready_for :: "(u32 \<Rightarrow> nat) \<Rightarrow> (u32 \<Rightarrow> nat) \<Rightarrow> nat \<Rightarrow> tasks \<Rightarrow> bool" where
  "ready_for lo hi room T \<longleftrightarrow> (\<forall>t\<in>members T. lo t + room \<le> unat (ESP (task_regs T t)) \<and> unat (ESP (task_regs T t)) \<le> hi t)"

lemma ready_for_interrupt:
  assumes "tasks_ok T" and "ready_for lo hi (room + 4) T"
  shows "ready_for lo hi room (interrupt_tasks T)"
  unfolding ready_for_def
proof
  let ?T = "interrupt_tasks T"
  fix t assume "t \<in> members ?T"
  then have t: "t \<in> members T"
    using members_act [of Interrupt T] by simp
  then have r: "lo t + room + 4 \<le> unat (ESP (task_regs T t))" "unat (ESP (task_regs T t)) \<le> hi t"
    using assms(2) by (auto simp: ready_for_def)
  have "unat (ESP (task_regs ?T t)) = unat (ESP (task_regs T t)) - (if t = running T then 4 else 0)"
  proof (cases "t = running T")
    case True
    then have "ESP (task_regs ?T t) = ESP (task_regs T t) - 4"
      unfolding task_regs_interrupt [OF assms(1) t] by (simp add: interrupted_def task_regs_def)
    moreover have "unat (ESP (task_regs T t) - 4) = unat (ESP (task_regs T t)) - 4"
      using r(1) by (simp add: unat_sub word_le_nat_alt)
    ultimately show ?thesis
      using True by simp
  qed (simp add: task_regs_interrupt [OF assms(1) t])
  with r show "lo t + room \<le> unat (ESP (task_regs ?T t)) \<and> unat (ESP (task_regs ?T t)) \<le> hi t"
    by (cases "t = running T") auto
qed

lemma interrupts_happen:
  assumes run: "runs_tasks S w T" and sep: "separate S (members T)" and cc: "frames_within n cc" "n \<le> 268435456"
    and flag: "int_flag (wires w)" and ready: "ready_for lo hi (60 + n + 4 * K) T"
    and S: "\<And>t. t \<in> members T \<Longrightarrow> S t = byte_range (lo t) (hi t) \<and> hi t \<le> 4294967292"
  shows "k \<le> Suc K \<Longrightarrow> exec S (members T) cc n entry w (replicate k Interrupt) ((timer_interrupt cc entry ^^ k) w)
    \<and> int_flag (wires ((timer_interrupt cc entry ^^ k) w))
    \<and> (k \<le> K \<longrightarrow> ready_for lo hi (60 + n + 4 * (K - k)) (fold act (replicate k Interrupt) T))"
proof (induction k)
  case 0
  then show ?case
    using flag ready by (simp add: exec_start)
next
  case (Suc k)
  let ?w = "(timer_interrupt cc entry ^^ k) w" and ?T = "fold act (replicate k Interrupt) T"
  have k: "k \<le> K" and IH: "exec S (members T) cc n entry w (replicate k Interrupt) ?w" "int_flag (wires ?w)"
      "ready_for lo hi (60 + n + 4 * (K - k)) ?T"
    using Suc by simp_all
  have at: "all_possible (replicate k Interrupt) T" "runs_tasks S ?w ?T"
    using exec_runs [OF IH(1) run refl sep cc] by simp_all
  then have cur: "current_thread (sc ?w) = running ?T" "core ?w = live ?T" "tasks_ok ?T"
    and c: "running ?T \<in> members ?T"
    using runs_tasks_current [OF at(2)] by (simp_all add: members_def)
  have mem: "members ?T = members T"
    by (rule members_acts [OF at(1)])
  let ?e = "ESP (live ?T)"
  have r: "lo (running ?T) + (60 + n) \<le> unat ?e" "unat ?e \<le> hi (running ?T)"
    using IH(3) c by (auto simp: ready_for_def task_regs_def)
  moreover have m: "unat (of_nat (60 + n) :: u32) = 60 + n"
    using cc(2) by (intro unat_of_nat_u32) simp
  ultimately have "(of_nat (60 + n) :: u32) \<le> ?e"
    unfolding word_le_nat_alt by linarith
  then have "unat (?e - of_nat (60 + n)) = unat ?e - (60 + n)"
    using unat_sub [of "of_nat (60 + n)" ?e] by (simp only: m)
  then have "fits (S (running ?T)) (?e - of_nat (60 + n)) (60 + n)"
    using S [of "running ?T"] c mem r by (simp add: fits_byte_range)
  then have "fits (S (current_thread (sc ?w))) (ESP (core ?w) - of_nat (60 + n)) (60 + n)"
    by (simp only: cur)
  note step = exec_interrupt [OF IH(1,2) this]
  have "int_flag (wires (timer_interrupt cc entry ?w))"
    by (simp add: timer_interrupt_eq EOI_master_def sti_def)
  moreover have "ready_for lo hi (60 + n + 4 * (K - Suc k)) (interrupt_tasks ?T)" if "Suc k \<le> K"
  proof (rule ready_for_interrupt [OF cur(3)])
    have "60 + n + 4 * (K - Suc k) + 4 = 60 + n + 4 * (K - k)"
      using that by simp
    with IH(3) show "ready_for lo hi (60 + n + 4 * (K - Suc k) + 4) ?T"
      by (simp only:)
  qed
  moreover have "fold act (replicate (Suc k) Interrupt) T = interrupt_tasks ?T"
    by (simp add: replicate_append_same [symmetric] del: replicate.simps)
  ultimately show ?case
    using step by (simp add: replicate_append_same)
qed

section \<open>Properties\<close>

text \<open>
  C18. The kernel cannot run for ever: while the threads only loop, the number of timer interrupts
  is at most a quarter of the bytes between the stack pointers and the lower ends of the stacks, and
  what is left is exactly what the interrupts did not take.
\<close>

theorem uptime_bounded:
  assumes "exec S (members T) cc n entry w0 ls w" and "runs_tasks S w0 T" and "separate S (members T)"
    and "frames_within n cc" and "n \<le> 268435456" and "steady ls T"
    and "\<And>t. t \<in> members T \<Longrightarrow> S t = byte_range (lo t) (hi t) \<and> hi t \<le> 4294967240"
    and "lo (running T) \<le> unat (ESP (core w0))"
  shows "4 * count_list ls Interrupt \<le> (\<Sum>t\<in>members T. unat (stack_pointer w0 t) - lo t)
    \<and> (\<forall>t\<in>members T. lo t \<le> unat (stack_pointer w t))
    \<and> (\<Sum>t\<in>members T. unat (stack_pointer w t) - lo t) + 4 * count_list ls Interrupt
      = (\<Sum>t\<in>members T. unat (stack_pointer w0 t) - lo t)"
proof -
  let ?T = "fold act ls T"
  have run: "all_possible ls T" "runs_tasks S w ?T"
    using exec_runs [OF assms(1,2) refl assms(3-5)] by simp_all
  note mem = members_acts [OF run(1)]
  have "inside lo T"
    using start_inside [OF assms(2,7)] assms(8) runs_tasks_current [OF assms(2)] by simp
  moreover have "S t = byte_range (lo t) (hi t) \<and> hi t \<le> 4294967292" if "t \<in> members T" for t
    using assms(7) [OF that] by simp
  ultimately have room: "inside lo ?T" "room_at lo ?T + 4 * count_list ls Interrupt = room_at lo T"
    using exec_room [OF assms(1,2) refl assms(3-6), of lo hi] by simp_all
  have "lo t \<le> unat (stack_pointer w t)" if "t \<in> members T" for t
    using room(1) stack_pointer_tasks [OF run(2)] that by (simp add: inside_def mem)
  then show ?thesis
    using room(2) unfolding room_stack_pointers [OF assms(2)] room_stack_pointers [OF run(2)] mem by simp
qed

text \<open>The same from the boot on: 18460 interrupts, seventeen minutes at 18.2 per second.\<close>

lemma boot_uptime:
  assumes "schedules (sc w0) (init_struct im) [0x507000, 0x503000]" and "placed im"
    and "thread_at (ram w0) 0x507000 0x504000 bs1 pid fn1" and "thread_at (ram w0) 0x503000 0x50a000 bs2 pid fn2"
    and "exec (boot_stacks im) {init_struct im, 0x507000, 0x503000} cc n entry w0 ls w"
    and "frames_within n cc" and "n \<le> 268435456" and "steady ls (init_tasks im w0)"
    and "unat (init_stack im) \<le> unat (ESP (core w0))" and "unat (ESP (core w0)) \<le> unat (init_stack im) + 0x8038"
  shows "count_list ls Interrupt \<le> 18460"
proof -
  let ?T = "init_tasks im w0" and ?i = "init_struct im"
  let ?lo = "\<lambda>t. if t = 0x507000 then 0x508000 else if t = 0x503000 then 0x50c038 else unat (init_stack im)"
    and ?hi = "\<lambda>t. if t = 0x507000 then 0x50c038 else if t = 0x503000 then 0x512038 else unat (init_stack im) + 0x8038"
  have i: "?i \<noteq> 0x507000" "?i \<noteq> 0x503000"
    using assms(2) by (auto simp: placed_def)
  have m: "members ?T = {?i, 0x507000, 0x503000}" "running ?T = ?i"
    by (auto simp: members_def init_tasks_def)
  note T = init_tasks_run(1) [OF assms(1,3,4)]
  have room: "inside ?lo (fold act ls ?T) \<and> room_at ?lo (fold act ls ?T) + 4 * count_list ls Interrupt = room_at ?lo ?T"
  proof (rule exec_room [OF assms(5) T m(1) [symmetric] _ assms(6-8)])
    show "separate (boot_stacks im) (members ?T)"
      using boot_separate [OF assms(2)] m by simp
    show S: "boot_stacks im t = byte_range (?lo t) (?hi t) \<and> ?hi t \<le> 4294967292" for t
      using assms(2) by (simp add: boot_stacks_def placed_def)
    show "inside ?lo ?T"
      by (rule start_inside [OF T, of ?lo ?hi])
        (use assms(2,9) i m(2) in \<open>simp_all add: boot_stacks_def placed_def init_tasks_def\<close>)
  qed
  have "load32 (ram w0) 0x507000 = 0x50c000" "load32 (ram w0) 0x503000 = 0x512000"
    using assms(3,4) by (simp_all add: thread_at_def layout)
  then have "ESP (task_regs ?T 0x507000) = 0x50c038" "ESP (task_regs ?T 0x503000) = 0x512038"
    "ESP (task_regs ?T ?i) = ESP (core w0)"
    using i by (simp_all add: task_regs_def init_tasks_def)
  then have "room_at ?lo ?T = (unat (ESP (core w0)) - unat (init_stack im)) + (0x4038 + 0x6000)"
    using i by (simp add: room_at_def m)
  with assms(9,10) have "room_at ?lo ?T \<le> 73840"
    by linarith
  then show ?thesis
    using room by linarith
qed

theorem uptime_bounded_witness:
  "unat (stack_pointer (timer_interrupt plain_calls 0x202000 (sample_machine 40)) 0x503000) - 0x50c038
   + (unat (stack_pointer (timer_interrupt plain_calls 0x202000 (sample_machine 40)) 0x507000) - 0x508000) + 4 = 0xa000"
proof -
  let ?lo = "\<lambda>t :: u32. if t = 0x507000 then 0x508000 else 0x50c038 :: nat"
    and ?hi = "\<lambda>t :: u32. if t = 0x507000 then 0x50c038 else 0x512038 :: nat"
  have S: "sample_stacks t = byte_range (?lo t) (?hi t) \<and> ?hi t \<le> 4294967240" for t
    by (simp add: sample_stacks_def)
  have sp: "stack_pointer (sample_machine 40) 0x503000 = 0x512000" "stack_pointer (sample_machine 40) 0x507000 = 0x50c038"
    by (simp_all add: stack_pointer_def sample_machine_def two_threads_def sample_regs_def load32_def sample_ram_def push_bit_eq_mult)
  have "?lo (running (sample_tasks 40)) \<le> unat (ESP (core (sample_machine 40)))"
    by (simp add: sample_tasks_def sample_machine_def sample_regs_def)
  from uptime_bounded [OF sample_exec [of 40] sample_runs _ sample_calls _ _ S this] sample_separate
  show ?thesis
    by (simp add: sample_members sp)
qed

end
