(* ===== verification/LockTasks.thy ===== *)
theory LockTasks
  imports Uptime Sync
begin

text \<open>
  The lock operations of \<^verbatim>\<open>Sync\<close> as actions of the tasks: what a blocking acquire does before its
  yield is a step of the thread's own, a release that wakes a waiter is its return to the ready
  queue. With the round robin of the timer this gives the waiter the processor.
\<close>

section \<open>Lock operations on the machine\<close>

definition sync_of :: "(u32 \<Rightarrow> u32) \<Rightarrow> machine \<Rightarrow> sync" where
  "sync_of cn w = \<lparr>sch = sc w, counter = cn, IF = int_flag (wires w)\<rparr>"

definition put_sync :: "sync \<Rightarrow> machine \<Rightarrow> machine" where
  "put_sync s w = w\<lparr>sc := sch s, wires := (wires w)\<lparr>int_flag := IF s\<rparr>\<rparr>"

lemma enqueue_is_own_step:
  assumes "runs_tasks S w T" and "waiting T \<noteq> []" and "wake_ring (sync_of cn w) l ws"
    and "wait_list l \<notin> elem_of ` members T" and "set ws \<subseteq> blocked T"
  shows "own_step S (members T) w (put_sync (lock_enqueue (sync_of cn w) l) w)"
    and "wake_ring (lock_enqueue (sync_of cn w) l) l (ws @ [running T])"
proof -
  have s: "schedules (sch (sync_of cn w)) (running T) (waiting T)" and ok: "tasks_ok T"
    using assms(1) by (simp_all add: runs_tasks_def sync_of_def)
  have "wait_list l \<notin> elem_of ` set (running T # waiting T)" "set ws \<inter> set (running T # waiting T) = {}"
    using assms(4,5) ok by (auto simp: members_def tasks_ok_def)
  note rings = lock_enqueue_rings [OF s assms(2,3) this]
  show "wake_ring (lock_enqueue (sync_of cn w) l) l (ws @ [running T])"
    by (rule rings(2))
  have "q = waiting T" if "schedules (sc w) (running T) q" for q
    using that s schedules_unique by (auto simp: sync_of_def)
  then show "own_step S (members T) w (put_sync (lock_enqueue (sync_of cn w) l) w)"
    using rings(1) runs_tasks_current [OF assms(1)]
    by (auto simp: own_step_def own_memory_def put_sync_def lock_enqueue_def sync_of_def Let_def)
qed

lemma release_is_wake_step:
  assumes "runs_tasks S w T" and "waiting T \<noteq> []" and "wake_ring (sync_of cn w) l (v # vs)"
    and "0 \<le> c_int (cn l + 1)" and "wait_list l \<notin> elem_of ` members T" and "set (v # vs) \<subseteq> blocked T"
    and "elem_of v \<noteq> 0"
  shows "wake_step S (members T) v w (put_sync (lock_realse (sync_of cn w) l) w)"
    and "wake_ring (lock_realse (sync_of cn w) l) l vs"
proof -
  obtain t ts where q: "waiting T = t # ts"
    using assms(2) by (cases "waiting T") auto
  have s: "schedules (sch (sync_of cn w)) (running T) (t # ts)" and ok: "tasks_ok T"
    using assms(1) q by (simp_all add: runs_tasks_def sync_of_def)
  have apart: "wait_list l \<notin> elem_of ` set (running T # t # ts)" "set (v # vs) \<inter> set (running T # t # ts) = {}"
    and v: "v \<in> members T"
    using assms(5,6) ok q by (auto simp: members_def tasks_ok_def)
  have c: "0 \<le> c_int (counter (sync_of cn w) l + 1)"
    using assms(4) by (simp add: sync_of_def)
  note wakes = lock_realse_wakes [OF s assms(3) c apart assms(7)]
  then show "wake_ring (lock_realse (sync_of cn w) l) l vs"
    by blast
  have "ticks (sch (lock_realse (sync_of cn w) l)) = ticks (sc w)"
    by (simp add: lock_realse_def release_count_def release_wake_def sync_of_def Let_def)
  then show "wake_step S (members T) v w (put_sync (lock_realse (sync_of cn w) l) w)"
    using wakes s v q runs_tasks_current [OF assms(1)]
    by (auto simp: wake_step_def own_memory_def put_sync_def sync_of_def)
qed

section \<open>Turns\<close>

lemma slice_div:
  fixes n :: nat
  shows "(n + 1) mod 20 = 0 \<Longrightarrow> (n + 1) div 20 = Suc (n div 20)"
    and "(n + 1) mod 20 \<noteq> 0 \<Longrightarrow> (n + 1) div 20 = n div 20"
  by (simp_all add: div_Suc)

lemma interrupt_queue:
  "running (interrupt_tasks T) # waiting (interrupt_tasks T) =
    (if (clock T + 1) mod 20 = 0 then rotate1 (running T # waiting T) else running T # waiting T)"
  by (simp add: interrupt_tasks_def Let_def)

lemma interrupt_clock: "clock (interrupt_tasks T) = clock T + 1"
  by (simp add: interrupt_tasks_def Let_def)

lemma slices:
  assumes "computes ls" and "unat (clock T) + count_list ls Interrupt < 4294967296"
  shows "running (fold act ls T) # waiting (fold act ls T)
      = rotate ((unat (clock T) mod 20 + count_list ls Interrupt) div 20) (running T # waiting T)
    \<and> unat (clock (fold act ls T)) = unat (clock T) + count_list ls Interrupt"
  using assms
proof (induction ls rule: rev_induct)
  case Nil
  then show ?case by simp
next
  case (snoc a ls)
  let ?T = "fold act ls T" and ?n = "unat (clock T) mod 20 + count_list ls Interrupt"
  have IH: "running ?T # waiting ?T = rotate (?n div 20) (running T # waiting T)"
      "unat (clock ?T) = unat (clock T) + count_list ls Interrupt"
    using snoc by (simp_all add: computes_def)
  consider "a = Interrupt" | r where "a = Own r"
    using snoc.prems(1) by (cases a) (auto simp: computes_def)
  then show ?case
  proof cases
    case 1
    have u: "unat (clock ?T) + 1 < 4294967296"
      using IH(2) snoc.prems(2) 1 by simp
    have m: "(clock ?T + 1) mod 20 = 0 \<longleftrightarrow> (?n + 1) mod 20 = 0"
      using word_mod_20 [OF u] mod_add_left_eq [of "unat (clock T)" 20 "count_list ls Interrupt + 1"]
      unfolding IH(2) by (simp add: add.assoc)
    have "running (act Interrupt ?T) # waiting (act Interrupt ?T) =
        (if (?n + 1) mod 20 = 0 then rotate1 (running ?T # waiting ?T) else running ?T # waiting ?T)"
      unfolding act.simps interrupt_queue m ..
    also have "\<dots> = rotate ((?n + 1) div 20) (running T # waiting T)"
    proof (cases "(?n + 1) mod 20 = 0")
      case True
      then have "(?n + 1) div 20 = Suc (?n div 20)"
        by (rule slice_div(1))
      with True show ?thesis
        by (simp only: IH(1) simp_thms if_True rotate_Suc)
    next
      case False
      then have "(?n + 1) div 20 = ?n div 20"
        by (rule slice_div(2))
      with False show ?thesis
        by (simp only: IH(1) simp_thms if_False)
    qed
    moreover have "unat (clock (act Interrupt ?T)) = unat (clock ?T) + 1"
      using u unat_add_no_wrap [of "clock ?T" 1] by (simp add: interrupt_clock)
    ultimately show ?thesis
      using IH(2) 1 by (simp del: act.simps)
  next
    case 2
    then show ?thesis
      using IH by simp
  qed
qed

lemma turn_comes:
  assumes "tasks_ok T" and "k < length (waiting T)" and "computes ls"
    and "unat (clock T) mod 20 + count_list ls Interrupt + 1 = 20 * Suc k"
    and "unat (clock T) + count_list ls Interrupt + 1 < 4294967296"
  shows "running (fold act (ls @ [Interrupt]) T) = waiting T ! k"
    and "away (waiting T ! k) (ls @ [Interrupt]) T"
proof -
  let ?q = "running T # waiting T"
  have d: "distinct ?q"
    using assms(1) by (simp add: tasks_ok_def)
  have run: "running (fold act xs T) = ?q ! ((unat (clock T) mod 20 + count_list xs Interrupt) div 20)"
    if "computes xs" "count_list xs Interrupt \<le> count_list ls Interrupt + 1" for xs
  proof -
    let ?j = "(unat (clock T) mod 20 + count_list xs Interrupt) div 20"
    have "?j < length ?q"
      using that(2) assms(2,4) by simp
    then have "hd (rotate ?j ?q) = ?q ! ?j"
      by (simp add: hd_rotate_conv_nth del: rotate_Suc)
    moreover have "running (fold act xs T) # waiting (fold act xs T) = rotate ?j ?q"
      using slices [OF that(1), of T] that(2) assms(5) by simp
    ultimately show ?thesis
      by (metis list.sel(1))
  qed
  show "running (fold act (ls @ [Interrupt]) T) = waiting T ! k"
    using run [of "ls @ [Interrupt]"] assms(3,4) by (simp add: computes_def del: fold_append)
  show "away (waiting T ! k) (ls @ [Interrupt]) T"
    unfolding away_def
  proof (intro allI impI)
    fix i assume "i < length (ls @ [Interrupt])"
    then have i: "take i (ls @ [Interrupt]) = take i ls"
      by simp
    have "count_list (take i ls) Interrupt \<le> count_list (take i ls @ drop i ls) Interrupt"
      by (simp only: count_list_append)
    then have c: "count_list (take i ls) Interrupt \<le> count_list ls Interrupt"
      by simp
    have "computes (take i ls)"
      using assms(3) set_take_subset [of i ls] by (auto simp: computes_def)
    note at = run [OF this]
    let ?j = "(unat (clock T) mod 20 + count_list (take i ls) Interrupt) div 20"
    have "?j < Suc k"
      by (rule less_mult_imp_div_less) (use c assms(4) in linarith)
    then have "?q ! ?j \<noteq> ?q ! Suc k"
      using d assms(2) by (subst nth_eq_iff_index_eq) auto
    then show "running (fold act (take i (ls @ [Interrupt])) T) \<noteq> waiting T ! k"
      unfolding i using at c by simp
  qed
qed

section \<open>Properties\<close>

text \<open>
  C15. A release hands the processor over: the thread that has waited longest for the lock, put
  behind the ready threads by \<^verbatim>\<open>lock_realse\<close>, is dispatched by the timer interrupt that ends their
  slices, with exactly the registers of the frame it was blocked with and not a byte of its stack
  changed, however often the machine was interrupted and whatever the others computed.
\<close>

theorem release_hands_over:
  assumes "runs_tasks S w T" and "separate S (members T)" and "frames_within n cc" and "n \<le> 268435456"
    and "waiting T \<noteq> []" and "wake_ring (sync_of cn w) l (v # vs)" and "0 \<le> c_int (cn l + 1)"
    and "wait_list l \<notin> elem_of ` members T" and "set (v # vs) \<subseteq> blocked T" and "elem_of v \<noteq> 0"
    and "exec S (members T) cc n entry (put_sync (lock_realse (sync_of cn w) l) w) (ls @ [Interrupt]) w'"
    and "computes ls" and "unat (clock T) mod 20 + count_list ls Interrupt + 1 = 20 * Suc (length (waiting T))"
    and "unat (clock T) + count_list ls Interrupt + 1 < 4294967296"
  shows "current_thread (sc w') = v \<and> core w' = frame_regs (ram w) (load32 (ram w) v)
    \<and> (\<forall>x\<in>S v. ram w' x = ram w x)"
proof -
  let ?w = "put_sync (lock_realse (sync_of cn w) l) w" and ?T = "act (Wake v) T"
  note step = release_is_wake_step [OF assms(1,5-10)]
  note woken = wake_step_tasks [OF assms(1) step(1)]
  have mem: "members ?T = members T"
    by (rule members_act [OF woken(1)])
  have ok: "tasks_ok ?T"
    using runs_tasks_current [OF woken(2)] by simp
  have v: "v \<in> blocked T" "v \<in> members T" "v \<noteq> running T"
    using assms(1,9) by (auto simp: members_def runs_tasks_def tasks_ok_def)
  have w: "waiting ?T ! length (waiting T) = v" "clock ?T = clock T" "running ?T = running T" "ctx ?T v = ctx T v"
    by simp_all
  have turn: "running (fold act (ls @ [Interrupt]) ?T) = v" "away v (ls @ [Interrupt]) ?T"
    using turn_comes [OF ok _ assms(12), of "length (waiting T)"] assms(13,14) w by simp_all
  have x: "exec S (members ?T) cc n entry ?w (ls @ [Interrupt]) w'"
    unfolding mem by (rule assms(11))
  have sep: "separate S (members ?T)"
    unfolding mem by (rule assms(2))
  have cur: "current_thread (sc w') = v"
    using exec_runs [OF x woken(2) refl sep assms(3,4)] turn(1)
      runs_tasks_current [of S w' "fold act (ls @ [Interrupt]) ?T"] by simp
  have "core w' = ctx ?T v" "\<forall>x\<in>S v. ram w' x = ram ?w x"
    using comes_back [OF x woken(2) sep assms(3,4) turn(2)] v mem w cur by auto
  moreover have "ctx T v = frame_regs (ram w) (load32 (ram w) v)"
    using assms(1) v(1) by (auto simp: runs_tasks_def stopped_def)
  ultimately show ?thesis
    using cur w(4) by (simp add: put_sync_def)
qed

section \<open>A lock and three threads\<close>

text \<open>One thread holds the lock, one is ready, one waits for the lock with a frame at 0x527000.\<close>

definition lock_stacks :: "u32 \<Rightarrow> u32 set" where
  "lock_stacks t = (if t = 0x501000 then byte_range 0x520000 0x528000
     else if t = 0x507000 then byte_range 0x508000 0x50c038 else byte_range 0x50c038 0x512038)"

definition lock_ram :: bmem where
  "lock_ram = (\<lambda>x. if x = 0x507001 then 0xc0 else if x = 0x507002 then 0x50
     else if x = 0x501001 then 0x70 else if x = 0x501002 then 0x52
     else if x = 0x527031 then 0x12 else if x = 0x527032 then 0x20 else 0)"

definition lock_machine :: machine where
  "lock_machine = \<lparr>core = sample_regs, eflags = 2, ram = lock_ram,
     sc = sch (contended [0x507000] 0x503000 [0x501000] (- 1)), wires = \<lparr>history = [], int_flag = True\<rparr>\<rparr>"

definition lock_tasks :: tasks where
  "lock_tasks = \<lparr>running = 0x503000, waiting = [0x507000], blocked = {0x501000}, live = sample_regs,
     ctx = (\<lambda>c. frame_regs lock_ram (load32 lock_ram c)), clock = 0\<rparr>"

lemma lock_ram_words: "load32 lock_ram 0x507000 = 0x50c000" "load32 lock_ram 0x501000 = 0x527000"
  by (simp_all add: load32_def lock_ram_def push_bit_eq_mult)

lemma lock_members: "members lock_tasks = {0x503000, 0x507000, 0x501000}"
  by (auto simp: members_def lock_tasks_def)

lemma lock_sync: "sync_of (\<lambda>_. - 1) lock_machine = contended [0x507000] 0x503000 [0x501000] (- 1)"
  by (simp add: sync_of_def lock_machine_def contended_def Let_def)

lemma lock_runs: "runs_tasks lock_stacks lock_machine lock_tasks"
proof -
  have "schedules (sch (contended [0x507000] 0x503000 [0x501000] (- 1))) 0x503000 [0x507000]"
    by (simp add: contended_simps)
  moreover have "ticks (sch (contended [0x507000] 0x503000 [0x501000] (- 1))) = 0"
    by (simp add: contended_def Let_def)
  moreover have "fits (lock_stacks 0x507000) 0x50c000 56" "fits (lock_stacks 0x501000) 0x527000 56"
    by (simp_all add: lock_stacks_def fits_byte_range)
  ultimately show ?thesis
    by (simp add: runs_tasks_def lock_machine_def lock_tasks_def tasks_ok_def stopped_def lock_ram_words)
qed

lemma lock_separate: "separate lock_stacks (members lock_tasks)"
proof -
  have "x \<notin> screen_cells" if "0x500000 \<le> unat x" for x
    using above_screen that by simp
  then show ?thesis
    unfolding lock_members by (auto simp: separate_def lock_stacks_def byte_range_def word_at_def)
qed

theorem release_hands_over_witness:
  "EIP (core ((timer_interrupt plain_calls 0x202000 ^^ 40)
     (put_sync (lock_realse (sync_of (\<lambda>_. - 1) lock_machine) 0x600000) lock_machine))) = 0x201200"
proof -
  let ?w = "put_sync (lock_realse (sync_of (\<lambda>_. - 1) lock_machine) 0x600000) lock_machine"
  let ?T = "act (Wake 0x501000) lock_tasks" and ?cn = "\<lambda>_ :: u32. - 1 :: u32"
  let ?lo = "\<lambda>t :: u32. if t = 0x501000 then 0x520000 else if t = 0x507000 then 0x508000 else 0x50c038 :: nat"
    and ?hi = "\<lambda>t :: u32. if t = 0x501000 then 0x528000 else if t = 0x507000 then 0x50c038 else 0x512038 :: nat"
  have lock: "waiting lock_tasks \<noteq> []" "wake_ring (sync_of ?cn lock_machine) 0x600000 [0x501000]"
      "0 \<le> c_int (?cn 0x600000 + 1)" "wait_list 0x600000 \<notin> elem_of ` members lock_tasks"
      "set [0x501000] \<subseteq> blocked lock_tasks" "elem_of 0x501000 \<noteq> 0"
    unfolding lock_sync by (simp_all add: lock_tasks_def lock_members[unfolded members_def] contended_simps members_def)
  note step = release_is_wake_step(1) [OF lock_runs lock]
  note woken = wake_step_tasks [OF lock_runs step]
  have mem: "members ?T = members lock_tasks"
    by (rule members_act [OF woken(1)])
  have "ready_for ?lo ?hi (60 + 0 + 4 * 39) ?T"
    unfolding ready_for_def mem lock_members
    by (simp add: task_regs_def lock_tasks_def sample_regs_def lock_ram_words)
  moreover have "int_flag (wires ?w)"
    by (simp add: put_sync_def lock_realse_def release_count_def release_wake_def sync_of_def lock_machine_def Let_def)
  moreover have "lock_stacks t = byte_range (?lo t) (?hi t) \<and> ?hi t \<le> 4294967292" for t
    by (simp add: lock_stacks_def)
  ultimately have "exec lock_stacks (members lock_tasks) plain_calls 0 0x202000 ?w (replicate 40 Interrupt)
      ((timer_interrupt plain_calls 0x202000 ^^ 40) ?w)"
    using interrupts_happen [OF woken(2) _ sample_calls, of ?lo ?hi 39 40] lock_separate unfolding mem by simp
  moreover have "replicate 40 Interrupt = replicate 39 Interrupt @ [Interrupt]"
    by (simp add: eval_nat_numeral)
  ultimately have "exec lock_stacks (members lock_tasks) plain_calls 0 0x202000 ?w (replicate 39 Interrupt @ [Interrupt])
      ((timer_interrupt plain_calls 0x202000 ^^ 40) ?w)"
    by (simp only:)
  from release_hands_over [OF lock_runs lock_separate sample_calls _ lock this computes_interrupts(1)]
  have "core ((timer_interrupt plain_calls 0x202000 ^^ 40) ?w) = frame_regs lock_ram (load32 lock_ram 0x501000)"
    by (simp add: computes_interrupts lock_tasks_def lock_machine_def)
  then show ?thesis
    by (simp add: lock_ram_words frame_regs_def) (simp add: load32_def lock_ram_def push_bit_eq_mult)
qed

end
