(* ===== verification/Stops.thy ===== *)
theory Stops
  imports Idt Display
begin

text \<open>
  How the system stops: \<^verbatim>\<open>exception_handler\<close> of \<^verbatim>\<open>src/kernel/interrupt/exception.c\<close> and
  the \<^verbatim>\<open>PANIC\<close> macros of \<^verbatim>\<open>src/kernel/debug.h\<close> and \<^verbatim>\<open>src/boot/debug.h\<close>. Each ends in
  an endless loop with nothing in it; its result here is the memory it loops with, the screen
  included. The address the compiler gives a string literal is the parameter \<^verbatim>\<open>lit\<close>.
\<close>

section \<open>exception.c\<close>

definition exception_handler :: "(string \<Rightarrow> u32) \<Rightarrow> bmem \<Rightarrow> int \<Rightarrow> string \<Rightarrow> bmem outcome" where
  "exception_handler lit m vec_num func_name =
     bind_outcome (dis_str m (lit ''EXCEPTION:'') 0xa 0 0) (\<lambda>(n, m).
     bind_outcome (dis_str m (lit func_name) 0xa 0 10) (\<lambda>(n, m). Inr m))"

text \<open>The handler called \<^verbatim>\<open>f\<close>.\<close>

definition run_exception :: "(string \<Rightarrow> u32) \<Rightarrow> bmem \<Rightarrow> string \<Rightarrow> bmem outcome" where
  "run_exception lit m f = (case map_of exception_calls f of
     Some (vec_num, func_name) \<Rightarrow> exception_handler lit m vec_num func_name
   | None \<Rightarrow> Inl Uninitialised)"

section \<open>The PANIC macros\<close>

definition PANIC_boot :: "(string \<Rightarrow> u32) \<Rightarrow> string \<Rightarrow> bmem \<Rightarrow> bmem outcome" where
  "PANIC_boot lit str m =
     bind_outcome (dis_str m (lit ''PANIC:'') 0x9 0 0) (\<lambda>(n, m).
     bind_outcome (dis_str m (lit str) 0xa 0 0) (\<lambda>(n, m). Inr m))"

definition PANIC_kernel :: "(string \<Rightarrow> u32) \<Rightarrow> string \<Rightarrow> bmem \<times> io \<Rightarrow> (bmem \<times> io) outcome" where
  "PANIC_kernel lit str s =
     (let w = cli (snd s) in
      bind_outcome (dis_str (fst s) (lit ''PANIC:'') 0x9 0 0) (\<lambda>(n, m).
      bind_outcome (dis_str m (lit str) 0xa 0 0) (\<lambda>(n, m). Inr (m, w))))"

section \<open>String literals\<close>

definition chars :: "string \<Rightarrow> u8 list" where
  "chars s = map of_char s"

lemma length_chars [simp]: "length (chars s) = length s"
  by (simp add: chars_def)

definition literal :: "(string \<Rightarrow> u32) \<Rightarrow> bmem \<Rightarrow> string \<Rightarrow> bool" where
  "literal lit m s \<longleftrightarrow> cstr m (lit s) (chars s) \<and> (\<forall>i\<le>length s. off_screen (lit s + of_nat i))"

lemma literal_cong:
  assumes "literal lit m s" and "\<And>x. off_screen x \<Longrightarrow> m' x = m x"
  shows "literal lit m' s"
proof -
  have "cstr m' (lit s) (chars s)"
    by (rule cstr_cong [of m]) (use assms in \<open>auto simp: literal_def\<close>)
  then show ?thesis
    using assms(1) by (simp add: literal_def)
qed

lemma literal_shown:
  "literal lit m s \<Longrightarrow> unat loc + 2 * length bs \<le> 0x10000 \<Longrightarrow> literal lit (shown loc c bs m) s"
  by (erule literal_cong) (rule shown_off_screen)

lemma dis_str_literal:
  assumes "literal lit m s" and "unat (row * 160 + col * 2) + 2 * length s \<le> 0x10000"
  shows "dis_str m (lit s) c row col = Inr (int (length s), shown (row * 160 + col * 2) c (chars s) m)"
  using dis_str_off_screen(1) [of m "lit s" "chars s" row col c] assms by (simp add: literal_def)

text \<open>Two strings side by side are one; a string hides a shorter one in the same place.\<close>

lemma shown_append:
  assumes "unat loc + 2 * (length a + length b) \<le> 0x10000"
  shows "shown (loc + 2 * of_nat (length a)) c b (shown loc c a m) = shown loc c (a @ b) m"
proof (rule ext)
  fix x
  let ?d = "unat (x - (SCREEN + loc))" and ?n = "2 * length a"
  have n: "unat (2 * of_nat (length a) :: u32) = ?n"
    using unat_of_nat_u32 [of ?n] assms by simp
  have e: "x - (SCREEN + (loc + 2 * of_nat (length a))) = (x - (SCREEN + loc)) - 2 * of_nat (length a)"
    by simp
  have d: "unat (x - (SCREEN + (loc + 2 * of_nat (length a)))) =
      (if ?n \<le> ?d then ?d - ?n else ?d + 4294967296 - ?n)"
    unfolding e unat_sub_if_size n by (simp add: word_size)
  have half: "d div 2 = length a + (d - ?n) div 2 \<and> (even (d - ?n) \<longleftrightarrow> even d)" if "?n \<le> d" for d
    using that by (auto simp: le_iff_add)
  consider "?d < ?n" | "?n \<le> ?d" by linarith
  then show "shown (loc + 2 * of_nat (length a)) c b (shown loc c a m) x = shown loc c (a @ b) m x"
  proof cases
    case 1
    then have "?d div 2 < length a" by linarith
    moreover have "\<not> d + 4294967296 - ?n < 2 * length b" for d
      using assms by simp
    ultimately show ?thesis
      using 1 unfolding shown_def Let_def d by (simp add: nth_append)
  next
    case 2
    then show ?thesis
      using half [OF 2] unfolding shown_def Let_def d by (auto simp: nth_append)
  qed
qed

lemma shown_hides:
  "length a \<le> length b \<Longrightarrow> shown loc c b (shown loc c' a m) = shown loc c b m"
  by (auto simp: shown_def Let_def fun_eq_iff)

section \<open>What a panic leaves\<close>

text \<open>
  Both strings start in the same cell, so a message of six characters or more, as every one in
  the source is, hides the word that was to announce it.
\<close>

lemma panic_hides_prefix:
  assumes "literal lit m ''PANIC:''" and "literal lit m s" and "6 \<le> length s" and "length s \<le> 0x8000"
  shows "PANIC_boot lit s m = Inr (shown 0 0xa (chars s) m)"
    and "PANIC_kernel lit s (m, w) = Inr (shown 0 0xa (chars s) m, w\<lparr>int_flag := False\<rparr>)"
proof -
  note first = dis_str_literal [OF assms(1), of 0 0 9]
  have "literal lit (shown 0 9 (chars ''PANIC:'') m) s"
    by (rule literal_shown [OF assms(2)]) simp
  note second = dis_str_literal [OF this, of 0 0 10]
  have "shown 0 10 (chars s) (shown 0 9 (chars ''PANIC:'') m) = shown 0 10 (chars s) m"
    by (rule shown_hides) (use assms(3) in simp)
  with first second assms(4)
  show "PANIC_boot lit s m = Inr (shown 0 0xa (chars s) m)"
    and "PANIC_kernel lit s (m, w) = Inr (shown 0 0xa (chars s) m, w\<lparr>int_flag := False\<rparr>)"
    by (simp_all add: PANIC_boot_def PANIC_kernel_def cli_def)
qed

section \<open>Properties\<close>

lemma run_exception_shows:
  assumes "(v, f) \<in> set exception_table" and "literal lit m ''EXCEPTION:''" and "literal lit m f"
  shows "run_exception lit m f = Inr (shown 0 0xa (chars (''EXCEPTION:'' @ f)) m)"
proof -
  have "\<forall>p\<in>set exception_table. length (snd p) \<le> 80"
    by (simp add: exception_table_def)
  then have len: "length f \<le> 80"
    using assms(1) by auto
  note first = dis_str_literal [OF assms(2), of 0 0 10]
  have "literal lit (shown 0 10 (chars ''EXCEPTION:'') m) f"
    by (rule literal_shown [OF assms(3)]) simp
  note second = dis_str_literal [OF this, of 0 10 10]
  have "shown (0 + 2 * of_nat (length (chars ''EXCEPTION:''))) 10 (chars f) (shown 0 10 (chars ''EXCEPTION:'') m)
      = shown 0 10 (chars ''EXCEPTION:'' @ chars f) m"
    by (rule shown_append) (use len in simp)
  moreover have "chars ''EXCEPTION:'' @ chars f = chars (''EXCEPTION:'' @ f)"
    by (simp add: chars_def)
  ultimately have "exception_handler lit m n f = Inr (shown 0 0xa (chars (''EXCEPTION:'' @ f)) m)" for n
    using first second len by (simp add: exception_handler_def)
  then show ?thesis
    using exception_calls_match [OF exception_keys(2) [OF assms(1)]] by (simp add: run_exception_def)
qed

text \<open>
  C28. Every exception ends on the screen under its own name: its vector leads, through a
  present trap gate of the kernel's code segment, to the handler written for that vector, which stops
  with \<^verbatim>\<open>EXCEPTION:\<close> and the handler's name at the top left and not another byte of memory
  changed.
\<close>

theorem exception_reported:
  assumes "length (idt k) = IDTNUM" and "(v, f) \<in> set exception_table"
    and "literal lit m ''EXCEPTION:''" and "literal lit m f"
  shows "reads_gate (gate (load_idt a i k) v) (a f) 0x20 0x8f
    \<and> map_of exception_calls f = Some (int v, f)
    \<and> run_exception lit m f = Inr (shown 0 0xa (chars (''EXCEPTION:'' @ f)) m)"
proof -
  have "v < IDTNUM" "v \<noteq> 0x80" "map_of exception_table v = Some f"
    using exception_keys [OF assms(2)] by (simp_all add: layout)
  then have "gate (load_idt a i k) v = set_gate GATE_EXCEPTION (a f) 0 0x20"
    using gate_load_idt [OF assms(1), of v a i] by simp
  then show ?thesis
    using run_exception_shows [OF assms(2-4)] exception_calls_match \<open>map_of exception_table v = Some f\<close>
    by (simp add: reads_gate_set_gate layout)
qed

text \<open>Both strings of a page fault at 2 MB.\<close>

definition fault_mem :: bmem where
  "fault_mem x = (let i = unat (x - 0x200000) in
     if i < 26 then (chars ''EXCEPTION:'' @ [0, 0, 0, 0, 0, 0] @ chars ''page_fault'') ! i else 0)"

definition fault_lit :: "string \<Rightarrow> u32" where
  "fault_lit s = (if s = ''page_fault'' then 0x200010 else 0x200000)"

lemma off_screen_above:
  assumes "0x200000 \<le> unat a" and "unat a + i < 4294967296"
  shows "off_screen (a + of_nat i)"
proof -
  have "unat (a + of_nat i) = unat a + i"
    using assms(2) by (intro unat_add_no_wrap) simp
  then have "unat (a + of_nat i - SCREEN) = unat a + i - 0xb8000"
    using assms(1) by (subst unat_sub) (simp_all add: word_le_nat_alt layout)
  then show ?thesis
    using assms(1) by (simp add: off_screen_def)
qed

lemma fault_literals:
  "literal fault_lit fault_mem ''EXCEPTION:''" "literal fault_lit fault_mem ''page_fault''"
  using off_screen_above [of "0x200000"] off_screen_above [of "0x200010"]
  by (simp_all add: literal_def fault_lit_def fault_mem_def chars_def)

theorem exception_reported_witness:
  "\<exists>m'. run_exception fault_lit fault_mem ''page_fault'' = Inr m'
    \<and> m' 0xb8014 = 112 \<and> m' 0xb8015 = 10 \<and> m' 0xb8028 = 0"
proof -
  have "length (idt \<lparr>idt = replicate IDTNUM \<lparr>da = 0, db = 0\<rparr>, idtr = \<lparr>size_field = 0, address = 0\<rparr>,
      interrupt = [], ports = cold_io\<rparr>) = IDTNUM" and "(14, ''page_fault'') \<in> set exception_table"
    by (simp_all add: exception_table_def)
  from exception_reported [OF this fault_literals]
  have "run_exception fault_lit fault_mem ''page_fault'' = Inr (shown 0 10 (chars ''EXCEPTION:page_fault'') fault_mem)"
    by simp
  then show ?thesis
    by (simp add: shown_def chars_def fault_mem_def layout Let_def)
qed

end
