(* ===== verification/BootCopies.thy ===== *)
theory BootCopies
  imports Pic Display
begin

text \<open>
  The loader has its own copies of two files of the kernel: \<^verbatim>\<open>src/boot/8259a.c\<close> and
  \<^verbatim>\<open>src/boot/display.c\<close>. They are translated here from the copies, and each function is shown
  to be that of the kernel's file, which the theories of the loader use.
\<close>

section \<open>8259a.c\<close>

definition outb_boot :: "u8 \<Rightarrow> u16 \<Rightarrow> io \<Rightarrow> io" where
  "outb_boot v port w = emit (Out8 port v) w"

definition inb_boot :: "device \<Rightarrow> u16 \<Rightarrow> io \<Rightarrow> u8 \<times> io" where
  "inb_boot dev port w = (ucast (dev (history w) port), emit (In8 port) w)"

definition outw_boot :: "u16 \<Rightarrow> u16 \<Rightarrow> io \<Rightarrow> io" where
  "outw_boot v port w = emit (Out16 port v) w"

definition inw_boot :: "device \<Rightarrow> u16 \<Rightarrow> io \<Rightarrow> u16 \<times> io" where
  "inw_boot dev port w = (ucast (dev (history w) port), emit (In16 port) w)"

definition outl_boot :: "u32 \<Rightarrow> u16 \<Rightarrow> io \<Rightarrow> io" where
  "outl_boot v port w = emit (Out32 port v) w"

definition inl_boot :: "device \<Rightarrow> u32 \<Rightarrow> io \<Rightarrow> u32 \<times> io" where
  "inl_boot dev port w = (dev (history w) (ucast port), emit (In32 (ucast port)) w)"

definition io_delay_boot :: "io \<Rightarrow> io" where
  "io_delay_boot w = emit Delay w"

definition outb_pic_boot :: "u8 \<Rightarrow> u16 \<Rightarrow> io \<Rightarrow> io" where
  "outb_pic_boot v port w = io_delay_boot (outb_boot v port w)"

definition inb_pic_boot :: "device \<Rightarrow> u16 \<Rightarrow> io \<Rightarrow> u8 \<times> io" where
  "inb_pic_boot dev port w = (let (v, w) = inb_boot dev port w in (v, io_delay_boot w))"

text \<open>The ports of \<^verbatim>\<open>src/boot/8259a.h\<close>.\<close>

definition MASTER_IMR_boot :: u16 where [layout]: "MASTER_IMR_boot = 0x21"
definition SLAVE_IMR_boot :: u16 where [layout]: "SLAVE_IMR_boot = 0xa1"
definition MASTER_CMD_boot :: u16 where [layout]: "MASTER_CMD_boot = 0x20"
definition SLAVE_CMD_boot :: u16 where [layout]: "SLAVE_CMD_boot = 0xa0"

definition Init_8259A_boot :: "io \<Rightarrow> io" where
  "Init_8259A_boot w =
     (let w = outb_pic_boot 0x11 MASTER_CMD_boot w;
          w = outb_pic_boot 0x11 SLAVE_CMD_boot w;
          w = outb_pic_boot 0x30 MASTER_IMR_boot w;
          w = outb_pic_boot 0x38 SLAVE_IMR_boot w;
          w = outb_pic_boot 0x4 MASTER_IMR_boot w;
          w = outb_pic_boot 0x2 SLAVE_IMR_boot w;
          w = outb_pic_boot 0x1 MASTER_IMR_boot w;
          w = outb_pic_boot 0x1 SLAVE_IMR_boot w;
          w = outb_pic_boot 0xff MASTER_IMR_boot w
      in outb_pic_boot 0xff SLAVE_IMR_boot w)"

definition enable_irq_boot :: "device \<Rightarrow> int \<Rightarrow> io \<Rightarrow> io" where
  "enable_irq_boot dev irq w =
     (let (master_now, w) = inb_pic_boot dev MASTER_IMR_boot w;
          (slave_now, w) = inb_pic_boot dev SLAVE_IMR_boot w;
          w = cli w;
          w = (if irq < 8 \<and> irq \<noteq> 2
               then let ocw_master = ucast (NOT (shl32 1 (of_int irq)) AND (ucast master_now :: u32))
                    in outb_pic_boot ocw_master MASTER_IMR_boot w
               else w);
          w = (if 8 < irq \<and> irq < 16
               then let ocw_master = ucast (NOT (shl32 1 2) AND (ucast master_now :: u32));
                        ocw_slave = ucast (NOT (shl32 1 (of_int (irq - 8))) AND (ucast slave_now :: u32));
                        w = outb_pic_boot ocw_master MASTER_IMR_boot w
                    in outb_pic_boot ocw_slave SLAVE_IMR_boot w
               else w)
      in sti w)"

definition EOI_master_boot :: "io \<Rightarrow> io" where
  "EOI_master_boot w = sti (outb_pic_boot 0x20 MASTER_CMD_boot w)"

definition EOI_slave_boot :: "io \<Rightarrow> io" where
  "EOI_slave_boot w = sti (outb_pic_boot 0x20 SLAVE_CMD_boot (outb_pic_boot 0x20 MASTER_CMD_boot w))"

lemma boot_port_eqs:
  "outb_boot = outb" "inb_boot = inb" "outw_boot = outw" "inw_boot = inw" "outl_boot = outl" "inl_boot = inl"
  "io_delay_boot = io_delay" "outb_pic_boot = outb_pic" "inb_pic_boot = inb_pic"
  by (simp_all add: fun_eq_iff port_defs outb_boot_def inb_boot_def outw_boot_def inw_boot_def
      outl_boot_def inl_boot_def io_delay_boot_def outb_pic_boot_def inb_pic_boot_def)

lemma boot_8259a_eqs:
  "Init_8259A_boot = Init_8259A" "enable_irq_boot = enable_irq"
  "EOI_master_boot = EOI_master" "EOI_slave_boot = EOI_slave"
  by (simp_all add: fun_eq_iff Init_8259A_boot_def Init_8259A_def enable_irq_boot_def enable_irq_def
      EOI_master_boot_def EOI_master_def EOI_slave_boot_def EOI_slave_def boot_port_eqs layout
      clear_mask_bit_def Let_def split: prod.split)

section \<open>display.c\<close>

text \<open>\<^verbatim>\<open>movb %al, %ah; movb %bl, %al; movw %ax, %gs:(%edi)\<close> for each character.\<close>

primrec dis_loop_boot :: "nat \<Rightarrow> bmem \<Rightarrow> u32 \<Rightarrow> u8 \<Rightarrow> u32 \<Rightarrow> bmem outcome" where
  "dis_loop_boot 0 m tmp color loc = Inr m"
| "dis_loop_boot (Suc n) m tmp color loc =
     (let word = m tmp; tmp = tmp + 1 in
      bind_outcome (gs_store m loc word color) (\<lambda>m. dis_loop_boot n m tmp color (loc + 2)))"

definition dis_nchar_boot :: "bmem \<Rightarrow> u32 \<Rightarrow> u8 \<Rightarrow> u32 \<Rightarrow> u32 \<Rightarrow> u32 \<Rightarrow> (int \<times> bmem) outcome" where
  "dis_nchar_boot m straddr color len row col =
     (let loc = row * 160 + col * 2; n = nat (c_int len) in
      bind_outcome (dis_loop_boot n m straddr color loc) (\<lambda>m. Inr (int n, m)))"

definition dis_str_boot :: "bmem \<Rightarrow> u32 \<Rightarrow> u8 \<Rightarrow> u32 \<Rightarrow> u32 \<Rightarrow> (int \<times> bmem) outcome" where
  "dis_str_boot m straddr color row col =
     (let loc = row * 160 + col * 2 in
      bind_outcome (returns (strlen m straddr)) (\<lambda>len.
      bind_outcome (dis_loop_boot (nat (c_int len)) m straddr color loc) (\<lambda>m.
        Inr (int (nat (c_int len)), m))))"

lemma boot_display_eqs:
  "dis_loop_boot n m p c loc = dis_loop n m p c loc" "dis_nchar_boot = dis_nchar" "dis_str_boot = dis_str"
proof -
  show "dis_loop_boot n m p c loc = dis_loop n m p c loc" for n m p c loc
    by (induction n arbitrary: m p loc) (simp_all add: Let_def)
  then show "dis_nchar_boot = dis_nchar" "dis_str_boot = dis_str"
    by (simp_all add: fun_eq_iff dis_nchar_boot_def dis_nchar_def dis_str_boot_def dis_str_def)
qed

end
