(* ===== verification/OldPaging.thy ===== *)
theory OldPaging
  imports Paging
begin

text \<open>
  The paging set-up of the old loader, \<^verbatim>\<open>src/boot/bak/loader.c\<close> (lines 201 to 299) and
  \<^verbatim>\<open>loader.h\<close>, which no build file uses any more. The directory is at 5 MB, the page tables
  behind it; \<^verbatim>\<open>struct page_table\<close> has 4096 entries of which the loop fills 1024, so the tables
  are 16 KB apart. The loops are modelled as in \<^verbatim>\<open>Paging\<close>, and their record is the same.
\<close>

section \<open>How much memory\<close>

definition memory_map_addr :: u32 where [layout]: "memory_map_addr = 0x8000"
definition OldPageSize :: u32 where [layout]: "OldPageSize = 4096"
definition PageDir :: u32 where [layout]: "PageDir = 0x500000"
definition PageTable :: u32 where [layout]: "PageTable = 0x501000"
definition sizeof_page_dir :: u32 where [layout]: "sizeof_page_dir = 4 * 4096"
definition sizeof_page_table :: u32 where [layout]: "sizeof_page_table = 4 * 4096"

text \<open>The E820 descriptor at an address: five packed words.\<close>

definition old_ARDS :: "bmem \<Rightarrow> u32 \<Rightarrow> e820_ARDS" where
  "old_ARDS m a = \<lparr>baselow = load32 m a, basehigh = load32 m (a + 4), lenthlow = load32 m (a + 8),
     lenthhigh = load32 m (a + 12), e820_type = load32 m (a + 16)\<rparr>"

primrec old_scan :: "nat \<Rightarrow> bmem \<Rightarrow> u32 \<Rightarrow> u32 \<Rightarrow> u32 \<Rightarrow> u32 \<times> u32" where
  "old_scan 0 m tmp Start Lenth = (Start, Lenth)"
| "old_scan (Suc n) m tmp Start Lenth =
     (let e = old_ARDS m tmp in
      if e820_type e = 1 \<and> Start < baselow e
      then old_scan n m (tmp + 20) (baselow e) (lenthlow e)
      else old_scan n m (tmp + 20) Start Lenth)"

text \<open>The loop runs while \<^verbatim>\<open>i <= ARDSCount\<close>, once more than there are descriptors.\<close>

definition get_page_num :: "bmem \<Rightarrow> int \<Rightarrow> u32 \<Rightarrow> int" where
  "get_page_num m ARDSCount AddrStart =
     (let (Start, Lenth) = old_scan (nat (ARDSCount + 1)) m AddrStart 0 0;
          End = Start + Lenth;
          count = uint (End div OldPageSize)
      in if 0 < push_bit 12 (End AND 0xfff) div OldPageSize then count + 1 else count)"

definition get_pteT_num :: "int \<Rightarrow> int" where
  "get_pteT_num page_num =
     (let count = c_quot page_num 1024
      in if 0 < c_quot (push_bit 10 (page_num AND 0x3ff)) 1024 then count + 1 else count)"

definition get_pdeT_num :: "int \<Rightarrow> int" where
  "get_pdeT_num ptet_num =
     (let count = c_quot ptet_num 1024
      in if 0 < c_quot (push_bit 10 (ptet_num AND 0x3ff)) 1024 then count + 1 else count)"

section \<open>Set\_Page\<close>

primrec old_table :: "nat \<Rightarrow> page_fill \<Rightarrow> page_fill" where
  "old_table 0 f = f"
| "old_table (Suc PE) f =
     (let f = old_table PE f in
      f\<lparr>pf_mem := store32 (pf_mem f) (tmptable f + 4 * of_nat PE) (pagebase f OR 0x7),
        pagebase := pagebase f + 4096\<rparr>)"

primrec old_dir :: "nat \<Rightarrow> u32 \<Rightarrow> page_fill \<Rightarrow> page_fill" where
  "old_dir 0 tmpPDR f = f"
| "old_dir (Suc PT) tmpPDR f =
     (let f = old_dir PT tmpPDR f;
          f = f\<lparr>pf_mem := store32 (pf_mem f) (tmpPDR + 4 * of_nat PT)
                 ((tmptable f + 4 * of_nat PT) OR 0x7)\<rparr>;
          f = old_table 1024 f
      in f\<lparr>tmptable := tmptable f + sizeof_page_table\<rparr>)"

primrec old_dirs :: "nat \<Rightarrow> nat \<Rightarrow> page_fill \<Rightarrow> page_fill \<times> u32" where
  "old_dirs 0 PTETNum f = (f, PageDir)"
| "old_dirs (Suc PD) PTETNum f =
     (let (f, tmpPDR) = old_dirs PD PTETNum f
      in (old_dir PTETNum tmpPDR f, tmpPDR + sizeof_page_dir))"

record old_vm =
  ovm_mem :: bmem
  ovm_cr0 :: u32
  ovm_cr3 :: u32

definition Set_Page :: "int \<Rightarrow> old_vm \<Rightarrow> old_vm" where
  "Set_Page DetectCount s =
     (let PageNum = get_page_num (ovm_mem s) DetectCount memory_map_addr;
          PTETNum = get_pteT_num PageNum;
          PDETNum = get_pdeT_num PTETNum;
          f = \<lparr>pf_mem = ovm_mem s, pagebase = 1024, tmptable = PageTable\<rparr>;
          f = fst (old_dirs (nat PDETNum) (nat PTETNum) f)
      in s\<lparr>ovm_mem := pf_mem f, ovm_cr3 := PageDir, ovm_cr0 := ovm_cr0 s OR 0x80000000\<rparr>)"

section \<open>The counts\<close>

lemma round_up_div:
  fixes n k :: int
  assumes "0 < k"
  shows "n div k + (if 0 < n mod k then 1 else 0) = (n + (k - 1)) div k"
proof -
  define q r where "q = n div k" and "r = n mod k"
  have n: "n = r + q * k" and r: "0 \<le> r" "r < k"
    using assms by (simp_all add: q_def r_def)
  have "n + (k - 1) = (r + (k - 1)) + q * k"
    by (simp add: n)
  then have "(n + (k - 1)) div k = q + (r + (k - 1)) div k"
    using assms div_mult_self1 [of k "r + (k - 1)" q] by (simp only:)
  moreover have "(r + (k - 1)) div k = (if 0 < r then 1 else 0)"
  proof (cases "0 < r")
    case True
    have "r + (k - 1) = (r - 1) + 1 * k"
      by simp
    then have "(r + (k - 1)) div k = 1 + (r - 1) div k"
      using assms by (metis div_mult_self1 add.commute less_irrefl)
    then show ?thesis
      using True r by simp
  qed (use r in simp)
  ultimately show ?thesis
    by (simp add: q_def r_def)
qed

lemma round_up_1024:
  assumes "0 \<le> n"
  shows "c_quot n 1024 + (if 0 < c_quot (push_bit 10 (n AND 0x3ff)) 1024 then 1 else 0) = (n + 1023) div 1024"
proof -
  have m: "n AND 0x3ff = n mod 1024"
    using take_bit_eq_mask [of 10 n] by (simp add: mask_eq_exp_minus_1 take_bit_eq_mod)
  have "c_quot (push_bit 10 (n AND 0x3ff)) 1024 = n mod 1024"
    unfolding m by (subst c_quot_nonneg) (simp_all add: push_bit_eq_mult)
  then show ?thesis
    using assms round_up_div [of 1024 n] by (simp add: c_quot_nonneg)
qed

lemma get_pteT_num_eq: "0 \<le> n \<Longrightarrow> get_pteT_num n = (n + 1023) div 1024"
  using round_up_1024 [of n] by (simp add: get_pteT_num_def Let_def split: if_splits)

lemma get_pdeT_num_eq: "0 \<le> n \<Longrightarrow> get_pdeT_num n = (n + 1023) div 1024"
  using round_up_1024 [of n] by (simp add: get_pdeT_num_def Let_def split: if_splits)

text \<open>The pages cover the range: \<^verbatim>\<open>get_page_num\<close> rounds its end up.\<close>

lemma get_page_num_eq:
  assumes "old_scan (nat (cnt + 1)) m a 0 0 = (s, l)"
  shows "get_page_num m cnt a = (uint (s + l) + 4095) div 4096"
proof -
  have low: "unat (e AND 0xfff) = unat e mod 4096" for e :: u32
    using unat_and_mask [of e 12] by (simp add: mask_eq_exp_minus_1)
  have up: "unat (push_bit 12 x) = 4096 * unat x" if "unat x < 4096" for x :: u32
    using that by (simp add: push_bit_eq_mult unat_word_ariths)
  have "unat (push_bit 12 (e AND 0xfff) div OldPageSize) = unat e mod 4096" for e :: u32
    unfolding unat_div_u32 low up [of "e AND 0xfff", unfolded low, OF mod_less_divisor [OF zero_less_numeral]]
    by (simp add: layout)
  then have "0 < push_bit 12 (e AND 0xfff) div OldPageSize \<longleftrightarrow> 0 < unat e mod 4096" for e :: u32
    by (simp only: word_less_nat_alt unat_0)
  moreover have "0 < unat e mod 4096 \<longleftrightarrow> 0 < uint e mod 4096" for e :: u32
  proof -
    have "int (unat e mod 4096) = uint e mod 4096"
      unfolding of_nat_mod by simp
    then show ?thesis by linarith
  qed
  moreover have "uint (e div OldPageSize) = uint e div 4096" for e :: u32
    by (simp add: uint_div layout)
  ultimately show ?thesis
    using assms round_up_div [of 4096 "uint (s + l)"] by (auto simp: get_page_num_def Let_def)
qed

lemma old_counts:
  assumes "n = get_page_num m cnt a"
  shows "0 \<le> n" and "n \<le> 1048576" and "get_pteT_num n = (n + 1023) div 1024"
    and "0 \<le> get_pteT_num n" and "get_pteT_num n \<le> 1024"
    and "get_pdeT_num (get_pteT_num n) = (if n = 0 then 0 else 1)"
proof -
  obtain s l where "old_scan (nat (cnt + 1)) m a 0 0 = (s, l)"
    by fastforce
  then have n: "n = (uint (s + l) + 4095) div 4096"
    unfolding assms by (rule get_page_num_eq)
  moreover have "0 \<le> uint (s + l)" "uint (s + l) < 4294967296"
    using uint_lt2p [of "s + l"] by simp_all
  ultimately show b: "0 \<le> n" "n \<le> 1048576"
    unfolding n by linarith+
  then show p: "get_pteT_num n = (n + 1023) div 1024"
    by (simp add: get_pteT_num_eq)
  with b show t: "0 \<le> get_pteT_num n" "get_pteT_num n \<le> 1024"
    by simp_all
  have "get_pdeT_num (get_pteT_num n) = (get_pteT_num n + 1023) div 1024"
    using t(1) by (rule get_pdeT_num_eq)
  also have "\<dots> = (if n = 0 then 0 else 1)"
    using b p t by (cases "n = 0") auto
  finally show "get_pdeT_num (get_pteT_num n) = (if n = 0 then 0 else 1)" .
qed

text \<open>The scan reads the descriptors and nothing else.\<close>

lemma old_scan_cong:
  "(\<And>k. k < n \<Longrightarrow> old_ARDS m' (a + 20 * of_nat k) = old_ARDS m (a + 20 * of_nat k)) \<Longrightarrow>
    old_scan n m' a s l = old_scan n m a s l"
proof (induction n arbitrary: a s l)
  case 0
  then show ?case by simp
next
  case (Suc n)
  have "old_ARDS m' (a + 20 + 20 * of_nat k) = old_ARDS m (a + 20 + 20 * of_nat k)" if "k < n" for k
    using Suc.prems [of "Suc k"] that by (simp add: algebra_simps)
  then show ?case
    using Suc.IH [of "a + 20"] Suc.prems [of 0] by (simp add: Let_def)
qed

lemma get_page_num_cong:
  assumes "\<And>x. unat x < 0xb8000 \<Longrightarrow> m' x = m x" and "cnt < 0x8000"
  shows "get_page_num m' cnt memory_map_addr = get_page_num m cnt memory_map_addr"
proof -
  have "old_ARDS m' (memory_map_addr + 20 * of_nat k) = old_ARDS m (memory_map_addr + 20 * of_nat k)"
    if "k < nat (cnt + 1)" for k
  proof -
    have k: "k \<le> 0x8000"
      using that assms(2) by simp
    have low: "unat (memory_map_addr + 20 * of_nat k + of_nat j) < 0xb8000" if "j < 20" for j
      using unat_of_nat_u32 [of "0x8000 + 20 * k + j"] k that by (simp add: layout)
    have "load32 m' (memory_map_addr + 20 * of_nat k + of_nat q) = load32 m (memory_map_addr + 20 * of_nat k + of_nat q)"
      if "q \<le> 16" for q
      using low [of "q + i" for i] that by (intro load32_cong assms(1)) (simp add: add.assoc)
    from this [of 0] this [of 4] this [of 8] this [of 12] this [of 16] show ?thesis
      by (simp add: old_ARDS_def)
  qed
  then have "old_scan (nat (cnt + 1)) m' memory_map_addr 0 0 = old_scan (nat (cnt + 1)) m memory_map_addr 0 0"
    by (rule old_scan_cong)
  then show ?thesis
    by (simp add: get_page_num_def)
qed

section \<open>The tables\<close>

text \<open>
  Inside, the loop is that of the kernel. Cells are counted from 1 MB as in \<^verbatim>\<open>Paging\<close>: the
  directory starts at cell \<^verbatim>\<open>0x100000\<close>, table \<^verbatim>\<open>t\<close> at cell \<^verbatim>\<open>0x100400 + 4096 * t\<close>.
\<close>

lemma old_table_eq: "old_table n f = fill_table n f"
  by (induction n) (simp_all add: layout)

definition table_cell :: "nat \<Rightarrow> nat" where
  "table_cell t = 0x100400 + 4096 * t"

definition old_pde :: "nat \<Rightarrow> u32" where
  "old_pde t = (PageTable + of_nat t * sizeof_page_table + 4 * of_nat t) OR 0x7"

definition old_pte :: "nat \<Rightarrow> u32" where
  "old_pte n = (1024 + of_nat n * PAGE_SIZE) OR 0x7"

lemma old_dir_cells:
  assumes "tmptable f = PageTable" and "pagebase f = 1024"
  shows "t \<le> 1024 \<Longrightarrow>
    tmptable (old_dir t PageDir f) = PAGE_DIR_LOCAL + 4 * of_nat (table_cell t)
    \<and> pagebase (old_dir t PageDir f) = 1024 + of_nat (1024 * t) * PAGE_SIZE
    \<and> (\<forall>d<t. pcell (old_dir t PageDir f) (0x100000 + d) = old_pde d)
    \<and> (\<forall>d<t. \<forall>e<1024. pcell (old_dir t PageDir f) (table_cell d + e) = old_pte (1024 * d + e))
    \<and> (\<forall>x<0x100000. pcell (old_dir t PageDir f) x = pcell f x)"
proof (induction t)
  case 0
  then show ?case by (simp add: assms table_cell_def layout)
next
  case (Suc t)
  let ?f = "old_dir t PageDir f"
  have t: "t < 1024" using Suc.prems by simp
  with Suc.IH have IH: "tmptable ?f = PAGE_DIR_LOCAL + 4 * of_nat (table_cell t)"
      "pagebase ?f = 1024 + of_nat (1024 * t) * PAGE_SIZE"
      "\<And>d. d < t \<Longrightarrow> pcell ?f (0x100000 + d) = old_pde d"
      "\<And>d e. d < t \<Longrightarrow> e < 1024 \<Longrightarrow> pcell ?f (table_cell d + e) = old_pte (1024 * d + e)"
      "\<And>x. x < 0x100000 \<Longrightarrow> pcell ?f x = pcell f x"
    by simp_all
  define g where "g = ?f\<lparr>pf_mem := store32 (pf_mem ?f) (PageDir + 4 * of_nat t)
    ((tmptable ?f + 4 * of_nat t) OR 0x7)\<rparr>"
  have addr: "PageDir + 4 * of_nat t = PAGE_DIR_LOCAL + 4 * of_nat (0x100000 + t)"
    by (simp add: layout)
  have pde: "(tmptable ?f + 4 * of_nat t) OR 0x7 = old_pde t"
    unfolding old_pde_def IH(1) by (simp add: layout table_cell_def algebra_simps)
  have g: "pcell g x = (if x = 0x100000 + t then old_pde t else pcell ?f x)" if "x < 268435456" for x
    using that t unfolding g_def pde addr by (simp add: cell_store32 del: of_nat_add of_nat_numeral)
  have gt: "tmptable g = PAGE_DIR_LOCAL + 4 * of_nat (table_cell t)"
    and gb: "pagebase g = 1024 + of_nat (1024 * t) * PAGE_SIZE"
    using IH(1,2) by (simp_all add: g_def)
  have room: "table_cell t + 1024 < 268435456"
    using t by (simp add: table_cell_def)
  define h where "h = fill_table 1024 g"
  have h: "tmptable h = tmptable g" "pagebase h = pagebase g + of_nat 1024 * PAGE_SIZE"
      "\<And>x. x < 268435456 \<Longrightarrow> pcell h x = (if table_cell t \<le> x \<and> x < table_cell t + 1024
        then (pagebase g + of_nat (x - table_cell t) * PAGE_SIZE) OR 0x7 else pcell g x)"
    using fill_table_cells [OF gt room] by (simp_all add: h_def)
  have step: "old_dir (Suc t) PageDir f = h\<lparr>tmptable := tmptable h + sizeof_page_table\<rparr>"
    by (simp add: Let_def h_def g_def old_table_eq)
  have "pcell h (0x100000 + d) = old_pde d" if "d < Suc t" for d
    using that t h(3) [of "0x100000 + d"] g [of "0x100000 + d"] IH(3) [of d]
    by (auto simp: table_cell_def less_Suc_eq)
  moreover have "pcell h (table_cell d + e) = old_pte (1024 * d + e)" if "d < Suc t" "e < 1024" for d e
  proof -
    have x: "table_cell d + e < 268435456" "table_cell d + e \<noteq> 0x100000 + t"
      using that t by (simp_all add: table_cell_def)
    show ?thesis
    proof (cases "d = t")
      case True
      then show ?thesis
        using h(3) [OF x(1)] that(2) unfolding gb
        by (simp add: old_pte_def algebra_simps)
    next
      case False
      then have "d < t" and out: "\<not> (table_cell t \<le> table_cell d + e \<and> table_cell d + e < table_cell t + 1024)"
        using that by (auto simp: table_cell_def)
      then show ?thesis
        unfolding h(3) [OF x(1)] if_not_P [OF out] using g [OF x(1)] x(2) IH(4) [of d e] that(2) by simp
    qed
  qed
  moreover have "pcell h x = pcell f x" if "x < 0x100000" for x
    using that h(3) [of x] g [of x] IH(5) [OF that] by (simp add: table_cell_def)
  moreover have "tmptable h + sizeof_page_table = PAGE_DIR_LOCAL + 4 * of_nat (table_cell (Suc t))"
    unfolding h(1) gt by (simp add: layout table_cell_def algebra_simps)
  moreover have "pagebase h = 1024 + of_nat (1024 * Suc t) * PAGE_SIZE"
    unfolding h(2) gb by (simp add: algebra_simps)
  ultimately show ?case
    unfolding step by simp
qed

text \<open>Every store goes to 5 MB or above, so that the loader itself is left alone.\<close>

lemma store32_from_5mb:
  assumes "unat x < 0x500000" and "0x500000 \<le> unat a" and "unat a \<le> 0xfffffff0"
  shows "store32 m a v x = m x"
proof (rule store32_frame)
  have "unat (x - a) = unat x + 4294967296 - unat a"
    using assms by (simp add: unat_sub_if_size word_size)
  then show "4 \<le> x - a"
    using assms by (simp add: word_le_nat_alt)
qed

lemma cell_address: "c < 0x1000000 \<Longrightarrow> unat (PAGE_DIR_LOCAL + 4 * of_nat c) = 0x100000 + 4 * c"
  using unat_of_nat_u32 [of "0x100000 + 4 * c"] by (simp add: layout)

lemma fill_table_below:
  assumes "tmptable f = PAGE_DIR_LOCAL + 4 * of_nat c" and "0x100000 \<le> c" and "unat x < 0x500000"
  shows "c + k < 0x1000000 \<Longrightarrow> pf_mem (fill_table k f) x = pf_mem f x"
proof (induction k)
  case 0
  then show ?case by simp
next
  case (Suc k)
  have "tmptable (fill_table k f) + 4 * of_nat k = PAGE_DIR_LOCAL + 4 * of_nat (c + k)"
    using fill_table_cells [OF assms(1), of k] Suc.prems by (simp add: assms(1) algebra_simps)
  moreover have "unat (PAGE_DIR_LOCAL + 4 * of_nat (c + k)) = 0x100000 + 4 * (c + k)"
    using Suc.prems by (intro cell_address) simp
  ultimately show ?case
    using Suc assms(2,3) store32_from_5mb [of x "PAGE_DIR_LOCAL + 4 * of_nat (c + k)"]
    by (simp add: Let_def del: of_nat_add)
qed

lemma old_dir_below:
  assumes "tmptable f = PageTable" and "pagebase f = 1024" and "unat x < 0x500000"
  shows "t \<le> 1024 \<Longrightarrow> pf_mem (old_dir t PageDir f) x = pf_mem f x"
proof (induction t)
  case 0
  then show ?case by simp
next
  case (Suc t)
  let ?f = "old_dir t PageDir f"
  let ?g = "?f\<lparr>pf_mem := store32 (pf_mem ?f) (PageDir + 4 * of_nat t) ((tmptable ?f + 4 * of_nat t) OR 0x7)\<rparr>"
  have tab: "tmptable ?g = PAGE_DIR_LOCAL + 4 * of_nat (table_cell t)"
    using old_dir_cells [OF assms(1,2), of t] Suc.prems by simp
  have "pf_mem (fill_table 1024 ?g) x = pf_mem ?g x"
    by (rule fill_table_below [OF tab _ assms(3)]) (use Suc.prems in \<open>simp_all add: table_cell_def\<close>)
  moreover have "store32 m' (PageDir + 4 * of_nat t) v x = m' x" for m' v
  proof -
    have "unat (PAGE_DIR_LOCAL + 4 * of_nat (0x100000 + t)) = 0x100000 + 4 * (0x100000 + t)"
      using Suc.prems by (intro cell_address) simp
    moreover have "PageDir + 4 * of_nat t = PAGE_DIR_LOCAL + 4 * of_nat (0x100000 + t)"
      by (simp add: layout)
    ultimately have "unat (PageDir + 4 * of_nat t) = 0x100000 + 4 * (0x100000 + t)"
      by (simp only:)
    then show ?thesis
      using Suc.prems by (intro store32_from_5mb [OF assms(3)]) simp_all
  qed
  ultimately show ?case
    using Suc by (simp add: Let_def old_table_eq)
qed

section \<open>Address translation\<close>

text \<open>
  The entries carry stray bits: \<^verbatim>\<open>pagebase\<close> starts at 1024 instead of 0, and a directory entry
  is the address of the entry \<^verbatim>\<open>PT\<close> of its table instead of the table's. Both stay below bit 12,
  where the processor does not look for an address (with \<^verbatim>\<open>CR4.PSE\<close> clear, as at reset).
\<close>

lemma stray_bits:
  fixes x y :: u32
  assumes "unat y < 4096"
  shows "((push_bit 12 x + y) OR 0x7) AND NOT (mask 12) = push_bit 12 x" and "bit ((push_bit 12 x + y) OR 0x7) 0"
proof -
  have y: "y = take_bit 12 y"
    using assms by (simp add: word_unat_eq_iff unsigned_take_bit_eq take_bit_nat_eq_self)
  have "push_bit 12 x AND y = 0"
    by (subst y) (rule bit_word_eqI, auto simp: bit_simps)
  then have sum: "push_bit 12 x + y = push_bit 12 x OR y"
    by (rule disjunctive_add_eq_or)
  have seven: "(7 :: u32) = mask 3"
    by (simp add: mask_eq_exp_minus_1)
  show "((push_bit 12 x + y) OR 0x7) AND NOT (mask 12) = push_bit 12 x"
    unfolding sum seven by (subst y) (rule bit_word_eqI, auto simp: bit_simps)
  show "bit ((push_bit 12 x + y) OR 0x7) 0"
    by (simp add: bit_or_iff)
qed

lemma old_walk_identity:
  assumes pde: "\<And>d. d < t \<Longrightarrow> cell m PAGE_DIR_LOCAL (0x100000 + d) = old_pde d"
    and pte: "\<And>d e. d < t \<Longrightarrow> e < 1024 \<Longrightarrow> cell m PAGE_DIR_LOCAL (table_cell d + e) = old_pte (1024 * d + e)"
    and "t \<le> 1024" and "unat v div 4194304 < t"
  shows "walk m PageDir v = Some v"
proof -
  define d e where "d = unat v div 4194304" and "e = unat v div 4096 mod 1024"
  note index = page_index [OF d_def e_def]
  have d: "d < t" "d < 1024" and e: "e < 1024"
    using assms(3,4) by (simp_all add: d_def e_def)
  have dir: "PageDir AND NOT (mask 12) = PageDir"
    using page_entry(3) [of "0x500"] by (simp add: layout)
  have "load32 m (PageDir + 4 * of_nat d) = old_pde d"
    using pde [OF d(1)] by (simp add: cell_def layout algebra_simps)
  moreover have "old_pde d = (push_bit 12 (of_nat (0x501 + 4 * d)) + of_nat (4 * d)) OR 0x7"
    by (simp add: old_pde_def layout push_bit_eq_mult algebra_simps)
  ultimately have dw: "load32 m (PageDir + 4 * of_nat d)
      = (push_bit 12 (of_nat (0x501 + 4 * d)) + of_nat (4 * d)) OR 0x7"
    by (simp only:)
  have "load32 m (push_bit 12 (of_nat (0x501 + 4 * d)) + 4 * of_nat e)
      = cell m PAGE_DIR_LOCAL (table_cell d + e)"
    unfolding cell_def table_cell_def by (simp add: layout push_bit_eq_mult algebra_simps)
  also have "\<dots> = old_pte (1024 * d + e)"
    by (rule pte [OF d(1) e])
  also have "\<dots> = (push_bit 12 (of_nat (1024 * d + e)) + 1024) OR 0x7"
    by (simp only: old_pte_def of_nat_page add.commute)
  finally have ew: "load32 m (push_bit 12 (of_nat (0x501 + 4 * d)) + 4 * of_nat e)
      = (push_bit 12 (of_nat (1024 * d + e)) + 1024) OR 0x7" .
  have small: "unat (of_nat (4 * d) :: u32) < 4096" "unat (1024 :: u32) < 4096"
    using d(2) by (simp_all del: of_nat_mult)
  show ?thesis
    unfolding walk_def Let_def dir index(1) dw
    by (simp only: stray_bits [OF small(1)] stray_bits [OF small(2)] index(2) ew not_True_eq_False if_False)
      (simp only: page_split flip: index(3))
qed

text \<open>
  After \<^verbatim>\<open>Set_Page\<close> paging is on with the directory at 5 MB, every address below the end of the
  range it found translates to itself, and nothing below 5 MB has changed; later stores below
  5 MB leave the translation alone. When the map has no RAM range that starts above 0 there are
  no pages, and paging is turned on with an empty directory.
\<close>

lemma old_cells_cong:
  assumes "\<And>x. 0x500000 \<le> unat x \<Longrightarrow> m' x = m x" and "0x100000 \<le> c" and "c < 0x1000000"
  shows "cell m' PAGE_DIR_LOCAL c = cell m PAGE_DIR_LOCAL c"
  unfolding cell_def
proof (rule load32_cong)
  fix i :: nat assume i: "i < 4"
  have "unat (PAGE_DIR_LOCAL + 4 * of_nat c) = 0x100000 + 4 * c"
    by (rule cell_address [OF assms(3)])
  then have "unat (PAGE_DIR_LOCAL + 4 * of_nat c + of_nat i) = 0x100000 + 4 * c + i"
    using assms(3) i by (subst unat_add_no_wrap) simp_all
  then show "m' (PAGE_DIR_LOCAL + 4 * of_nat c + of_nat i) = m (PAGE_DIR_LOCAL + 4 * of_nat c + of_nat i)"
    using assms(1,2) by simp
qed

lemma Set_Page_identity:
  fixes s :: old_vm and cnt :: int
  defines "n \<equiv> get_page_num (ovm_mem s) cnt memory_map_addr"
  defines "s' \<equiv> Set_Page cnt s"
  shows "bit (ovm_cr0 s') 31" and "ovm_cr3 s' = PageDir"
    and "(\<And>x. 0x500000 \<le> unat x \<Longrightarrow> m x = ovm_mem s' x) \<Longrightarrow> uint v < n * 4096 \<Longrightarrow> walk m PageDir v = Some v"
    and "unat x < 0x500000 \<Longrightarrow> ovm_mem s' x = ovm_mem s x"
    and "n = 0 \<Longrightarrow> ovm_mem s' = ovm_mem s"
proof -
  define f where "f = \<lparr>pf_mem = ovm_mem s, pagebase = 1024, tmptable = PageTable\<rparr>"
  define T where "T = nat (get_pteT_num n)"
  note c = old_counts [of n "ovm_mem s" cnt memory_map_addr, OF n_def [THEN meta_eq_to_obj_eq]]
  have T: "T \<le> 1024" "int T = (n + 1023) div 1024"
    using c(3-5) by (simp_all add: T_def)
  have s': "s' = s\<lparr>ovm_mem := pf_mem (if n = 0 then f else old_dir T PageDir f), ovm_cr3 := PageDir,
      ovm_cr0 := ovm_cr0 s OR 0x80000000\<rparr>"
    unfolding s'_def Set_Page_def Let_def n_def [symmetric] c(6)
    by (simp add: f_def T_def)
  then show "bit (ovm_cr0 s') 31" "ovm_cr3 s' = PageDir" "n = 0 \<Longrightarrow> ovm_mem s' = ovm_mem s"
    by (simp_all add: bit_or_iff bit_numeral_rec f_def)
  have f: "tmptable f = PageTable" "pagebase f = 1024" "pf_mem f = ovm_mem s"
    by (simp_all add: f_def)
  note cells = old_dir_cells [OF f(1,2) T(1)]
  show "ovm_mem s' x = ovm_mem s x" if "unat x < 0x500000"
    using old_dir_below [OF f(1,2) that T(1)] f(3) by (simp add: s')
  show "walk m PageDir v = Some v"
    if m: "\<And>x. 0x500000 \<le> unat x \<Longrightarrow> m x = ovm_mem s' x" and v: "uint v < n * 4096"
  proof (rule old_walk_identity [OF _ _ T(1)])
    have n: "n \<noteq> 0"
      using v uint_ge_0 [of v] by auto
    note same = old_cells_cong [of m "ovm_mem s'", OF m]
    show "cell m PAGE_DIR_LOCAL (0x100000 + d) = old_pde d" if "d < T" for d
      using that T(1) cells n same [of "0x100000 + d"] by (simp add: s')
    show "cell m PAGE_DIR_LOCAL (table_cell d + e) = old_pte (1024 * d + e)" if "d < T" "e < 1024" for d e
      using that T(1) cells n same [of "table_cell d + e"] by (simp add: s' table_cell_def)
    have "uint v div 4096 < n"
      using v by linarith
    then have "uint v div 4096 div 1024 < (n + 1023) div 1024"
      by linarith
    then have "uint v div 4194304 < int T"
      using zdiv_zmult2_eq [of 1024 "uint v" 4096] T(2) by simp
    moreover have "int (unat v div 4194304) = uint v div 4194304"
      unfolding of_nat_div by simp
    ultimately show "unat v div 4194304 < T"
      by linarith
  qed
qed

end
