(* ===== verification/OldLoader.thy ===== *)
theory OldLoader
  imports OldPaging Stops Hd
begin

text \<open>
  The rest of the old loader \<^verbatim>\<open>src/boot/bak/loader.c\<close>: descriptor tables, screen,
  controllers, interrupt table, the polled disk command, and \<^verbatim>\<open>GDT_Changed\<close>, which composes
  them. No build file uses it, and it cannot be built: the segment words and \<^verbatim>\<open>KCS_SELECTOR\<close> it
  names are only in a comment of \<^verbatim>\<open>src/include/sys/gdt.h\<close> or nowhere, so that they are fields
  of the parameter \<^verbatim>\<open>old_image\<close>, with the addresses the linker would assign. The tests of call
  gates and of ring 3 behind the endless loop are not modelled.
\<close>

section \<open>State\<close>

record old_image =
  KERNEL_CODE_SEG :: desc_struct
  KERNEL_DATE_SEG :: desc_struct
  USER_CODE_SEG :: desc_struct
  USER_DATE_SEG :: desc_struct
  KCS_SELECTOR :: u32
  gdt_addr :: u32
  tss_addr :: u32
  idt_addr :: u32
  fn_idt_test :: u32
  fn_test_call_hd :: u32
  DetectCount :: int
  lit :: "string \<Rightarrow> u32"

record old_loader =
  ol_gdt :: gdt_state
  ol_idt :: "desc_struct list"
  ol_idtr :: desc_ptr
  ol_vm :: old_vm
  ol_io :: io

section \<open>Ports and controllers\<close>

definition outb_old :: "u8 \<Rightarrow> u16 \<Rightarrow> io \<Rightarrow> io" where
  "outb_old v p w = emit (Out8 p v) w"

definition inb_old :: "device \<Rightarrow> u16 \<Rightarrow> io \<Rightarrow> u8 \<times> io" where
  "inb_old dev p w = (ucast (dev (history w) p), emit (In8 p) w)"

text \<open>Four \<^verbatim>\<open>nop\<close>s.\<close>

definition io_delay_old :: "io \<Rightarrow> io" where
  "io_delay_old w = w"

definition inb_pic_old :: "device \<Rightarrow> u16 \<Rightarrow> io \<Rightarrow> u8 \<times> io" where
  "inb_pic_old dev p w = (let (v, w) = inb_old dev p w in (v, io_delay_old w))"

definition outb_pic_old :: "u8 \<Rightarrow> u16 \<Rightarrow> io \<Rightarrow> io" where
  "outb_pic_old v p w = io_delay_old (outb_old v p w)"

definition Init_8259A_old :: "io \<Rightarrow> io" where
  "Init_8259A_old w =
     (let w = outb_pic_old 0x11 MASTER_8259A_CMD w;
          w = outb_pic_old 0x11 SLAVE_8259A_CMD w;
          w = outb_pic_old 0x30 MASTER_8259A_IMR w;
          w = outb_pic_old 0x38 SLAVE_8259A_IMR w;
          w = outb_pic_old 0x4 MASTER_8259A_IMR w;
          w = outb_pic_old 0x2 SLAVE_8259A_IMR w;
          w = outb_pic_old 0x1 MASTER_8259A_IMR w;
          w = outb_pic_old 0x1 SLAVE_8259A_IMR w;
          w = outb_pic_old 0xfb MASTER_8259A_IMR w
      in outb_pic_old 0xbf SLAVE_8259A_IMR w)"

section \<open>The screen\<close>

text \<open>The length is an argument, the position is a byte offset.\<close>

definition dis_str_old :: "bmem \<Rightarrow> u32 \<Rightarrow> u32 \<Rightarrow> u8 \<Rightarrow> u32 \<Rightarrow> (int \<times> bmem) outcome" where
  "dis_str_old m straddr len color loc =
     bind_outcome (dis_loop (unat len) m straddr color loc) (\<lambda>m. Inr (int (unat len), m))"

section \<open>The disk\<close>

text \<open>\<^verbatim>\<open>rep insw\<close> into memory.\<close>

definition port_read_old :: "device \<Rightarrow> bmem \<Rightarrow> u32 \<Rightarrow> u16 \<Rightarrow> u32 \<Rightarrow> io \<Rightarrow> bmem \<times> io" where
  "port_read_old dev m b p len w =
     (let (ws, w) = insw (unat (drop_bit 1 len)) dev p w in (put_bytes m b (bytes_of_words ws), w))"

definition test_call_hd :: "device \<Rightarrow> u32 \<Rightarrow> bmem \<times> io \<Rightarrow> bmem \<times> io" where
  "test_call_hd dev b s = port_read_old dev (fst s) b 0x1f0 512 (snd s)"

partial_function (option) wait_idle_old :: "device \<Rightarrow> io \<Rightarrow> io option" where
  "wait_idle_old dev w =
     (let (v, w) = inb_pic_old dev 0x1f7 w in if 0x80 \<le> v then wait_idle_old dev w else Some w)"

text \<open>A command register is written, and the disk polled again.\<close>

definition out_and_wait :: "device \<Rightarrow> u8 \<Rightarrow> u16 \<Rightarrow> io \<Rightarrow> io outcome" where
  "out_and_wait dev v p w = returns (wait_idle_old dev (outb_pic_old v p w))"

definition hd_cmd_out_old :: "device \<Rightarrow> hd_cmd \<Rightarrow> io \<Rightarrow> io outcome" where
  "hd_cmd_out_old dev c w =
     bind_outcome (returns (wait_idle_old dev w)) (\<lambda>w.
     bind_outcome (out_and_wait dev 0 CTR_DEV_Control w) (\<lambda>w.
     bind_outcome (out_and_wait dev (features c) COM_Features w) (\<lambda>w.
     bind_outcome (out_and_wait dev (sector_count c) COM_Sector_Count w) (\<lambda>w.
     bind_outcome (out_and_wait dev (LBA_low c) COM_LBA_L w) (\<lambda>w.
     bind_outcome (out_and_wait dev (LBA_mid c) COM_LBA_M w) (\<lambda>w.
     bind_outcome (out_and_wait dev (LBA_hig c) COM_LBA_H w) (\<lambda>w.
     bind_outcome (out_and_wait dev (device_reg c) COM_Device w) (\<lambda>w.
     out_and_wait dev (command c) COM_Command w))))))))"

definition hd_identify_old :: "device \<Rightarrow> hd_cmd \<Rightarrow> io \<Rightarrow> io outcome" where
  "hd_identify_old dev stack w =
     hd_cmd_out_old dev (stack\<lparr>device_reg := ucast (REG_Drive 0 0 0), command := ATA_identify\<rparr>) w"

section \<open>Descriptor tables\<close>

definition Cstart_old :: "old_image \<Rightarrow> gdt_state \<Rightarrow> gdt_state" where
  "Cstart_old im k =
     (let g = (gdt k)[0 := \<lparr>da = 0, db = 0\<rparr>];
          g = g[KCS_LOCAL := KERNEL_CODE_SEG im];
          g = g[KDS_LOCAL := KERNEL_DATE_SEG im];
          g = g[UCS_LOCAL := USER_CODE_SEG im];
          g = g[UDS_LOCAL := USER_DATE_SEG im];
          g = g[DIS_LOCAL := GDT_ENTRY_INIT 0x92 0xb8000 0xffff];
          p = \<lparr>size_field = of_nat (GDTNUM * 8 - 1), address = gdt_addr im\<rparr>
      in k\<lparr>gdt := g, gdt_ptr := p, cpu := (cpu k)\<lparr>gdtr := p, ds := 0x28, gs := 0x48, cs := 0x20\<rparr>\<rparr>)"

text \<open>The beginning of \<^verbatim>\<open>GDT_Changed\<close>, up to \<^verbatim>\<open>ltr\<close>.\<close>

definition load_tss_old :: "old_image \<Rightarrow> gdt_state \<Rightarrow> gdt_state" where
  "load_tss_old im k =
     (let k = k\<lparr>cpu := (cpu k)\<lparr>ss := ds (cpu k)\<rparr>\<rparr>;
          h = (x86_tss (tss k))\<lparr>sp0 := 0x7bff, ss0 := ucast KERNEL_DS, io_bitmap_base := of_nat sizeof_tss\<rparr>;
          t = (tss k)\<lparr>x86_tss := h, io_map_end := 0xff, tss_len := of_nat tss_len_offset\<rparr>;
          k = k\<lparr>tss := t, gdt := (gdt k)[TSS_LOCAL := GDT_ENTRY_INIT 0x89 (tss_addr im) (tss_len t - 1)]\<rparr>
      in k\<lparr>cpu := (cpu k)\<lparr>tr := ucast KERNEL_TSS\<rparr>\<rparr>)"

text \<open>
  The call gate that \<^verbatim>\<open>Call_Gate\<close> puts into entry 3 before it calls through it; nothing calls
  \<^verbatim>\<open>Call_Gate\<close>.
\<close>

definition Call_Gate_entry :: "old_image \<Rightarrow> u32 \<Rightarrow> gdt_state \<Rightarrow> gdt_state" where
  "Call_Gate_entry im offset k =
     (let upper = (offset AND 0xffff0000) OR 0xec00;
          bottom = push_bit 16 (KCS_SELECTOR im) OR (offset AND 0x0000ffff)
      in k\<lparr>gdt := (gdt k)[3 := \<lparr>da = bottom, db = upper\<rparr>]\<rparr>)"

section \<open>The interrupt table\<close>

definition IDT_ENTERIES :: nat where [layout]: "IDT_ENTERIES = 256"

definition old_gate :: "old_image \<Rightarrow> u32 \<Rightarrow> desc_struct" where
  "old_gate im f = \<lparr>da = push_bit 16 (KCS_SELECTOR im) OR (f AND 0xffff), db = (f AND 0xffff0000) OR 0xee00\<rparr>"

primrec fill_idt :: "nat \<Rightarrow> desc_struct \<Rightarrow> desc_struct list \<Rightarrow> desc_struct list" where
  "fill_idt 0 d t = t"
| "fill_idt (Suc i) d t = (fill_idt i d t)[i := d]"

definition init_idt_old :: "old_image \<Rightarrow> old_loader \<Rightarrow> old_loader" where
  "init_idt_old im s =
     (let t = fill_idt IDT_ENTERIES (old_gate im (fn_idt_test im)) (ol_idt s);
          t = t[0x3e := old_gate im (fn_test_call_hd im)];
          p = \<lparr>size_field = of_nat (IDT_ENTERIES * 8 - 1), address = idt_addr im\<rparr>
      in s\<lparr>ol_idt := t, ol_idtr := p, ol_io := sti (cli (ol_io s))\<rparr>)"

text \<open>The handler of every vector but one: the message is one byte shorter than the length passed.\<close>

definition idt_test :: "old_image \<Rightarrow> device \<Rightarrow> u32 \<Rightarrow> bmem \<times> io \<Rightarrow> (bmem \<times> io) outcome" where
  "idt_test im dev b s =
     (let m = put_bytes (fst s) b (replicate 512 0) in
      bind_outcome (dis_str_old m (lit im ''in the idt_test function.'') 26 0xc 0) (\<lambda>(n, m).
        Inr (port_read_old dev m b 0x1f0 512 (snd s))))"

section \<open>GDT\_Changed\<close>

definition say_old :: "old_image \<Rightarrow> string \<Rightarrow> u32 \<Rightarrow> u32 \<Rightarrow> old_loader \<Rightarrow> old_loader outcome" where
  "say_old im str len loc s =
     bind_outcome (dis_str_old (ovm_mem (ol_vm s)) (lit im str) len 0xc loc) (\<lambda>(n, m).
       Inr (s\<lparr>ol_vm := (ol_vm s)\<lparr>ovm_mem := m\<rparr>\<rparr>))"

text \<open>Its result is the state in which it loops for ever.\<close>

definition GDT_Changed :: "old_image \<Rightarrow> device \<Rightarrow> hd_cmd \<Rightarrow> old_loader \<Rightarrow> old_loader outcome" where
  "GDT_Changed im dev stack s =
     (let s = s\<lparr>ol_gdt := load_tss_old im (ol_gdt s)\<rparr> in
      bind_outcome (say_old im ''get detect memory map ok.'' 25 0 s) (\<lambda>s.
      let s = s\<lparr>ol_vm := Set_Page (DetectCount im) (ol_vm s)\<rparr> in
      bind_outcome (say_old im ''set page ok.'' 12 80 s) (\<lambda>s.
      let s = s\<lparr>ol_io := Init_8259A_old (ol_io s)\<rparr> in
      bind_outcome (say_old im ''init the 8259A ok.'' 18 160 s) (\<lambda>s.
      let s = init_idt_old im s in
      bind_outcome (hd_identify_old dev stack (ol_io s)) (\<lambda>w. Inr (s\<lparr>ol_io := w\<rparr>))))))"

section \<open>What the parts leave\<close>

lemmas old_port_defs = port_defs outb_old_def inb_old_def io_delay_old_def inb_pic_old_def outb_pic_old_def

text \<open>The controllers as in \<^verbatim>\<open>Init_8259A\<close>, but with the lines of the cascade and of the disk open.\<close>

lemma Init_8259A_old_state:
  "master (Init_8259A_old w) = \<lparr>expected = [], vector_base = 0x30, cascade = 4, imr = 0xfb\<rparr>"
  "slave (Init_8259A_old w) = \<lparr>expected = [], vector_base = 0x38, cascade = 2, imr = 0xbf\<rparr>"
  by (simp_all add: Init_8259A_old_def old_port_defs layout master_def slave_def pic_event_def Let_def bit_simps)

text \<open>A gate is the interrupt gate of \<^verbatim>\<open>set_gate\<close> that user code may call.\<close>

lemma old_gate_eq: "old_gate im f = set_gate GATE_INTERRUPT f 3 (KCS_SELECTOR im)"
  by (simp add: old_gate_def set_gate_def layout)

lemma Call_Gate_entry_eq:
  "Call_Gate_entry im offset k = k\<lparr>gdt := (gdt k)[3 := set_gate 0xC offset 3 (KCS_SELECTOR im)]\<rparr>"
  by (simp add: Call_Gate_entry_def set_gate_def Let_def)

lemma length_fill_idt [simp]: "length (fill_idt n d t) = length t"
  by (induction n) simp_all

lemma fill_idt_nth: "n \<le> length t \<Longrightarrow> v < length t \<Longrightarrow> fill_idt n d t ! v = (if v < n then d else t ! v)"
  by (induction n) (auto simp: nth_list_update less_Suc_eq)

lemma init_idt_old_gates:
  assumes "length (ol_idt s) = IDT_ENTERIES" and "v < IDT_ENTERIES"
  shows "ol_idt (init_idt_old im s) ! v
    = set_gate GATE_INTERRUPT (if v = 0x3e then fn_test_call_hd im else fn_idt_test im) 3 (KCS_SELECTOR im)"
  using assms by (simp add: init_idt_old_def old_gate_eq fill_idt_nth nth_list_update Let_def layout)

text \<open>With the words of the comment in \<^verbatim>\<open>gdt.h\<close> the segments loaded are flat, and the stack is.\<close>

lemma Cstart_old_flat:
  assumes "length (gdt k) = GDTNUM"
    and "KERNEL_CODE_SEG im = \<lparr>da = 0xffff, db = 0xcf9a00\<rparr>" and "KERNEL_DATE_SEG im = \<lparr>da = 0xffff, db = 0xcf9200\<rparr>"
  shows "linear (Cstart_old im k) 0x20 a = Some a" and "linear (Cstart_old im k) 0x28 a = Some a"
    and "linear (Cstart_old im k) 0x48 0xf9f = Some 0xb8f9f"
proof -
  have e: "\<lparr>da = 0xffff, db = 0xcf9a00\<rparr> = GDT_ENTRY_INIT 0xc09a 0 0xfffff"
    "\<lparr>da = 0xffff, db = 0xcf9200\<rparr> = GDT_ENTRY_INIT 0xc092 0 0xfffff"
    by (simp_all add: GDT_ENTRY_INIT_def)
  have d: "descriptor (Cstart_old im k) 0x20 = GDT_ENTRY_INIT 0xc09a 0 0xfffff"
    "descriptor (Cstart_old im k) 0x28 = GDT_ENTRY_INIT 0xc092 0 0xfffff"
    "descriptor (Cstart_old im k) 0x48 = GDT_ENTRY_INIT 0x92 0xb8000 0xffff"
    using assms(1) by (simp_all add: descriptor_def Cstart_old_def layout Let_def assms(2,3) e nth_list_update)
  have s: "unat (size_field (gdtr (cpu (Cstart_old im k)))) = 255"
    by (simp add: Cstart_old_def layout Let_def)
  show "linear (Cstart_old im k) 0x20 a = Some a"
    by (rule linear_flat [OF d(1)]) (simp_all add: bits_def s take_bit_eq_mod drop_bit_eq_div)
  show "linear (Cstart_old im k) 0x28 a = Some a"
    by (rule linear_flat [OF d(2)]) (simp_all add: bits_def s take_bit_eq_mod drop_bit_eq_div)
  show "linear (Cstart_old im k) 0x48 0xf9f = Some 0xb8f9f"
    unfolding linear_def Let_def d(3) s effective_limit_def entry_fields
    by (simp add: bits_def take_bit_eq_mod drop_bit_eq_div)
qed

text \<open>
  The kernel's \<^verbatim>\<open>change_gdt\<close> takes the limit of the TSS from a field not yet set; here it is set
  first, and the limit is that of the segment.
\<close>

lemma load_tss_old_limit:
  assumes "length (gdt k) = GDTNUM"
  shows "seg_limit (descriptor (load_tss_old im k) (ucast KERNEL_TSS)) = 104"
    and "seg_base (descriptor (load_tss_old im k) (ucast KERNEL_TSS)) = tss_addr im"
proof -
  have "descriptor (load_tss_old im k) (ucast KERNEL_TSS) = GDT_ENTRY_INIT 0x89 (tss_addr im) 104"
    using assms by (simp add: descriptor_def load_tss_old_def layout Let_def)
  then show "seg_limit (descriptor (load_tss_old im k) (ucast KERNEL_TSS)) = 104"
    and "seg_base (descriptor (load_tss_old im k) (ucast KERNEL_TSS)) = tss_addr im"
    by (simp_all add: seg_limit_GDT_ENTRY_INIT seg_base_GDT_ENTRY_INIT take_bit_eq_mod)
qed

section \<open>The polled command\<close>

text \<open>The disk does not stay busy while its status is read.\<close>

definition read_status :: "nat \<Rightarrow> history \<Rightarrow> history" where
  "read_status n h = replicate n (In8 0x1f7) @ h"

definition gets_idle :: "device \<Rightarrow> bool" where
  "gets_idle dev \<longleftrightarrow> (\<forall>h. \<exists>n. (ucast (dev (read_status n h) 0x1f7) :: u8) < 0x80)"

lemma wait_idle_old_step:
  "wait_idle_old dev w = (if 0x80 \<le> (ucast (dev (history w) 0x1f7) :: u8)
     then wait_idle_old dev (w\<lparr>history := In8 0x1f7 # history w\<rparr>) else Some (w\<lparr>history := In8 0x1f7 # history w\<rparr>))"
  by (subst wait_idle_old.simps) (simp add: old_port_defs)

lemma wait_idle_old_returns:
  assumes "gets_idle dev"
  shows "\<exists>k. wait_idle_old dev w = Some (w\<lparr>history := read_status k (history w)\<rparr>)"
proof -
  obtain n where "(ucast (dev (read_status n (history w)) 0x1f7) :: u8) < 0x80"
    using assms by (auto simp: gets_idle_def)
  then show ?thesis
  proof (induction n arbitrary: w)
    case 0
    then have "wait_idle_old dev w = Some (w\<lparr>history := read_status 1 (history w)\<rparr>)"
      by (subst wait_idle_old_step) (auto simp: read_status_def)
    then show ?case by blast
  next
    case (Suc n)
    let ?w = "w\<lparr>history := In8 0x1f7 # history w\<rparr>"
    have next_read: "read_status k (In8 0x1f7 # h) = read_status (Suc k) h" for k h
      by (simp add: read_status_def replicate_append_same [symmetric] del: replicate_append_same)
    show ?case
    proof (cases "0x80 \<le> (ucast (dev (history w) 0x1f7) :: u8)")
      case True
      have "\<exists>k. wait_idle_old dev ?w = Some (?w\<lparr>history := read_status k (history ?w)\<rparr>)"
        using Suc.prems by (intro Suc.IH) (simp add: next_read)
      with True show ?thesis
        by (subst wait_idle_old_step) (auto simp: next_read)
    next
      case False
      then have "wait_idle_old dev w = Some (w\<lparr>history := read_status 1 (history w)\<rparr>)"
        by (subst wait_idle_old_step) (simp add: read_status_def)
      then show ?thesis by blast
    qed
  qed
qed

lemma last_out_read_status [simp]: "last_out (read_status n h) p = last_out h p"
  by (induction n) (simp_all add: read_status_def)

lemma out_and_wait_returns:
  assumes "gets_idle dev"
  shows "gives (out_and_wait dev v p w) (\<lambda>w'. int_flag w' = int_flag w
    \<and> last_out (history w') = (last_out (history w))(p := v))"
proof -
  obtain k where "wait_idle_old dev (outb_pic_old v p w)
      = Some ((outb_pic_old v p w)\<lparr>history := read_status k (history (outb_pic_old v p w))\<rparr>)"
    using wait_idle_old_returns [OF assms] by blast
  then show ?thesis
    by (simp add: out_and_wait_def old_port_defs fun_eq_iff)
qed

text \<open>The command arrives: every register of the disk holds the field meant for it.\<close>

lemma hd_cmd_out_old_registers:
  assumes "gets_idle dev"
  shows "gives (hd_cmd_out_old dev c w) (\<lambda>w'. int_flag w' = int_flag w
    \<and> map (last_out (history w')) [0x3f6, 0x1f1, 0x1f2, 0x1f3, 0x1f4, 0x1f5, 0x1f6, 0x1f7]
      = [0, features c, sector_count c, LBA_low c, LBA_mid c, LBA_hig c, device_reg c, command c])"
proof -
  obtain k where k: "wait_idle_old dev w = Some (w\<lparr>history := read_status k (history w)\<rparr>)"
    using wait_idle_old_returns [OF assms] by blast
  show ?thesis
    unfolding hd_cmd_out_old_def k returns.simps bind_outcome.simps
    by ((rule gives_bind [OF out_and_wait_returns [OF assms]])+, rule gives_mono [OF out_and_wait_returns [OF assms]])
      (simp add: layout)
qed

section \<open>GDT\_Changed as a whole\<close>

text \<open>A string literal below the directory, out of reach of the screen and of \<^verbatim>\<open>Set_Page\<close>.\<close>

definition low_literal :: "(string \<Rightarrow> u32) \<Rightarrow> bmem \<Rightarrow> string \<Rightarrow> bool" where
  "low_literal f m s \<longleftrightarrow> literal f m s \<and> (\<forall>i\<le>length s. unat (f s + of_nat i) < 0x500000)"

lemma low_literal_cong:
  assumes "low_literal f m s" and "\<And>x. off_screen x \<Longrightarrow> unat x < 0x500000 \<Longrightarrow> m' x = m x"
  shows "low_literal f m' s"
proof -
  have "cstr m' (f s) (chars s)"
    by (rule cstr_cong [of m]) (use assms in \<open>auto simp: low_literal_def literal_def\<close>)
  then show ?thesis
    using assms(1) by (simp add: low_literal_def literal_def)
qed

lemma say_old_shows:
  assumes "low_literal (lit im) (ovm_mem (ol_vm s)) str" and "unat loc + 2 * length str \<le> 0x10000"
    and "len = of_nat (length str)"
  shows "say_old im str len loc s
    = Inr (s\<lparr>ol_vm := (ol_vm s)\<lparr>ovm_mem := shown loc 0xc (chars str) (ovm_mem (ol_vm s))\<rparr>\<rparr>)"
proof -
  have l: "cstr (ovm_mem (ol_vm s)) (lit im str) (chars str)" "\<And>i. i \<le> length str \<Longrightarrow> off_screen (lit im str + of_nat i)"
    using assms(1) by (simp_all add: low_literal_def literal_def)
  have "dis_loop (length (chars str)) (ovm_mem (ol_vm s)) (lit im str) 0xc loc
      = Inr (shown loc 0xc (chars str) (ovm_mem (ol_vm s)))"
    by (rule dis_loop_shown [OF l(1)]) (use assms(2) l(2) off_screen_far in simp_all)
  moreover have "unat len = length str"
    using assms(2,3) by simp
  ultimately show ?thesis
    by (simp add: say_old_def dis_str_old_def)
qed

lemma screen_only:
  assumes "unat loc + 2 * length bs \<le> 0x8000" and "unat x < 0xb8000 \<or> 0x500000 \<le> unat x"
  shows "shown loc c bs m x = m x"
proof (rule shown_off_screen)
  show "off_screen x"
    using assms(2) unat_u32_bound [of x] by (auto simp: off_screen_def layout unat_sub_if_size word_size)
  show "unat loc + 2 * length bs \<le> 0x10000"
    using assms(1) by simp
qed

text \<open>
  The old loader reaches its endless loop with a TSS of the right limit, every address below the
  end of its RAM mapped to itself, the disk's line and the cascade open, an interrupt gate of
  ring 3 in every vector, interrupts on and the disk asked to identify itself.
\<close>

lemma GDT_Changed_runs:
  assumes "gets_idle dev" and "length (gdt (ol_gdt s)) = GDTNUM" and "length (ol_idt s) = IDT_ENTERIES"
    and "low_literal (lit im) (ovm_mem (ol_vm s)) ''get detect memory map ok.''"
    and "low_literal (lit im) (ovm_mem (ol_vm s)) ''set page ok.''"
    and "low_literal (lit im) (ovm_mem (ol_vm s)) ''init the 8259A ok.''"
    and "DetectCount im < 0x8000"
  shows "gives (GDT_Changed im dev stack s) (\<lambda>s'.
      seg_limit (descriptor (ol_gdt s') (ucast KERNEL_TSS)) = 104
    \<and> bit (ovm_cr0 (ol_vm s')) 31 \<and> ovm_cr3 (ol_vm s') = PageDir
    \<and> (\<forall>v. uint v < get_page_num (ovm_mem (ol_vm s)) (DetectCount im) memory_map_addr * 4096 \<longrightarrow>
        walk (ovm_mem (ol_vm s')) PageDir v = Some v)
    \<and> (\<forall>v<IDT_ENTERIES. ol_idt s' ! v =
        set_gate GATE_INTERRUPT (if v = 0x3e then fn_test_call_hd im else fn_idt_test im) 3 (KCS_SELECTOR im))
    \<and> int_flag (ol_io s') \<and> last_out (history (ol_io s')) COM_Command = ATA_identify)"
proof -
  let ?m0 = "ovm_mem (ol_vm s)"
  let ?m1 = "shown 0 0xc (chars ''get detect memory map ok.'') ?m0"
  let ?v = "Set_Page (DetectCount im) ((ol_vm s)\<lparr>ovm_mem := ?m1\<rparr>)"
  let ?m2 = "shown 80 0xc (chars ''set page ok.'') (ovm_mem ?v)"
  let ?m3 = "shown 160 0xc (chars ''init the 8259A ok.'') ?m2"
  have n: "get_page_num ?m1 (DetectCount im) memory_map_addr = get_page_num ?m0 (DetectCount im) memory_map_addr"
    by (rule get_page_num_cong [OF screen_only assms(7)]) simp_all
  note page = Set_Page_identity [where cnt = "DetectCount im" and s = "(ol_vm s)\<lparr>ovm_mem := ?m1\<rparr>"]
  have first: "\<And>x. off_screen x \<Longrightarrow> ?m1 x = ?m0 x"
    by (rule shown_off_screen) simp_all
  then have paged: "\<And>x. off_screen x \<Longrightarrow> unat x < 0x500000 \<Longrightarrow> ovm_mem ?v x = ?m0 x"
    using page(4) by simp
  moreover have "\<And>x. off_screen x \<Longrightarrow> ?m2 x = ovm_mem ?v x"
    by (rule shown_off_screen) simp_all
  ultimately have second: "\<And>x. off_screen x \<Longrightarrow> unat x < 0x500000 \<Longrightarrow> ?m2 x = ?m0 x"
    by simp
  have "?m3 x = ovm_mem ?v x" if "0x500000 \<le> unat x" for x
    using that screen_only [of 160 "chars ''init the 8259A ok.''" x] screen_only [of 80 "chars ''set page ok.''" x]
    by simp
  note identity = page(3) [of ?m3, OF this]
  have says: "low_literal (lit im) (ovm_mem ?v) ''set page ok.''" "low_literal (lit im) ?m2 ''init the 8259A ok.''"
    using low_literal_cong [OF assms(5) paged] low_literal_cong [OF assms(6) second] by blast+
  let ?s = "s\<lparr>ol_gdt := load_tss_old im (ol_gdt s), ol_io := Init_8259A_old (ol_io s), ol_vm := ?v\<lparr>ovm_mem := ?m3\<rparr>\<rparr>"
  let ?t = "init_idt_old im ?s"
  have run: "GDT_Changed im dev stack s
      = bind_outcome (hd_identify_old dev stack (ol_io ?t)) (\<lambda>w. Inr (?t\<lparr>ol_io := w\<rparr>))"
    using assms(4) says by (simp add: GDT_Changed_def say_old_shows Let_def)
  have t: "ol_gdt ?t = load_tss_old im (ol_gdt s)" "ol_vm ?t = ?v\<lparr>ovm_mem := ?m3\<rparr>" "int_flag (ol_io ?t)"
    by (simp_all add: init_idt_old_def sti_def Let_def)
  have gates: "\<forall>v<IDT_ENTERIES. ol_idt ?t ! v =
      set_gate GATE_INTERRUPT (if v = 0x3e then fn_test_call_hd im else fn_idt_test im) 3 (KCS_SELECTOR im)"
    using init_idt_old_gates [of ?s _ im] assms(3) by simp
  show ?thesis
    unfolding run
  proof (rule gives_bind)
    show "gives (hd_identify_old dev stack (ol_io ?t)) (\<lambda>w'. int_flag w' \<and> last_out (history w') COM_Command = ATA_identify)"
      unfolding hd_identify_old_def
      by (rule gives_mono [OF hd_cmd_out_old_registers [OF assms(1)]]) (use t(3) in \<open>simp add: layout\<close>)
  next
    fix w :: io assume "int_flag w \<and> last_out (history w) COM_Command = ATA_identify"
    then show "gives (Inr (?t\<lparr>ol_io := w\<rparr>)) (\<lambda>s'.
        seg_limit (descriptor (ol_gdt s') (ucast KERNEL_TSS)) = 104
      \<and> bit (ovm_cr0 (ol_vm s')) 31 \<and> ovm_cr3 (ol_vm s') = PageDir
      \<and> (\<forall>v. uint v < get_page_num (ovm_mem (ol_vm s)) (DetectCount im) memory_map_addr * 4096 \<longrightarrow>
          walk (ovm_mem (ol_vm s')) PageDir v = Some v)
      \<and> (\<forall>v<IDT_ENTERIES. ol_idt s' ! v =
          set_gate GATE_INTERRUPT (if v = 0x3e then fn_test_call_hd im else fn_idt_test im) 3 (KCS_SELECTOR im))
      \<and> int_flag (ol_io s') \<and> last_out (history (ol_io s')) COM_Command = ATA_identify)"
      using load_tss_old_limit(1) [OF assms(2)] page(1,2) identity gates t(1,2) by (simp add: n)
  qed
qed

end
