(* ===== verification/BlockSteps.thy ===== *)
theory BlockSteps
  imports Sync
begin

text \<open>
  Locks and semaphores at the grain of the processor: \<^verbatim>\<open>src/kernel/sync/sync.c\<close> with the list
  functions it calls store by store, each test apart from the jump that uses it, and the system
  call that \<^verbatim>\<open>thread_yield\<close> makes with its effect on the interrupt flag: off at the gate, on by
  the \<^verbatim>\<open>sti\<close> of \<^verbatim>\<open>sys_entry.S\<close>, on by the \<^verbatim>\<open>sti\<close> of \<^verbatim>\<open>yield\<close>, and restored by \<^verbatim>\<open>popf\<close> to
  what it was before the call. The timer may come wherever the flag allows it, and it takes the
  flags of the thread it interrupts, so that a jump behind it goes anywhere. \<^verbatim>\<open>yield_thread\<close>
  itself is one step. The words that interrupts leave on the stack are the subject of
  \<^verbatim>\<open>Uptime\<close>; a function that returns over one is not described here.
\<close>

section \<open>Statements\<close>

text \<open>
  The points of an acquire and a release, each before what it names. The local variables and
  evaluated arguments are part of the point, as is the interrupt flag a system call has saved.
\<close>

datatype point = Outside | Test | Branch | Cli | Args | Link u32 u32 u32 nat | Sti | Trap
  | Entry bool | Switch bool | Return bool | Dec | Inside
  | RelTest | RelBranch | RelNext | RelDel u32 | Unlink u32 u32 u32 nat | RelArgs u32
  | Relink u32 u32 u32 nat

text \<open>The stores of \<^verbatim>\<open>__list_add\<close>, and of \<^verbatim>\<open>list_del\<close>.\<close>

definition add_store :: "nat \<Rightarrow> u32 \<Rightarrow> u32 \<Rightarrow> u32 \<Rightarrow> list_heap \<Rightarrow> list_heap" where
  "add_store k new prv nxt h =
     (if k = 0 then set_prev h nxt new
      else if k = 1 then set_next h new nxt
      else if k = 2 then set_prev h new prv
      else set_next h prv new)"

definition del_store :: "nat \<Rightarrow> u32 \<Rightarrow> u32 \<Rightarrow> u32 \<Rightarrow> list_heap \<Rightarrow> list_heap" where
  "del_store k entry prv nxt h =
     (if k = 0 then set_next h prv nxt
      else if k = 1 then set_prev h nxt prv
      else if k = 2 then set_prev h entry entry
      else set_next h entry entry)"

type_synonym stmt = "sync \<Rightarrow> bool \<Rightarrow> point \<Rightarrow> sync \<times> bool \<times> point"

text \<open>
  \<^verbatim>\<open>lock_realse\<close>, and \<^verbatim>\<open>sema_realse\<close>, which has the same text. The boolean is the flag of the
  last test, that the counter is negative.
\<close>

fun realse_stmt :: "u32 \<Rightarrow> stmt" where
  "realse_stmt l s f Inside = (release_count s l, f, RelTest)"
| "realse_stmt l s f RelTest = (s, lock_busy s l, RelBranch)"
| "realse_stmt l s f RelBranch = (s, f, if f then Outside else RelNext)"
| "realse_stmt l s f RelNext = (s, f, RelDel (lh_next (heap (sch s)) (wait_list l)))"
| "realse_stmt l s f (RelDel tmp) = (s, f, Unlink tmp (lh_prev (heap (sch s)) tmp) (lh_next (heap (sch s)) tmp) 0)"
| "realse_stmt l s f (Unlink tmp prv nxt k) = (set_heap s (del_store k tmp prv nxt (heap (sch s))), f,
       if k < 3 then Unlink tmp prv nxt (Suc k) else RelArgs tmp)"
| "realse_stmt l s f (RelArgs tmp) = (let tail = lh_prev (heap (sch s)) (READY_LIST (sch s))
       in (s, f, Relink tmp tail (lh_next (heap (sch s)) tail) 0))"
| "realse_stmt l s f (Relink tmp prv nxt k) = (set_heap s (add_store k tmp prv nxt (heap (sch s))), f,
       if k < 3 then Relink tmp prv nxt (Suc k) else Outside)"
| "realse_stmt l s f p = (s, f, p)"

text \<open>The system call: gate, \<^verbatim>\<open>sti\<close>, the switch with the \<^verbatim>\<open>sti\<close> of \<^verbatim>\<open>yield\<close>, \<^verbatim>\<open>popf\<close>.\<close>

fun yield_stmt :: "stmt" where
  "yield_stmt s f Trap = (s\<lparr>IF := False\<rparr>, f, Entry (IF s))"
| "yield_stmt s f (Entry b) = (s\<lparr>IF := True\<rparr>, f, Switch b)"
| "yield_stmt s f (Switch b) = (thread_yield s, f, Return b)"
| "yield_stmt s f (Return b) = (s\<lparr>IF := b\<rparr>, f, Test)"
| "yield_stmt s f p = (s, f, p)"

definition link_args :: "u32 \<Rightarrow> sync \<Rightarrow> point" where
  "link_args l s = (let tail = lh_prev (heap (sch s)) (wait_list l)
     in Link (elem_of (current_thread (sch s))) tail (lh_next (heap (sch s)) tail) 0)"

fun lock_stmt :: "u32 \<Rightarrow> stmt" where
  "lock_stmt l s f Outside = (s, f, Test)"
| "lock_stmt l s f Test = (s, lock_busy s l, Branch)"
| "lock_stmt l s f Branch = (s, f, if f then Cli else Dec)"
| "lock_stmt l s f Cli = (s\<lparr>IF := False\<rparr>, f, Args)"
| "lock_stmt l s f Args = (s, f, link_args l s)"
| "lock_stmt l s f (Link new prv nxt k) = (set_heap s (add_store k new prv nxt (heap (sch s))), f,
       if k < 3 then Link new prv nxt (Suc k) else Sti)"
| "lock_stmt l s f Sti = (s\<lparr>IF := True\<rparr>, f, Trap)"
| "lock_stmt l s f Dec = (lock_take s l, f, Inside)"
| "lock_stmt l s f Trap = yield_stmt s f Trap"
| "lock_stmt l s f (Entry b) = yield_stmt s f (Entry b)"
| "lock_stmt l s f (Switch b) = yield_stmt s f (Switch b)"
| "lock_stmt l s f (Return b) = yield_stmt s f (Return b)"
| "lock_stmt l s f p = realse_stmt l s f p"

text \<open>\<^verbatim>\<open>sema_acquire\<close> has no \<^verbatim>\<open>sti\<close> in front of \<^verbatim>\<open>thread_yield\<close>.\<close>

fun sema_stmt :: "u32 \<Rightarrow> stmt" where
  "sema_stmt l s f Outside = (s, f, Test)"
| "sema_stmt l s f Test = (s, lock_busy s l, Branch)"
| "sema_stmt l s f Branch = (s, f, if f then Cli else Dec)"
| "sema_stmt l s f Cli = (s\<lparr>IF := False\<rparr>, f, Args)"
| "sema_stmt l s f Args = (s, f, link_args l s)"
| "sema_stmt l s f (Link new prv nxt k) = (set_heap s (add_store k new prv nxt (heap (sch s))), f,
       if k < 3 then Link new prv nxt (Suc k) else Trap)"
| "sema_stmt l s f Dec = (lock_take s l, f, Inside)"
| "sema_stmt l s f Trap = yield_stmt s f Trap"
| "sema_stmt l s f (Entry b) = yield_stmt s f (Entry b)"
| "sema_stmt l s f (Switch b) = yield_stmt s f (Switch b)"
| "sema_stmt l s f (Return b) = yield_stmt s f (Return b)"
| "sema_stmt l s f p = realse_stmt l s f p"

section \<open>Threads\<close>

record block =
  bk :: sync
  flag :: "u32 \<Rightarrow> bool"
  at :: "u32 \<Rightarrow> point"

definition on_cpu :: "block \<Rightarrow> u32" where
  "on_cpu s = current_thread (sch (bk s))"

text \<open>The interrupt returns with interrupts on, by the \<^verbatim>\<open>sti\<close> of \<^verbatim>\<open>EOI_master\<close>.\<close>

definition tick :: "sync \<Rightarrow> sync" where
  "tick s = s\<lparr>sch := timer_handler (sch s), IF := True\<rparr>"

definition run_stmt :: "stmt \<Rightarrow> block \<Rightarrow> block" where
  "run_stmt f s =
     (let c = on_cpu s; (k, b, p) = f (bk s) (flag s c) (at s c)
      in s\<lparr>bk := k, flag := (flag s)(c := b), at := (at s)(c := p)\<rparr>)"

definition interrupted :: "bool \<Rightarrow> block \<Rightarrow> block" where
  "interrupted b s = s\<lparr>bk := tick (bk s), flag := (flag s)(on_cpu s := b)\<rparr>"

inductive bstep :: "stmt \<Rightarrow> block \<Rightarrow> block \<Rightarrow> bool" for f where
  b_stmt: "bstep f s (run_stmt f s)"
| b_timer: "IF (bk s) \<Longrightarrow> bstep f s (interrupted b s)"

lemmas block_defs = on_cpu_def run_stmt_def interrupted_def tick_def

lemma sync_simps [simp]:
  "sch (release_count s l) = sch s" "IF (release_count s l) = IF s"
  "sch (lock_take s l) = sch s" "IF (lock_take s l) = IF s"
  "sch (thread_yield s) = yield_thread (sch s)" "IF (thread_yield s)" "counter (thread_yield s) = counter s"
  by (simp_all add: release_count_def lock_take_def thread_yield_def)

section \<open>Interrupts off\<close>

fun linking :: "point \<Rightarrow> bool" where
  "linking Args = True"
| "linking (Link new prv nxt k) = True"
| "linking p = False"

fun entering :: "point \<Rightarrow> bool" where
  "entering (Entry b) = True"
| "entering p = False"

text \<open>The points at which the interrupts are off, of the two acquires.\<close>

definition lock_masked :: "point \<Rightarrow> bool" where
  "lock_masked p \<longleftrightarrow> linking p \<or> p = Sti \<or> entering p"

definition sema_masked :: "point \<Rightarrow> bool" where
  "sema_masked p \<longleftrightarrow> linking p \<or> p = Trap \<or> entering p"

text \<open>The flag a system call has saved.\<close>

fun saved :: "bool \<Rightarrow> point \<Rightarrow> bool" where
  "saved b (Entry b') = (b' = b)"
| "saved b (Switch b') = (b' = b)"
| "saved b (Return b') = (b' = b)"
| "saved b p = True"

lemmas masked_defs = lock_masked_def sema_masked_def

text \<open>
  A lock's thread has interrupts on outside its masked points, and returns with them on. A
  semaphore's has them off inside, and returns with them off.
\<close>

definition lock_flags :: "block \<Rightarrow> bool" where
  "lock_flags s \<longleftrightarrow> (\<forall>t. saved True (at s t)) \<and> (\<forall>t. t \<noteq> on_cpu s \<longrightarrow> \<not> lock_masked (at s t))
     \<and> (IF (bk s) \<longleftrightarrow> \<not> lock_masked (at s (on_cpu s)))"

definition sema_flags :: "block \<Rightarrow> bool" where
  "sema_flags s \<longleftrightarrow> (\<forall>t. saved False (at s t) \<and> at s t \<noteq> Sti) \<and> (\<forall>t. t \<noteq> on_cpu s \<longrightarrow> \<not> sema_masked (at s t))
     \<and> (IF (bk s) \<longrightarrow> \<not> sema_masked (at s (on_cpu s)))"

lemma flags_interrupted:
  "IF (bk s) \<Longrightarrow> lock_flags s \<Longrightarrow> lock_flags (interrupted b s)"
  "IF (bk s) \<Longrightarrow> sema_flags s \<Longrightarrow> sema_flags (interrupted b s)"
  unfolding lock_flags_def sema_flags_def by (simp_all add: interrupted_def tick_def) metis+

lemma lock_flags_stmt:
  assumes "lock_flags s"
  shows "lock_flags (run_stmt (lock_stmt l) s)"
proof -
  have "saved True (at s (on_cpu s))"
    using assms by (simp add: lock_flags_def)
  then show ?thesis
    using assms by (cases "at s (on_cpu s)")
      (auto simp: lock_flags_def block_defs link_args_def masked_defs Let_def)
qed

lemma sema_flags_stmt:
  assumes "sema_flags s"
  shows "sema_flags (run_stmt (sema_stmt l) s)"
proof -
  have "saved False (at s (on_cpu s))" "at s (on_cpu s) \<noteq> Sti"
    using assms by (auto simp: sema_flags_def)
  then show ?thesis
    using assms by (cases "at s (on_cpu s)")
      (auto simp: sema_flags_def block_defs link_args_def masked_defs Let_def)
qed

lemma lock_flags_steps:
  assumes "(bstep (lock_stmt l))\<^sup>*\<^sup>* s s'" and "lock_flags s"
  shows "lock_flags s'"
  using assms by (induction rule: rtranclp_induct)
    (auto elim!: bstep.cases intro: lock_flags_stmt flags_interrupted)

lemma sema_flags_steps:
  assumes "(bstep (sema_stmt l))\<^sup>*\<^sup>* s s'" and "sema_flags s"
  shows "sema_flags s'"
  using assms by (induction rule: rtranclp_induct)
    (auto elim!: bstep.cases intro: sema_flags_stmt flags_interrupted)

section \<open>Semaphores as locks\<close>

text \<open>
  Where a lock's thread is when a semaphore's is at a given point: the lock has turned the
  interrupts on and off again on its way into the kernel.
\<close>

fun lock_point :: "point \<Rightarrow> point" where
  "lock_point Trap = Sti"
| "lock_point (Entry b) = Sti"
| "lock_point (Switch b) = Switch True"
| "lock_point (Return b) = Return True"
| "lock_point p = p"

definition mimics :: "block \<Rightarrow> block \<Rightarrow> bool" where
  "mimics s u \<longleftrightarrow> sch (bk s) = sch (bk u) \<and> counter (bk s) = counter (bk u) \<and> flag s = flag u
     \<and> (\<forall>t. at s t = lock_point (at u t))"

lemma step_star: "run_stmt f s = s' \<Longrightarrow> (bstep f)\<^sup>*\<^sup>* s s'"
  using b_stmt [of f s] by auto

lemma same_stmt:
  assumes "sch s = sch u" and "counter s = counter u" and "p \<noteq> Trap" and "p \<noteq> Sti" and "\<not> entering p"
  shows "\<exists>k k' b q. lock_stmt l s f (lock_point p) = (k, b, lock_point q) \<and> sema_stmt l u f p = (k', b, q)
    \<and> sch k = sch k' \<and> counter k = counter k'"
proof -
  have "lock_busy s l = lock_busy u l" "link_args l s = link_args l u" "lock_point (link_args l u) = link_args l u"
    "counter (lock_take s l) = counter (lock_take u l)" "counter (release_count s l) = counter (release_count u l)"
    using assms(1,2) by (simp_all add: lock_busy_def link_args_def lock_take_def release_count_def Let_def)
  then show ?thesis
    using assms(3-5) by (cases p) (simp_all add: assms(1,2) Let_def)
qed

lemma mimics_stmt:
  assumes "mimics s u" and "lock_flags s" and "sema_flags u"
  shows "\<exists>s'. (bstep (lock_stmt l))\<^sup>*\<^sup>* s s' \<and> mimics s' (run_stmt (sema_stmt l) u)"
proof -
  let ?f = "lock_stmt l" and ?u = "run_stmt (sema_stmt l) u"
  have c: "on_cpu s = on_cpu u" and p: "at s (on_cpu u) = lock_point (at u (on_cpu u))"
    using assms(1) by (simp_all add: mimics_def on_cpu_def)
  consider (trap) "at u (on_cpu u) = Trap" | (enter) b where "at u (on_cpu u) = Entry b"
    | (same) "at u (on_cpu u) \<noteq> Trap" "at u (on_cpu u) \<noteq> Sti" "\<not> entering (at u (on_cpu u))"
    using assms(3) by (cases "at u (on_cpu u)") (auto simp: sema_flags_def)
  then show ?thesis
  proof cases
    case trap
    then have "mimics s ?u"
      using assms(1) by (auto simp: mimics_def block_defs link_args_def Let_def)
    then show ?thesis by blast
  next
    case enter
    let ?s = "run_stmt ?f (run_stmt ?f (run_stmt ?f s))"
    have "(bstep ?f)\<^sup>*\<^sup>* s ?s"
      using step_star [OF refl] by (meson rtranclp_trans)
    moreover have "mimics ?s ?u"
      using assms(1) enter p by (auto simp: mimics_def block_defs link_args_def Let_def)
    ultimately show ?thesis by blast
  next
    case same
    have "sch (bk s) = sch (bk u)" "counter (bk s) = counter (bk u)"
      using assms(1) by (simp_all add: mimics_def)
    from same_stmt [OF this same, of l "flag s (on_cpu u)"] obtain k k' b q where
      r: "lock_stmt l (bk s) (flag s (on_cpu u)) (lock_point (at u (on_cpu u))) = (k, b, lock_point q)"
        "sema_stmt l (bk u) (flag s (on_cpu u)) (at u (on_cpu u)) = (k', b, q)" "sch k = sch k'" "counter k = counter k'"
      by blast
    have "mimics (run_stmt ?f s) ?u"
      using assms(1) r p c by (simp add: mimics_def run_stmt_def Let_def)
    then show ?thesis
      using step_star by blast
  qed
qed

lemma mimics_timer:
  assumes "mimics s u" and "lock_flags s" and "sema_flags u" and "IF (bk u)"
  shows "IF (bk s)" and "mimics (interrupted b s) (interrupted b u)"
proof -
  have c: "on_cpu s = on_cpu u" and p: "at s (on_cpu u) = lock_point (at u (on_cpu u))"
    using assms(1) by (simp_all add: mimics_def on_cpu_def)
  have "\<not> lock_masked (lock_point q)" if "\<not> sema_masked q" "q \<noteq> Sti" for q
    using that by (cases q) (auto simp: masked_defs)
  then show "IF (bk s)"
    using assms(2-4) c p by (simp add: lock_flags_def sema_flags_def)
  show "mimics (interrupted b s) (interrupted b u)"
    using assms(1) by (simp add: mimics_def block_defs)
qed

lemma sema_mimicked:
  assumes "(bstep (sema_stmt l))\<^sup>*\<^sup>* u u'" and "mimics s u" and "lock_flags s" and "sema_flags u"
  shows "\<exists>s'. (bstep (lock_stmt l))\<^sup>*\<^sup>* s s' \<and> mimics s' u'"
  using assms(1)
proof (induction rule: rtranclp_induct)
  case base
  with assms(2) show ?case by blast
next
  case (step v w)
  then obtain s' where s': "(bstep (lock_stmt l))\<^sup>*\<^sup>* s s'" "mimics s' v"
    by blast
  have fl: "lock_flags s'" "sema_flags v"
    using lock_flags_steps [OF s'(1) assms(3)] sema_flags_steps [OF step.hyps(1) assms(4)] by blast+
  from step.hyps(2) show ?case
  proof cases
    case b_stmt
    with mimics_stmt [OF s'(2) fl, of l] s'(1) show ?thesis
      by (meson rtranclp_trans)
  next
    case (b_timer b)
    note m = mimics_timer [OF s'(2) fl b_timer(2)]
    have "bstep (lock_stmt l) s' (interrupted b s')"
      using m(1) by (rule bstep.b_timer)
    with s'(1) m(2) b_timer(1) show ?thesis
      by (meson rtranclp.rtrancl_into_rtrancl)
  qed
qed

section \<open>The semaphore's waiter\<close>

text \<open>Steps up to the next system call of thread \<^verbatim>\<open>c\<close>.\<close>

definition unblocked :: "stmt \<Rightarrow> u32 \<Rightarrow> block \<Rightarrow> block \<Rightarrow> bool" where
  "unblocked f c s s' \<longleftrightarrow> bstep f s s' \<and> \<not> entering (at s c)"

fun switching :: "point \<Rightarrow> bool" where
  "switching (Switch b) = True"
| "switching (Return b) = True"
| "switching Sti = True"
| "switching p = False"

definition keeps_cpu :: "u32 \<Rightarrow> u32 \<Rightarrow> block \<Rightarrow> bool" where
  "keeps_cpu c n s \<longleftrightarrow> on_cpu s = c \<and> \<not> IF (bk s) \<and> ticks (sch (bk s)) = n \<and> \<not> switching (at s c)"

lemma keeps_cpu_stmt:
  assumes "keeps_cpu c n s" and "\<not> entering (at s c)"
  shows "keeps_cpu c n (run_stmt (sema_stmt l) s)"
  using assms by (cases "at s c") (auto simp: keeps_cpu_def block_defs link_args_def Let_def)

lemma keeps_cpu_steps:
  assumes "(unblocked (sema_stmt l) c)\<^sup>*\<^sup>* s s'" and "keeps_cpu c n s"
  shows "keeps_cpu c n s'"
  using assms
proof (induction rule: rtranclp_induct)
  case base
  then show ?case by blast
next
  case (step v w)
  then have "bstep (sema_stmt l) v w" "\<not> entering (at v c)" "keeps_cpu c n v"
    by (simp_all add: unblocked_def)
  then show ?case
  proof cases
    case b_stmt
    then show ?thesis
      using keeps_cpu_stmt \<open>\<not> entering (at v c)\<close> \<open>keeps_cpu c n v\<close> by blast
  next
    case b_timer
    then show ?thesis
      using \<open>keeps_cpu c n v\<close> by (simp add: keeps_cpu_def)
  qed
qed

section \<open>A thread that blocks and is preempted\<close>

text \<open>Steps of thread \<^verbatim>\<open>c\<close>, named by what they leave.\<close>

definition put :: "block \<Rightarrow> u32 \<Rightarrow> sync \<Rightarrow> bool \<Rightarrow> point \<Rightarrow> block" where
  "put s c k b p = s\<lparr>bk := k, flag := (flag s)(c := b), at := (at s)(c := p)\<rparr>"

lemma put_step:
  assumes "current_thread (sch k) = c" and "f k b p = (k', b', p')"
  shows "bstep f (put s c k b p) (put s c k' b' p')"
  using b_stmt [of f "put s c k b p"] assms by (simp add: put_def run_stmt_def on_cpu_def)

lemma put_self: "on_cpu s = c \<Longrightarrow> at s c = p \<Longrightarrow> s = put s c (bk s) (flag s c) p"
  by (auto simp: put_def)

lemma add_stores:
  "add_store 3 n p x (add_store 2 n p x (add_store (Suc 0) n p x (add_store 0 n p x h))) = list_add_raw h n p x"
  by (simp add: add_store_def list_add_raw_def Let_def)

text \<open>From the call to the end of \<^verbatim>\<open>list_add_tail\<close>, for both acquires.\<close>

lemma links:
  assumes f: "f = lock_stmt l \<or> f = sema_stmt l" and "current_thread (sch k) = c"
  shows "(bstep f)\<^sup>*\<^sup>* (put s c k b (Link n p x 0))
    (put s c (set_heap k (list_add_raw (heap (sch k)) n p x)) b (if f = lock_stmt l then Sti else Trap))"
proof -
  let ?h = "\<lambda>i. add_store i n p x" and ?k = "\<lambda>h. set_heap k h"
  let ?h1 = "?h 0 (heap (sch k))" and ?q = "if f = lock_stmt l then Sti else Trap"
  have one: "bstep f (put s c (?k h) b (Link n p x i)) (put s c (?k (?h i h)) b (Link n p x (Suc i)))"
    if "i < 3" for h i
    using f that by (elim disjE) (auto intro!: put_step simp: assms(2))
  have "?k (heap (sch k)) = k"
    by simp
  then have "(bstep f)\<^sup>*\<^sup>* (put s c k b (Link n p x 0)) (put s c (?k ?h1) b (Link n p x (Suc 0)))"
    using one [of 0 "heap (sch k)"] by simp
  also have "bstep f (put s c (?k ?h1) b (Link n p x (Suc 0))) (put s c (?k (?h 1 ?h1)) b (Link n p x 2))"
    using one [of "Suc 0" ?h1] by (simp add: numeral_2_eq_2)
  also have "bstep f (put s c (?k (?h 1 ?h1)) b (Link n p x 2)) (put s c (?k (?h 2 (?h 1 ?h1))) b (Link n p x 3))"
    using one [of 2 "?h 1 ?h1"] by (simp add: numeral_3_eq_3)
  also have "bstep f (put s c (?k (?h 2 (?h 1 ?h1))) b (Link n p x 3)) (put s c (?k (?h 3 (?h 2 (?h 1 ?h1)))) b ?q)"
    using f by (intro put_step) (auto simp: assms(2))
  finally show ?thesis
    by (simp add: add_stores)
qed

text \<open>The enqueue as a whole, up to the point where the timer may come.\<close>

lemma blocks:
  assumes f: "f = lock_stmt l \<or> f = sema_stmt l" and "on_cpu s = c" and "at s c = Outside"
    and "lock_busy (bk s) l"
  shows "\<exists>p. (bstep f)\<^sup>*\<^sup>* s (put s c (lock_enqueue (bk s) l) True p) \<and> p \<in> {Trap, Switch False}"
proof -
  let ?k = "bk s" and ?m = "(bk s)\<lparr>IF := False\<rparr>"
  let ?h = "list_add_tail (heap (sch ?k)) (elem_of c) (lh_prev (heap (sch ?k)) (wait_list l))"
  have c: "current_thread (sch ?k) = c"
    using assms(2) by (simp add: on_cpu_def)
  have "s = put s c ?k (flag s c) Outside"
    using assms(2,3) by (rule put_self)
  also have "bstep f (put s c ?k (flag s c) Outside) (put s c ?k (flag s c) Test)"
    using f by (intro put_step) (auto simp: c)
  finally have "(bstep f)\<^sup>*\<^sup>* s (put s c ?k (flag s c) Test)"
    by (rule r_into_rtranclp)
  also have "bstep f (put s c ?k (flag s c) Test) (put s c ?k True Branch)"
    using f assms(4) by (intro put_step) (auto simp: c)
  also have "bstep f (put s c ?k True Branch) (put s c ?k True Cli)"
    using f by (intro put_step) (auto simp: c)
  also have "bstep f (put s c ?k True Cli) (put s c ?m True Args)"
    using f by (intro put_step) (auto simp: c)
  also have "bstep f (put s c ?m True Args) (put s c ?m True (link_args l ?m))"
    using f by (intro put_step) (auto simp: c)
  also have "(bstep f)\<^sup>*\<^sup>* (put s c ?m True (link_args l ?m)) (put s c (set_heap ?m ?h) True (if f = lock_stmt l then Sti else Trap))"
    using links [OF f, of ?m c s True "elem_of c" "lh_prev (heap (sch ?k)) (wait_list l)"
        "lh_next (heap (sch ?k)) (lh_prev (heap (sch ?k)) (wait_list l))"] c
    by (simp add: link_args_def list_add_tail_def Let_def)
  finally have linked: "(bstep f)\<^sup>*\<^sup>* s (put s c (set_heap ?m ?h) True (if f = lock_stmt l then Sti else Trap))" .
  have e: "lock_enqueue ?k l = (set_heap ?m ?h)\<lparr>IF := True\<rparr>"
    by (simp add: lock_enqueue_def c Let_def)
  show ?thesis
  proof (cases "f = lock_stmt l")
    case True
    have "bstep f (put s c (set_heap ?m ?h) True Sti) (put s c (lock_enqueue ?k l) True Trap)"
      using True unfolding e by (intro put_step) (auto simp: c)
    with linked True have "(bstep f)\<^sup>*\<^sup>* s (put s c (lock_enqueue ?k l) True Trap)"
      by simp
    then show ?thesis by blast
  next
    case False
    then have f: "f = sema_stmt l"
      using assms(1) by blast
    have "bstep f (put s c (set_heap ?m ?h) True Trap) (put s c (set_heap ?m ?h) True (Entry False))"
      unfolding f by (rule put_step) (simp_all add: c)
    moreover have "bstep f (put s c (set_heap ?m ?h) True (Entry False)) (put s c (lock_enqueue ?k l) True (Switch False))"
      unfolding f e by (rule put_step) (simp_all add: c)
    ultimately have "(bstep f)\<^sup>*\<^sup>* s (put s c (lock_enqueue ?k l) True (Switch False))"
      using linked False by (simp add: rtranclp.rtrancl_into_rtrancl)
    then show ?thesis by blast
  qed
qed

lemma prev_stores:
  "x \<noteq> e \<Longrightarrow> x \<noteq> lh_next h e \<Longrightarrow> lh_prev (list_del h e) x = lh_prev h x"
  "x \<noteq> n \<Longrightarrow> x \<noteq> lh_next h p \<Longrightarrow> lh_prev (list_add_tail h n p) x = lh_prev h x"
  by (simp_all add: code_defs)

text \<open>The end of a slice leaves the \<^verbatim>\<open>prev\<close> links of other nodes.\<close>

lemma timer_prev_frame:
  assumes "schedules s c (t # ts)" and "x \<notin> elem_of ` set (c # t # ts)"
  shows "lh_prev (heap (timer_handler s)) x = lh_prev (heap s) x"
proof (cases "(ticks s + 1) mod 20 = 0")
  case False
  then show ?thesis by (simp add: timer_handler_idle)
next
  case True
  have ready: "ring (heap s) (elem_of t # map elem_of ts)" and rl: "READY_LIST s = elem_of t"
    and cur: "current_thread s = c" and fresh: "elem_of c \<notin> set (elem_of t # map elem_of ts)"
    using assms(1) by (auto simp: schedules_def ready_queue_def)
  let ?h = "list_add_tail (heap s) (elem_of c) (lh_prev (heap s) (elem_of t))"
  have "ring ?h (elem_of t # map elem_of (ts @ [c]))"
    using lh.enqueue_ring [OF ready fresh] by simp
  then have "lh_next ?h (elem_of t) \<in> elem_of ` set (c # t # ts)"
    by (cases ts) (auto simp: ring_next)
  then have "lh_prev (list_del ?h (elem_of t)) x = lh_prev ?h x"
    using assms(2) by (intro prev_stores) auto
  also have "\<dots> = lh_prev (heap s) x"
    using assms(2) ring_back [OF ready] by (intro prev_stores) auto
  finally show ?thesis
    using timer_handler_switch [OF True schedules_ready_nonnull [OF assms(1)]] cur rl by simp
qed

text \<open>A list whose last node is linked among the ready threads is none.\<close>

lemma prev_among_ready:
  assumes "schedules s t (ts @ [c])" and "lh_prev (heap s) x = elem_of c" and "x \<notin> elem_of ` set (c # ts)"
  shows "\<not> ring (heap s) (x # xs)"
proof
  assume "ring (heap s) (x # xs)"
  then have x: "lh_next (heap s) (elem_of c) = x"
    using ring_back assms(2) by metis
  have "ring (heap s) (map elem_of (ts @ [c]))"
    using assms(1) by (simp add: schedules_def ready_queue_def)
  then have "ring (heap s) (elem_of c # map elem_of ts)"
    using ring_rotate1 by simp
  then have "lh_next (heap s) (elem_of c) \<in> elem_of ` set (c # ts)"
    by (cases ts) (auto simp: ring_next)
  with x assms(3) show False
    by simp
qed

section \<open>Properties\<close>

definition view :: "block \<Rightarrow> sched \<times> (u32 \<Rightarrow> u32) \<times> u32 set" where
  "view s = (sch (bk s), counter (bk s), {t. at s t = Inside})"

lemma mimics_view: "mimics s u \<Longrightarrow> view s = view u"
proof -
  have "lock_point p = Inside \<longleftrightarrow> p = Inside" for p
    by (cases p) auto
  then show "mimics s u \<Longrightarrow> view s = view u"
    by (auto simp: mimics_def view_def)
qed

lemma flags_start:
  assumes "\<forall>t. at s t = Outside" and "IF (bk s)"
  shows "lock_flags s" and "sema_flags s" and "mimics s s"
  using assms by (simp_all add: lock_flags_def sema_flags_def mimics_def masked_defs)

text \<open>
  C35. Threads that use a semaphore do nothing that threads using a lock could not do: whatever
  the interrupts, the scheduler, the lists, the counter and the set of threads inside are at
  every moment those of some execution of the lock's functions. The converse fails for the
  missing \<^verbatim>\<open>sti\<close>. A lock's thread has interrupts on wherever its own code and the kernel's do not
  turn them off. But a thread that a semaphore has blocked comes back from the system call with
  the interrupts as they were before it, off: from there on, inside and behind the release, no
  timer interrupt arrives and no other thread runs until it makes a system call again.
\<close>

theorem sema_refines_lock:
  assumes "\<forall>t. at s t = Outside" and "IF (bk s)"
  shows "view ` {u. (bstep (sema_stmt l))\<^sup>*\<^sup>* s u} \<subseteq> view ` {u. (bstep (lock_stmt l))\<^sup>*\<^sup>* s u}
    \<and> (\<forall>u. (bstep (lock_stmt l))\<^sup>*\<^sup>* s u \<longrightarrow> IF (bk u) = (\<not> lock_masked (at u (on_cpu u))))
    \<and> (\<forall>u b v. (bstep (sema_stmt l))\<^sup>*\<^sup>* s u \<longrightarrow> at u (on_cpu u) = Return b
        \<longrightarrow> (unblocked (sema_stmt l) (on_cpu u))\<^sup>*\<^sup>* (run_stmt (sema_stmt l) u) v
        \<longrightarrow> on_cpu v = on_cpu u \<and> \<not> IF (bk v) \<and> ticks (sch (bk v)) = ticks (sch (bk u)))"
proof (intro conjI allI impI)
  note start = flags_start [OF assms]
  show "view ` {u. (bstep (sema_stmt l))\<^sup>*\<^sup>* s u} \<subseteq> view ` {u. (bstep (lock_stmt l))\<^sup>*\<^sup>* s u}"
    using sema_mimicked [OF _ start(3,1,2)] mimics_view by (force simp: image_iff)
  show "IF (bk u) = (\<not> lock_masked (at u (on_cpu u)))" if "(bstep (lock_stmt l))\<^sup>*\<^sup>* s u" for u
    using lock_flags_steps [OF that start(1)] by (simp add: lock_flags_def)
  fix u b v
  assume u: "(bstep (sema_stmt l))\<^sup>*\<^sup>* s u" "at u (on_cpu u) = Return b"
    and v: "(unblocked (sema_stmt l) (on_cpu u))\<^sup>*\<^sup>* (run_stmt (sema_stmt l) u) v"
  have "saved False (Return b)"
    using sema_flags_steps [OF u(1) start(2)] u(2) unfolding sema_flags_def by metis
  then have "keeps_cpu (on_cpu u) (ticks (sch (bk u))) (run_stmt (sema_stmt l) u)"
    using u(2) by (simp add: keeps_cpu_def block_defs Let_def)
  from keeps_cpu_steps [OF v this] show "on_cpu v = on_cpu u" "\<not> IF (bk v)"
    "ticks (sch (bk v)) = ticks (sch (bk u))"
    by (simp_all add: keeps_cpu_def)
qed

text \<open>
  C29. Blocking is not safe from the timer. A lock's \<^verbatim>\<open>sti\<close> in front of \<^verbatim>\<open>thread_yield\<close>, and for
  a semaphore the \<^verbatim>\<open>sti\<close> of \<^verbatim>\<open>sys_entry\<close>, let it come when the thread is in the wait list and
  still runs: if its slice ends there, the thread is queued for the processor like any preempted
  thread, by the list node that links it into the wait list. It is ready although the lock is
  taken, and the head of the wait list is left with links into the ready queue, no list any more.
\<close>

theorem blocked_thread_requeued:
  assumes "f \<in> {lock_stmt l, sema_stmt l}" and "schedules (sch (bk s)) c (t # ts)" and "wake_ring (bk s) l ws"
    and "lock_busy (bk s) l" and "at s c = Outside" and "(ticks (sch (bk s)) + 1) mod 20 = 0"
    and "wait_list l \<notin> elem_of ` set (c # t # ts)" and "set ws \<inter> set (c # t # ts) = {}"
  shows "\<exists>s'. (bstep f)\<^sup>*\<^sup>* s s' \<and> schedules (sch (bk s')) t (ts @ [c]) \<and> at s' c \<in> {Trap, Switch False}
    \<and> lock_busy (bk s') l \<and> lh_prev (heap (sch (bk s'))) (wait_list l) = elem_of c
    \<and> (\<forall>ws'. \<not> wake_ring (bk s') l ws')"
proof -
  have f: "f = lock_stmt l \<or> f = sema_stmt l" and c: "on_cpu s = c"
    using assms(1,2) by (auto simp: on_cpu_def schedules_def)
  let ?k = "lock_enqueue (bk s) l"
  note rings = lock_enqueue_rings [OF assms(2) _ assms(3,7,8)]
  obtain p where p: "(bstep f)\<^sup>*\<^sup>* s (put s c ?k True p)" "p \<in> {Trap, Switch False}"
    using blocks [OF f c assms(5,4)] by blast
  let ?s = "interrupted True (put s c ?k True p)"
  have "bstep f (put s c ?k True p) ?s"
    by (rule b_timer) (simp add: put_def lock_enqueue_def Let_def)
  with p(1) have run: "(bstep f)\<^sup>*\<^sup>* s ?s"
    by (rule rtranclp.rtrancl_into_rtrancl)
  have k: "(ticks (sch ?k) + 1) mod 20 = 0" and sch: "sch (bk ?s) = timer_handler (sch ?k)"
    using assms(6) by (simp_all add: lock_enqueue_def put_def interrupted_def tick_def Let_def)
  have sched: "schedules (sch (bk ?s)) t (ts @ [c])"
    using timer_switch_schedules [OF rings(1) k] unfolding sch by (simp add: next_thread_def next_queue_def)
  have "ring (heap (sch ?k)) (wait_list l # map elem_of (ws @ [c]))"
    using rings(2) by (simp add: wake_ring_def)
  from ring_prev [OF this] have prev: "lh_prev (heap (sch (bk ?s))) (wait_list l) = elem_of c"
    using timer_prev_frame [OF rings(1) assms(7)] unfolding sch by simp
  moreover have "\<not> wake_ring (bk ?s) l ws'" for ws'
    using prev_among_ready [OF sched prev] assms(7) by (auto simp: wake_ring_def)
  moreover have "at ?s c = p" "lock_busy (bk ?s) l"
    using assms(4) by (simp_all add: interrupted_def put_def tick_def lock_busy_def lock_enqueue_def Let_def)
  ultimately show ?thesis
    using run sched p(2) by blast
qed

text \<open>The lock taken, two threads ready besides the running one, at the end of a slice.\<close>

definition at_slice_end :: block where
  "at_slice_end =
     (let k = contended [0x503000, 0x507000] 0x501000 [] (- 1)
      in \<lparr>bk = k\<lparr>sch := (sch k)\<lparr>ticks := 59\<rparr>\<rparr>, flag = (\<lambda>_. False), at = (\<lambda>_. Outside)\<rparr>)"

theorem sema_refines_lock_witness:
  "view ` {u. (bstep (sema_stmt 0x600000))\<^sup>*\<^sup>* at_slice_end u} \<subseteq> view ` {u. (bstep (lock_stmt 0x600000))\<^sup>*\<^sup>* at_slice_end u}"
proof -
  have "\<forall>t. at at_slice_end t = Outside" "IF (bk at_slice_end)"
    by (simp_all add: at_slice_end_def contended_def Let_def)
  from sema_refines_lock [OF this] show ?thesis
    by blast
qed

theorem blocked_thread_requeued_witness:
  "\<exists>s'. (bstep (lock_stmt 0x600000))\<^sup>*\<^sup>* at_slice_end s' \<and> schedules (sch (bk s')) 0x503000 [0x507000, 0x501000]
    \<and> (\<forall>ws. \<not> wake_ring (bk s') 0x600000 ws)"
proof -
  have "schedules (sch (bk at_slice_end)) 0x501000 [0x503000, 0x507000]"
    by (simp add: at_slice_end_def contended_simps)
  moreover have "wake_ring (bk at_slice_end) 0x600000 []" "lock_busy (bk at_slice_end) 0x600000"
    by (simp_all add: at_slice_end_def contended_simps)
  moreover have "at at_slice_end 0x501000 = Outside" "(ticks (sch (bk at_slice_end)) + 1) mod 20 = 0"
    by (simp_all add: at_slice_end_def Let_def)
  moreover have "wait_list 0x600000 \<notin> elem_of ` set [0x501000, 0x503000, 0x507000]"
    by (simp add: wait_list_def elem_of_def layout)
  ultimately show ?thesis
    using blocked_thread_requeued [of "lock_stmt 0x600000" "0x600000" at_slice_end "0x501000" "0x503000" "[0x507000]" "[]"]
    by auto
qed

end
