(* ===== verification/TestThreads.thy ===== *)
theory TestThreads
  imports Thread Stops BlockSteps
begin

text \<open>
  The threads of \<^verbatim>\<open>src/kernel/thread/init.c\<close> that try the lock, \<^verbatim>\<open>test_lock1\<close> and
  \<^verbatim>\<open>test_lock2\<close>, and the endless loop of the init thread, with the lock's functions at the grain
  of \<^verbatim>\<open>BlockSteps\<close>. A step is a statement of the thread that runs, where a comparison and the
  jump that uses it are two, or the timer interrupt with what it does to the thread: its flags
  are lost, it loses a word of its stack, for which there must be room, and a cell of the screen
  counts it. The points at which the timer comes are a parameter; the code allows every one at
  which interrupts are on.
\<close>

section \<open>The threads\<close>

text \<open>\<^verbatim>\<open>Lk p\<close> is the point \<^verbatim>\<open>p\<close> of the acquire or the release; the rest are the thread's own.\<close>

datatype tpc = Say | Lk point | Cmp u32 | Jmp u32 | Inc u32 | Spin

record demo =
  dm_sync :: sync
  dm_mem :: bmem
  dm_pc :: "u32 \<Rightarrow> tpc"
  dm_flag :: "u32 \<Rightarrow> bool"
  dm_room :: "u32 \<Rightarrow> nat"

text \<open>\<^verbatim>\<open>incb %gs:(off)\<close>\<close>

definition incb :: "u32 \<Rightarrow> demo \<Rightarrow> demo" where
  "incb off s = s\<lparr>dm_mem := (dm_mem s)(SCREEN + off := dm_mem s (SCREEN + off) + 1)\<rparr>"

definition at_pc :: "u32 \<Rightarrow> tpc \<Rightarrow> demo \<Rightarrow> demo" where
  "at_pc t p s = s\<lparr>dm_pc := (dm_pc s)(t := p)\<rparr>"

text \<open>The system call of \<^verbatim>\<open>thread_yield\<close> prints before it switches.\<close>

definition syscall_says :: "(string \<Rightarrow> u32) \<Rightarrow> point \<Rightarrow> demo \<Rightarrow> demo outcome" where
  "syscall_says lit p s =
     (if entering p
      then bind_outcome (dis_str (dm_mem s) (lit ''In the syscall_handler function.'') 0xc 0 0) (\<lambda>(n, m).
        Inr (s\<lparr>dm_mem := m\<rparr>))
      else Inr s)"

text \<open>A statement of the lock's functions; \<^verbatim>\<open>held\<close> and \<^verbatim>\<open>free\<close> are where they return to.\<close>

definition in_lock :: "(string \<Rightarrow> u32) \<Rightarrow> u32 \<Rightarrow> u32 \<Rightarrow> tpc \<Rightarrow> tpc \<Rightarrow> point \<Rightarrow> demo \<Rightarrow> demo outcome" where
  "in_lock lit l t held free p s =
     bind_outcome (syscall_says lit p s) (\<lambda>s.
       let (k, b, q) = lock_stmt l (dm_sync s) (dm_flag s t) p
       in Inr (at_pc t (if q = Inside then held else if q = Outside then free else Lk q)
            (s\<lparr>dm_sync := k, dm_flag := (dm_flag s)(t := b)\<rparr>)))"

definition test_lock1 :: "(string \<Rightarrow> u32) \<Rightarrow> u32 \<Rightarrow> u32 \<Rightarrow> demo \<Rightarrow> demo outcome" where
  "test_lock1 lit l t s = (case dm_pc s t of
     Say \<Rightarrow> bind_outcome (dis_str (dm_mem s) (lit ''in the test_lock1 thread'') 0xb 1 0) (\<lambda>(n, m).
       Inr (at_pc t (Lk Outside) (s\<lparr>dm_mem := m\<rparr>)))
   | Lk p \<Rightarrow> in_lock lit l t (Cmp 0) Spin p s
   | Cmp i \<Rightarrow> Inr (at_pc t (Jmp i) (s\<lparr>dm_flag := (dm_flag s)(t := c_int i < c_quot 21474800 2)\<rparr>))
   | Jmp i \<Rightarrow> Inr (at_pc t (if dm_flag s t then Inc i else Lk Inside) s)
   | Inc i \<Rightarrow> Inr (at_pc t (Cmp (i + 1)) (incb (160 + 40) s))
   | Spin \<Rightarrow> Inr (incb (160 + 50) s))"

definition test_lock2 :: "(string \<Rightarrow> u32) \<Rightarrow> u32 \<Rightarrow> u32 \<Rightarrow> demo \<Rightarrow> demo outcome" where
  "test_lock2 lit l t s = (case dm_pc s t of
     Say \<Rightarrow> bind_outcome (dis_str (dm_mem s) (lit ''in the test_lock2 thread'') 0xb 2 0) (\<lambda>(n, m).
       Inr (at_pc t (Lk Outside) (s\<lparr>dm_mem := m\<rparr>)))
   | Lk p \<Rightarrow> in_lock lit l t Spin Spin p s
   | Spin \<Rightarrow> Inr (incb (160 + 160 + 40) s)
   | _ \<Rightarrow> Inl Uninitialised)"





section \<open>Who is inside\<close>





definition literals :: "(string \<Rightarrow> u32) \<Rightarrow> demo \<Rightarrow> bool" where
  "literals lit s \<longleftrightarrow> literal lit (dm_mem s) ''in the test_lock1 thread''
     \<and> literal lit (dm_mem s) ''in the test_lock2 thread''
     \<and> literal lit (dm_mem s) ''In the syscall_handler function.''"













section \<open>The invariant\<close>















definition demo_ready :: "(string \<Rightarrow> u32) \<Rightarrow> u32 \<Rightarrow> u32 \<Rightarrow> u32 \<Rightarrow> demo \<Rightarrow> bool" where
  "demo_ready lit l t1 t2 s \<longleftrightarrow> t1 \<noteq> t2 \<and> dm_pc s t1 = Say \<and> dm_pc s t2 = Say
     \<and> counter (dm_sync s) l = 0 \<and> literals lit s"

text \<open>\<^verbatim>\<open>init_thread\<close> leaves the lock as the threads need it.\<close>

lemma init_thread_demo_ready:
  assumes "init_thread im k = Inr k'" and "t1 \<noteq> t2"
    and "literal lit (k_mem k') ''in the test_lock1 thread''" and "literal lit (k_mem k') ''in the test_lock2 thread''"
    and "literal lit (k_mem k') ''In the syscall_handler function.''"
  shows "demo_ready lit (test_lock im) t1 t2
    \<lparr>dm_sync = k_sync k', dm_mem = k_mem k', dm_pc = (\<lambda>_. Say), dm_flag = f, dm_room = room\<rparr>"
proof -
  have "counter (k_sync k') (test_lock im) = 0"
    using assms(1) by (auto simp: init_thread_def bind_outcome_Inr set_sched_def get_lock_def Let_def)
  then show ?thesis
    using assms(2-5) by (simp add: demo_ready_def literals_def)
qed


section \<open>Properties\<close>











end
