(* ===== verification/Spec2Isabelle.thy ===== *)
theory Spec2Isabelle
  imports LockSteps Loader Syscall KernelStart LockTasks Stops BootCopies OldLoader TestThreads
begin

text \<open>
  A model of the Finux kernel (a 32-bit x86 teaching kernel and its boot loader) and its
  correctness theorems.

  The program. A loader (\<^verbatim>\<open>src/boot\<close>) sets up the interrupt controllers, reads the kernel from
  a disk and jumps to it; the kernel (\<^verbatim>\<open>src/kernel\<close>, with \<^verbatim>\<open>src/lib\<close> and
  \<^verbatim>\<open>src/include\<close>) loads its own segment and interrupt tables, copies the memory map the
  loader left, builds page tables, starts the timer, and switches to an init thread that creates
  two threads sharing one lock. The timer interrupt and the yield system call switch threads
  through a ring of list nodes.

  The theories, in the order of their imports, and what each models:

  \<^item> \<^verbatim>\<open>Prelude\<close>: machine integers, the byte memory with 32-bit loads and stores, faults as
    values, C's signed division, the hint collections \<^verbatim>\<open>layout\<close>, \<^verbatim>\<open>code_defs\<close> and
    \<^verbatim>\<open>mask_simps\<close>.
  \<^item> \<^verbatim>\<open>ListHead\<close>: \<^verbatim>\<open>lib/list.c\<close> over a heap with one map per link field;
    \<^verbatim>\<open>ring h xs\<close> says the nodes form one cycle. The locale \<^verbatim>\<open>ring_store\<close> is the
    interface its clients use, interpreted there on the code's operations.
  \<^item> \<^verbatim>\<open>CString\<close>: \<^verbatim>\<open>lib/string.c\<close>; loops without a bound return an option, None when they
    never end.
  \<^item> \<^verbatim>\<open>Mm\<close>, \<^verbatim>\<open>PageAlloc\<close>, \<^verbatim>\<open>Paging\<close>: \<^verbatim>\<open>kernel/mm\<close>. The allocator's bitmap and the
    page tables are bytes of the memory. The locale \<^verbatim>\<open>page_allocator\<close> states the allocator's
    contract and is interpreted on \<^verbatim>\<open>get_pages\<close> and \<^verbatim>\<open>free_pages\<close>. \<^verbatim>\<open>walk\<close> is the
    processor's translation.
  \<^item> \<^verbatim>\<open>Sched\<close>: \<^verbatim>\<open>timer_handler\<close> and \<^verbatim>\<open>yield_thread\<close> over the scheduler's globals.
    \<^verbatim>\<open>schedules s c q\<close> is the abstraction: \<^verbatim>\<open>c\<close> runs, \<^verbatim>\<open>q\<close> is the ready queue.
  \<^item> \<^verbatim>\<open>Sync\<close>: \<^verbatim>\<open>kernel/sync/sync.c\<close>, one function per operation (one pass of the blocking
    loop), with \<^verbatim>\<open>wake_ring\<close> for a lock's queue. \<^verbatim>\<open>LockSteps\<close>: the same operations cut into
    single statements, as a step relation \<^verbatim>\<open>lstep\<close> that interleaves any number of threads with
    the timer. \<^verbatim>\<open>BlockSteps\<close>: acquire and release once more with every list store, the jump apart
    from its test, and the interrupt flag through the system call, for locks and semaphores.
  \<^item> \<^verbatim>\<open>Desc\<close>, \<^verbatim>\<open>Pic\<close>, \<^verbatim>\<open>Idt\<close>: segment descriptors and gates as words with the
    processor's reading of them, the interrupt controllers behind a device parameter, the
    interrupt tables and the drivers' registrations.
  \<^item> \<^verbatim>\<open>Block\<close>, \<^verbatim>\<open>Hd\<close>: the loader's ATA disk driver. The locale \<^verbatim>\<open>sector_store\<close> is what
    its client relies on, a store of sectors and two operations; \<^verbatim>\<open>Hd\<close> models \<^verbatim>\<open>boot/hd.c\<close> and
    the interrupt stub of \<^verbatim>\<open>boot/interrupt.c\<close>, states the ATA standard as a property
    \<^verbatim>\<open>ata_disk\<close> of the device, and interprets the locale on \<^verbatim>\<open>hd_read\<close> and \<^verbatim>\<open>hd_write\<close>.
  \<^item> \<^verbatim>\<open>Fs\<close>: \<^verbatim>\<open>boot/fs.c\<close> and \<^verbatim>\<open>boot/fs.h\<close>, every function, over the driver, and a second
    interpretation of the locale on its state. \<^verbatim>\<open>FsParts\<close>: the partition tables. \<^verbatim>\<open>FsMake\<close>:
    the making of a file system, \<^verbatim>\<open>new_fs\<close> being the sectors it promises. \<^verbatim>\<open>FsLoad\<close>: reading
    it back and loading the kernel, up to what \<^verbatim>\<open>get_memory_info\<close> of \<^verbatim>\<open>Mm\<close> finds.
    \<^verbatim>\<open>FsType\<close>: the lengths of the lists for its arrays.
  \<^item> \<^verbatim>\<open>Loader\<close>: \<^verbatim>\<open>Cstart\<close> of \<^verbatim>\<open>boot/loader.c\<close>, which composes all of the loader, and the
    timer interrupt of \<^verbatim>\<open>boot/timer.c\<close>.
  \<^item> \<^verbatim>\<open>Display\<close>: the text screen. \<^verbatim>\<open>Thread\<close>: \<^verbatim>\<open>kernel/thread/init.c\<close>, thread structures
    and first stack frames as bytes of the memory.
  \<^item> \<^verbatim>\<open>Cpu\<close>: the registers and the stack instructions of the processor, and the register frame
    \<^verbatim>\<open>struct registers\<close>. \<^verbatim>\<open>Entry\<close>: the assembly of \<^verbatim>\<open>interrupt.S\<close>, \<^verbatim>\<open>sys_entry.S\<close> and
    \<^verbatim>\<open>switch.S\<close>, instruction by instruction, with the C functions it calls; \<^verbatim>\<open>stopped\<close> says a
    thread is off the processor with given registers.
  \<^item> \<^verbatim>\<open>Tasks\<close>: what these entry points promise, a set of tasks each with its registers, the
    relation \<^verbatim>\<open>runs_tasks\<close> of a machine to it, and the executions \<^verbatim>\<open>exec\<close> in which interrupts,
    yields, releases and the threads' own instructions come in any order. \<^verbatim>\<open>TaskRuns\<close>: what
    follows for whole executions. \<^verbatim>\<open>Syscall\<close>: system calls from entry to return. \<^verbatim>\<open>Boot\<close>: the
    state \<^verbatim>\<open>init_thread\<close> leaves as a set of tasks, and its first time slice.
    \<^verbatim>\<open>Uptime\<close>: the stack the interrupts take. \<^verbatim>\<open>LockTasks\<close>: the lock operations of \<^verbatim>\<open>Sync\<close>
    as actions of the tasks.
  \<^item> \<^verbatim>\<open>KernelStart\<close>: \<^verbatim>\<open>kernel/kernel.c\<close>, which composes the kernel's components.
  \<^item> \<^verbatim>\<open>Stops\<close>: how the system stops, \<^verbatim>\<open>exception_handler\<close> of \<^verbatim>\<open>kernel/interrupt/exception.c\<close>
    and the \<^verbatim>\<open>PANIC\<close> macros, each up to its endless loop. \<^verbatim>\<open>TestThreads\<close>: the two threads of
    \<^verbatim>\<open>init.c\<close> that try the lock, as a step relation with the timer, over the
    statements of \<^verbatim>\<open>BlockSteps\<close>.
  \<^item> \<^verbatim>\<open>BootCopies\<close>: the loader's own copies of \<^verbatim>\<open>8259a.c\<close> and \<^verbatim>\<open>display.c\<close>, equal to the
    kernel's function by function. \<^verbatim>\<open>OldPaging\<close>, \<^verbatim>\<open>OldLoader\<close>: the superseded loader
    \<^verbatim>\<open>boot/bak/loader.c\<close>.

  What the theorems show. Lists, strings, screen: what each operation leaves, on every input of
  its contract. Scheduler: \<^verbatim>\<open>timer_handler\<close> refines round robin, no ready thread starves.
  Allocator: first fit, exact round trip with release, and each case where the code departs from
  that. Paging: the tables map every address to itself, and when they run into the kernel image.
  Locks: waiters are served in order; mutual exclusion under an interrupt mask the code does not
  have, and the race without it; semaphores do only what locks do, but wake up with interrupts
  off; four ways the wait lists go wrong. Start-up: flat segments,
  every exception vector leads to its handler, no interrupt arrives without a gate, and the
  init thread leaves a well-formed scheduler with two runnable threads; \<^verbatim>\<open>kernel_start\<close> as a whole
  ends in the init thread, and the first time slice in the first of the two; every exception
  stops with its own name on the screen. Switches: every execution refines the set of tasks, a
  thread comes back with its registers and its stack, a waiter gets the processor from a
  release; the two test threads are never inside their lock together, if the timer does not
  come between an acquire's test, its jump and its decrement; what the entry points lose: a word
  of stack and the flags at each timer interrupt, three registers at each system call. Loader: the driver is a store of sectors; the partition is found at its true address in
  the extended chain, and where it is misplaced; \<^verbatim>\<open>make_fs\<close> leaves exactly its layout and is
  found again; the kernel arrives at 2 MB with the information it reads; the arrays that are too
  short. Old loader: its tables map every address to itself, and it reaches its endless loop.

  Conventions. A struct is a record, or bytes at its offsets where the code's own memory layout
  matters; \<^verbatim>\<open>u8\<close>, \<^verbatim>\<open>u16\<close> and \<^verbatim>\<open>u32\<close> are machine words and wrap; an \<^verbatim>\<open>int\<close> counter
  bounded by a small constant is a natural number. A function that can leave C's defined
  behaviour, panic or spin returns \<^verbatim>\<open>Inl\<close> of a fault. Addresses given by the linker, and the
  answers of hardware ports, are parameters. No fuel is used: loops are structural, have a
  measure, or are partial functions into option.

  A compiled C function called from assembly may write up to \<^verbatim>\<open>n\<close> bytes below the stack pointer
  and change the flags as the parameter \<^verbatim>\<open>compiled\<close> says; the theorems hold for every such
  parameter with \<^verbatim>\<open>frames_within n\<close>. The arithmetic flags of the stubs' own \<^verbatim>\<open>subl\<close> and
  \<^verbatim>\<open>addl\<close> are left out, since a call or \<^verbatim>\<open>popf\<close> follows. A timer interrupt runs to its end:
  one that arrives inside another, behind the \<^verbatim>\<open>sti\<close> of \<^verbatim>\<open>EOI_master\<close>, is not modelled.

  Not modelled: the loader's real-mode assembly; the file \<^verbatim>\<open>kernel/interrupt/interrupt.c\<close>, whose
  stubs use a macro that is commented out, and which \<^verbatim>\<open>interrupt.S\<close> replaces; the tests of call
  gates and of ring 3 in \<^verbatim>\<open>boot/bak/loader.c\<close>, which nothing reaches; the ELF declarations, which
  nothing uses; the host tool in Python and the assembly test images.
\<close>

end
